(* ===== verification/Prelude.thy ===== *)
theory Prelude
  imports Main "HOL-Library.Word" "HOL-Library.AList" "HOL-Library.Monad_Syntax"
begin

text \<open>
  What the components share: the widths of the C++ integers, the parts of the C++ standard
  library the sources use (vectors with checked element access, \<open>std::string\<close> searches,
  \<open>std::unordered_map\<close>), the byte order of the host, and lemmas about them.

  Undefined behaviour is the value \<open>None\<close> of an \<open>option\<close>: an element access out of range,
  \<open>back()\<close> of an empty vector or the dereference of a null pointer has no defined result,
  so a function that can reach one returns an \<open>option\<close> and a theorem that it does not
  says \<open>\<exists>r. f x = Some r\<close>.
\<close>

section \<open>Integers\<close>

type_synonym u64 = "64 word"
type_synonym u32 = "32 word"
type_synonym bytes = "char list"

section \<open>Collections of facts\<close>

named_theorems raft_simps \<open>field-wise effect of the Raft node's operations\<close>
named_theorems pool_simps \<open>effect of the connection pool's operations\<close>
named_theorems um_simps \<open>lookups after updates of an unordered map\<close>

section \<open>std::vector\<close>

text \<open>\<open>v[i]\<close> and \<open>v.back()\<close>, undefined outside the vector.\<close>

definition vec_at :: "'a list \<Rightarrow> u64 \<Rightarrow> 'a option" where
  "vec_at v i = (if unat i < length v then Some (v ! unat i) else None)"

definition vec_back :: "'a list \<Rightarrow> 'a option" where
  "vec_back v = (if v = [] then None else Some (last v))"

definition vec_size :: "'a list \<Rightarrow> u64" where
  "vec_size v = of_nat (length v)"

text \<open>\<open>v.resize(n)\<close>: cut, or filled up with the default value.\<close>

definition vec_resize :: "'a \<Rightarrow> 'a list \<Rightarrow> nat \<Rightarrow> 'a list" where
  "vec_resize d v n = take n v @ replicate (n - length v) d"

lemma take_drop_append: "take n xs @ drop n xs @ ys = xs @ ys"
  by (simp flip: append_assoc)

lemma length_vec_resize [simp]: "length (vec_resize d v n) = n"
  by (simp add: vec_resize_def)

lemma vec_at_in [simp]: "unat i < length v \<Longrightarrow> vec_at v i = Some (v ! unat i)"
  by (simp add: vec_at_def)

lemma vec_at_eq_Some: "vec_at v i = Some x \<longleftrightarrow> unat i < length v \<and> v ! unat i = x"
  by (auto simp: vec_at_def)

lemma vec_back_Some [simp]: "v \<noteq> [] \<Longrightarrow> vec_back v = Some (last v)"
  by (simp add: vec_back_def)

lemma vec_back_eq_Some: "vec_back v = Some x \<longleftrightarrow> v \<noteq> [] \<and> last v = x"
  by (auto simp: vec_back_def)

lemma unat_of_nat_64: "n < 2 ^ 64 \<Longrightarrow> unat (of_nat n :: u64) = n"
  by (simp add: unat_of_nat take_bit_nat_eq_self)

lemma unat_vec_size: "length v < 2 ^ 64 \<Longrightarrow> unat (vec_size v) = length v"
  by (simp add: vec_size_def unat_of_nat_64)

lemma unat_plus_one: "a < c \<Longrightarrow> unat (a + 1) = unat a + 1" for a c :: u64
  by unat_arith

lemma unat_plus_nat:
  "unat a + n < 2 ^ 64 \<Longrightarrow> unat (a + of_nat n) = unat a + n" for a :: u64
  by (simp add: unat_word_ariths(1) unat_of_nat take_bit_nat_eq_self)

lemma unat_minus_one_pos: "0 < unat a \<Longrightarrow> unat (a - 1) = unat a - 1" for a :: u64
  by (rule unat_minus_one) auto

section \<open>std::string\<close>

text \<open>
  \<open>s.find(c)\<close>, \<open>s.find_first_not_of(cs)\<close> and \<open>s.find_last_not_of(cs)\<close>; \<open>None\<close> is
  \<open>npos\<close>.
\<close>

fun str_find :: "char \<Rightarrow> string \<Rightarrow> nat option" where
  "str_find c [] = None"
| "str_find c (x # xs) = (if x = c then Some 0 else map_option Suc (str_find c xs))"

fun find_first_not_of :: "string \<Rightarrow> string \<Rightarrow> nat option" where
  "find_first_not_of cs [] = None"
| "find_first_not_of cs (x # xs) =
     (if x \<notin> set cs then Some 0 else map_option Suc (find_first_not_of cs xs))"

definition find_last_not_of :: "string \<Rightarrow> string \<Rightarrow> nat option" where
  "find_last_not_of cs s =
     map_option (\<lambda>k. length s - 1 - k) (find_first_not_of cs (rev s))"

definition substr :: "string \<Rightarrow> nat \<Rightarrow> nat \<Rightarrow> string" where
  "substr s pos n = take n (drop pos s)"

lemma str_find_None: "str_find c s = None \<longleftrightarrow> c \<notin> set s"
  by (induction s) auto

lemma str_find_append: "c \<notin> set k \<Longrightarrow> str_find c (k @ c # v) = Some (length k)"
  by (induction k) auto

lemma str_find_SomeD:
  "str_find c s = Some n \<Longrightarrow> n < length s \<and> s ! n = c \<and> c \<notin> set (take n s)"
  by (induction s arbitrary: n) (auto split: if_splits)

lemma find_first_not_of_None: "find_first_not_of cs s = None \<longleftrightarrow> set s \<subseteq> set cs"
  by (induction s) auto

lemma find_first_not_of_Some:
  "find_first_not_of cs s = Some n \<Longrightarrow>
     n < length s \<and> drop n s = dropWhile (\<lambda>c. c \<in> set cs) s
     \<and> n = length (takeWhile (\<lambda>c. c \<in> set cs) s)"
  by (induction s arbitrary: n) (auto split: if_splits)

section \<open>std::unordered_map\<close>

text \<open>
  An unordered map is an association list with distinct keys. The order of an iteration is
  unspecified in C++; the sources that iterate sort what they collect or treat every element
  alike.
\<close>

type_synonym ('k, 'v) umap = "('k \<times> 'v) list"

text \<open>\<open>m[k]\<close> inserts the default value when the key is missing.\<close>

definition um_index :: "'v \<Rightarrow> 'k \<Rightarrow> ('k, 'v) umap \<Rightarrow> 'v \<times> ('k, 'v) umap" where
  "um_index d k m =
     (case map_of m k of Some v \<Rightarrow> (v, m) | None \<Rightarrow> (d, AList.update k d m))"

lemma um_find_set [simp, um_simps]:
  "map_of (AList.update k v m) k' = (if k' = k then Some v else map_of m k')"
  by (simp add: update_conv')

lemma um_find_erase [simp, um_simps]:
  "map_of (AList.delete k m) k' = (if k' = k then None else map_of m k')"
  by (simp add: delete_conv')

lemma um_index_present [simp]: "map_of m k = Some v \<Longrightarrow> um_index d k m = (v, m)"
  by (simp add: um_index_def)

lemma um_keys_set: "fst ` set (AList.update k v m) = insert k (fst ` set m)"
  by (simp add: dom_update)

lemma um_set_mem: "x \<in> set (AList.update k v m) \<Longrightarrow> x = (k, v) \<or> x \<in> set m"
  by (induction m) (auto split: if_splits)

lemma um_values_bounded:
  assumes "distinct (map fst m)" and "\<And>k v. map_of m k = Some v \<Longrightarrow> P v"
    and "v \<in> snd ` set m"
  shows "P v"
  using assms by (auto simp: map_of_eq_Some_iff)

section \<open>Byte order\<close>

text \<open>
  The host is little-endian: \<open>le_bytes\<close> is how a 32-bit integer lies in memory and
  \<open>le_word\<close> reads it back. \<open>htonl\<close> and \<open>ntohl\<close> reverse the bytes.
\<close>

fun le_digits :: "nat \<Rightarrow> nat \<Rightarrow> bytes" where
  "le_digits 0 n = []"
| "le_digits (Suc k) n = char_of (n mod 256) # le_digits k (n div 256)"

definition le_bytes :: "u32 \<Rightarrow> bytes" where
  "le_bytes w = le_digits 4 (unat w)"

fun le_number :: "bytes \<Rightarrow> nat" where
  "le_number [] = 0"
| "le_number (c # cs) = of_char c + 256 * le_number cs"

definition le_word :: "bytes \<Rightarrow> u32" where
  "le_word bs = of_nat (le_number bs)"

definition htonl :: "u32 \<Rightarrow> u32" where
  "htonl w = le_word (rev (le_bytes w))"

definition ntohl :: "u32 \<Rightarrow> u32" where
  "ntohl w = le_word (rev (le_bytes w))"

lemma length_le_digits [simp]: "length (le_digits k n) = k"
  by (induction k arbitrary: n) auto

lemma le_bytes_digits:
  "le_bytes w = (let n = unat w in
     [char_of (n mod 256), char_of (n div 256 mod 256), char_of (n div 256 div 256 mod 256),
      char_of (n div 256 div 256 div 256 mod 256)])"
proof -
  have four: "4 = Suc (Suc (Suc (Suc 0)))" by simp
  show ?thesis unfolding le_bytes_def four le_digits.simps Let_def by (rule refl)
qed

lemma length_le_bytes [simp]: "length (le_bytes w) = 4"
  by (simp add: le_bytes_def)

lemma of_char_bound: "of_char c < (256 :: nat)"
  using mod_less_divisor [of 256 "of_char c :: nat"] by simp

lemma le_digit_step: "a < 256 \<Longrightarrow> v < p \<Longrightarrow> a + 256 * v < 256 * (p :: nat)"
  by linarith

lemma le_number_bound: "le_number bs < 256 ^ length bs"
proof (induction bs)
  case (Cons c cs)
  show ?case
    unfolding le_number.simps length_Cons power_Suc
    by (rule le_digit_step [OF of_char_bound Cons])
qed simp

lemma le_number_le_digits: "le_number (le_digits k n) = n mod 256 ^ k"
  by (induction k arbitrary: n) (simp_all add: mod_mult2_eq)

lemma le_digits_le_number: "le_digits (length bs) (le_number bs) = bs"
proof (induction bs)
  case (Cons c cs)
  have "(of_char c + 256 * le_number cs) mod 256 = (of_char c :: nat)"
    and "(of_char c + 256 * le_number cs) div 256 = le_number cs"
    using of_char_bound [of c] by simp_all
  with Cons show ?case by simp
qed simp

lemma unat_le_word: "length bs = 4 \<Longrightarrow> unat (le_word bs) = le_number bs"
  using le_number_bound [of bs] by (simp add: le_word_def unat_of_nat take_bit_nat_eq_self)

lemma le_word_le_bytes [simp]: "le_word (le_bytes w) = w"
proof -
  have "unat w < 2 ^ LENGTH(32)" by (rule unsigned_less)
  then have "unat w mod 256 ^ 4 = unat w" by simp
  then show ?thesis by (simp add: le_word_def le_bytes_def le_number_le_digits del: mod_less)
qed

lemma le_bytes_le_word: "length bs = 4 \<Longrightarrow> le_bytes (le_word bs) = bs"
  using le_digits_le_number [of bs] by (simp add: le_bytes_def unat_le_word)

lemma le_bytes_htonl [simp]: "le_bytes (htonl w) = rev (le_bytes w)"
  by (simp add: htonl_def le_bytes_le_word)

lemma ntohl_htonl [simp]: "ntohl (htonl w) = w"
  by (simp add: ntohl_def)

end
