(* ===== verification/Config.thy ===== *)
theory Config
  imports Prelude
begin

text \<open>
  The configuration store (\<open>src/common/config/Config.h\<close>, \<open>Config.cpp\<close>) and the command line of
  \<open>main.cpp\<close>. The singleton's \<open>data_\<close> is the field of a record; every accessor runs under the
  object's mutex, so it is one step of the model. The file system is an argument: \<open>None\<close> stands
  for a file that \<open>std::ifstream\<close> cannot open, \<open>Some content\<close> for its bytes. Log lines are left out.
\<close>

section \<open>Strings of the standard library\<close>

text \<open>\<open>std::getline\<close>: the bytes before the next newline and the rest; none at the end of the file.\<close>

definition newline :: char where
  "newline = CHR 0x0A"

definition getline :: "string \<Rightarrow> (string \<times> string) option" where
  "getline ifs = (if ifs = [] then None
     else Some (takeWhile (\<lambda>c. c \<noteq> newline) ifs, drop 1 (dropWhile (\<lambda>c. c \<noteq> newline) ifs)))"

text \<open>\<open>std::isspace\<close>, \<open>std::isdigit\<close> and \<open>std::tolower\<close> in the \<open>C\<close> locale.\<close>

definition is_space :: "char \<Rightarrow> bool" where
  "is_space c \<longleftrightarrow> c \<in> {CHR '' '', CHR 0x09, CHR 0x0A, CHR 0x0B, CHR 0x0C, CHR 0x0D}"

definition is_digit :: "char \<Rightarrow> bool" where
  "is_digit c \<longleftrightarrow> (48 :: nat) \<le> of_char c \<and> of_char c \<le> (57 :: nat)"

definition to_lower :: "char \<Rightarrow> char" where
  "to_lower c = (let n = of_char c :: nat in if 65 \<le> n \<and> n \<le> 90 then char_of (n + 32) else c)"

text \<open>
  \<open>std::stoi\<close>: leading white space, an optional sign, at least one digit; what follows the
  digits is ignored. \<open>None\<close> is the exception, \<open>invalid_argument\<close> without digits and
  \<open>out_of_range\<close> outside the 32 bits of an \<open>int\<close>.
\<close>

definition digit_val :: "char \<Rightarrow> int" where
  "digit_val c = int (of_char c) - 48"

definition digits_val :: "string \<Rightarrow> int" where
  "digits_val ds = foldl (\<lambda>v c. 10 * v + digit_val c) 0 ds"

definition int_range :: "int \<Rightarrow> bool" where
  "int_range n \<longleftrightarrow> - (2 ^ 31) \<le> n \<and> n < 2 ^ 31"

definition stoi :: "string \<Rightarrow> int option" where
  "stoi s =
     (let t = dropWhile is_space s;
          neg = (case t of c # _ \<Rightarrow> c = CHR ''-'' | [] \<Rightarrow> False);
          body = (case t of c # cs \<Rightarrow> if c = CHR ''-'' \<or> c = CHR ''+'' then cs else t | [] \<Rightarrow> []);
          ds = takeWhile is_digit body;
          n = (if neg then - digits_val ds else digits_val ds)
      in if ds = [] then None else if int_range n then Some n else None)"

section \<open>The store\<close>

record Config =
  cfg_data :: "(string, string) umap"

definition Config_empty :: Config where
  "Config_empty = \<lparr>cfg_data = []\<rparr>"

definition blanks :: string where
  "blanks = [CHR '' '', CHR 0x09, CHR 0x0D, CHR 0x0A]"

definition trim :: "string \<Rightarrow> string" where
  "trim s =
     (case find_first_not_of blanks s of
        None \<Rightarrow> []
      | Some start \<Rightarrow>
          (case find_last_not_of blanks s of
             None \<Rightarrow> substr s start (length s)
           | Some e \<Rightarrow> substr s start (e - start + 1)))"

definition config_set :: "string \<Rightarrow> string \<Rightarrow> Config \<Rightarrow> Config" where
  "config_set key value c = c\<lparr>cfg_data := AList.update key value (cfg_data c)\<rparr>"

definition getString :: "string \<Rightarrow> string \<Rightarrow> Config \<Rightarrow> string" where
  "getString key defaultValue c =
     (case map_of (cfg_data c) key of Some v \<Rightarrow> v | None \<Rightarrow> defaultValue)"

definition getInt :: "string \<Rightarrow> int \<Rightarrow> Config \<Rightarrow> int" where
  "getInt key defaultValue c =
     (case map_of (cfg_data c) key of
        Some v \<Rightarrow> (case stoi v of Some n \<Rightarrow> n | None \<Rightarrow> defaultValue)
      | None \<Rightarrow> defaultValue)"

definition getBool :: "string \<Rightarrow> bool \<Rightarrow> Config \<Rightarrow> bool" where
  "getBool key defaultValue c =
     (case map_of (cfg_data c) key of
        Some s \<Rightarrow>
          (let v = map to_lower s in
           if v = ''1'' \<or> v = ''true'' \<or> v = ''yes'' \<or> v = ''on'' then True
           else if v = ''0'' \<or> v = ''false'' \<or> v = ''no'' \<or> v = ''off'' then False
           else defaultValue)
      | None \<Rightarrow> defaultValue)"

text \<open>One turn of the loop of \<open>loadFromFile\<close>, and the loop.\<close>

definition load_line :: "string \<Rightarrow> Config \<Rightarrow> Config" where
  "load_line raw c =
     (let line = trim raw in
      if line = [] \<or> line ! 0 = CHR ''#'' then c
      else
        (case str_find (CHR ''='') line of
           None \<Rightarrow> c
         | Some pos \<Rightarrow>
             (let key = trim (substr line 0 pos);
                  value = trim (substr line (pos + 1) (length line))
              in if key = [] then c else config_set key value c)))"

lemma getline_shrinks [dest]: "getline ifs = Some (l, rest) \<Longrightarrow> length rest < length ifs"
proof -
  assume "getline ifs = Some (l, rest)"
  then have ne: "ifs \<noteq> []" and rest: "rest = drop 1 (dropWhile (\<lambda>c. c \<noteq> newline) ifs)"
    by (auto simp: getline_def split: if_splits)
  have "length (dropWhile (\<lambda>c. c \<noteq> newline) ifs) \<le> length ifs" by (rule length_dropWhile_le)
  with ne rest show ?thesis by (cases ifs) auto
qed

function load_loop :: "string \<Rightarrow> Config \<Rightarrow> Config" where
  "load_loop ifs c =
     (case getline ifs of None \<Rightarrow> c | Some (line, rest) \<Rightarrow> load_loop rest (load_line line c))"
  by pat_completeness auto
termination by (relation "measure (\<lambda>(ifs, c). length ifs)") auto

declare load_loop.simps [simp del]

definition loadFromFile :: "(string \<Rightarrow> string option) \<Rightarrow> string \<Rightarrow> Config \<Rightarrow> bool \<times> Config" where
  "loadFromFile fs path c =
     (case fs path of None \<Rightarrow> (False, c) | Some content \<Rightarrow> (True, load_loop content c))"

section \<open>The command line\<close>

text \<open>The loop over \<open>argv[1..]\<close> of \<open>parseConfigPath\<close>: the argument after the first \<open>--config\<close>.\<close>

fun config_path_loop :: "string list \<Rightarrow> string \<Rightarrow> string" where
  "config_path_loop (arg # next # rest) path =
     (if arg = ''--config'' then next else config_path_loop (next # rest) path)"
| "config_path_loop _ path = path"

definition parseConfigPath :: "string list \<Rightarrow> string" where
  "parseConfigPath argv = config_path_loop (drop 1 argv) ''./config/server.conf''"

section \<open>Trimming\<close>

abbreviation blank :: "char \<Rightarrow> bool" where
  "blank c \<equiv> c \<in> set blanks"

text \<open>A text without blanks at its two ends.\<close>

definition trimmed :: "string \<Rightarrow> bool" where
  "trimmed s \<longleftrightarrow> s = [] \<or> \<not> blank (hd s) \<and> \<not> blank (last s)"

lemma length_takeWhile_less: "x \<in> set xs \<Longrightarrow> \<not> P x \<Longrightarrow> length (takeWhile P xs) < length xs"
  by (induction xs) auto

lemma strip_right: "rev (dropWhile P (rev xs)) = take (length xs - length (takeWhile P (rev xs))) xs"
  by (simp add: dropWhile_eq_drop rev_drop)

lemma trim_strip: "trim s = rev (dropWhile blank (rev (dropWhile blank s)))"
proof (cases "find_first_not_of blanks s")
  case None
  then have "\<forall>c \<in> set s. blank c" by (auto simp: find_first_not_of_None)
  with None show ?thesis by (auto simp: trim_def dest: set_dropWhileD)
next
  case (Some i)
  from find_first_not_of_Some [OF this] have i: "i < length s" "drop i s = dropWhile blank s"
    and il: "i = length (takeWhile blank s)" by auto
  obtain k where k: "find_first_not_of blanks (rev s) = Some k"
    using Some find_first_not_of_None [of blanks s] find_first_not_of_None [of blanks "rev s"] by fastforce
  from find_first_not_of_Some [OF this] have kl: "k = length (takeWhile blank (rev s))" and kn: "k < length s" by auto
  let ?d = "dropWhile blank s"
  have ne: "?d \<noteq> []" using i(1) unfolding i(2) [symmetric] by simp
  then have nb: "\<not> blank (hd ?d)" by (rule hd_dropWhile)
  have split: "rev s = rev ?d @ rev (takeWhile blank s)"
    by (metis rev_append takeWhile_dropWhile_id)
  have ex: "\<exists>x \<in> set (rev ?d). \<not> blank x" using ne nb by (metis hd_in_set set_rev)
  then have tw: "takeWhile blank (rev s) = takeWhile blank (rev ?d)"
    unfolding split by (auto intro: takeWhile_append1)
  have "k < length ?d"
    using ex length_takeWhile_less [of _ "rev ?d" blank] unfolding kl tw by auto
  moreover have "length ?d = length s - i" unfolding i(2) [symmetric] by simp
  ultimately have "length s - 1 - k - i + 1 = length ?d - k" by linarith
  moreover have "rev (dropWhile blank (rev ?d)) = take (length ?d - k) ?d"
    unfolding kl tw by (rule strip_right)
  ultimately show ?thesis using Some k i
    by (simp add: trim_def find_last_not_of_def substr_def)
qed

lemma dropWhile_blanks: "set a \<subseteq> set blanks \<Longrightarrow> dropWhile blank (a @ t) = dropWhile blank t"
  by (induction a) auto

lemma dropWhile_hd: "t = [] \<or> \<not> P (hd t) \<Longrightarrow> dropWhile P t = t"
  by (cases t) auto

lemma trim_unique:
  assumes "set a \<subseteq> set blanks" and "set b \<subseteq> set blanks" and "trimmed t"
  shows "trim (a @ t @ b) = t"
proof (cases "t = []")
  case True
  have "dropWhile blank b = []" using assms(2) by auto
  with True assms(1) show ?thesis unfolding trim_strip True by (simp only: append_Nil dropWhile_blanks) simp
next
  case False
  then have "dropWhile blank (t @ b) = t @ b" and "dropWhile blank (rev t) = rev t"
    using assms(3) by (auto simp: trimmed_def hd_rev intro!: dropWhile_hd)
  then show ?thesis using assms(1,2) by (simp add: trim_strip dropWhile_blanks)
qed

lemma trim_trimmed [simp]: "trimmed t \<Longrightarrow> trim t = t"
  using trim_unique [of "[]" "[]" t] by simp

lemma trimmed_Nil [simp]: "trimmed []"
  by (simp add: trimmed_def)

lemma trimmed_trim [simp]: "trimmed (trim s)"
proof (cases "trim s = []")
  case False
  let ?d = "dropWhile blank s"
  have last: "\<not> blank (hd (dropWhile blank (rev ?d)))" 
  proof (rule hd_dropWhile)
    show "dropWhile blank (rev ?d) \<noteq> []" using False unfolding trim_strip by blast
  qed
  obtain k where k: "trim s = take k ?d" unfolding trim_strip strip_right by blast
  with False have "hd (trim s) = hd ?d" and "?d \<noteq> []" by auto
  then have "\<not> blank (hd (trim s))" by (metis hd_dropWhile)
  with last show ?thesis unfolding trimmed_def by (metis last_rev trim_strip)
qed simp

lemma trim_split: "\<exists>a b. s = a @ trim s @ b \<and> set a \<subseteq> set blanks \<and> set b \<subseteq> set blanks"
proof -
  let ?d = "dropWhile blank s"
  have "s = takeWhile blank s @ ?d" by simp
  moreover have "?d = trim s @ rev (takeWhile blank (rev ?d))"
    unfolding trim_strip by (metis rev_append rev_rev_ident takeWhile_dropWhile_id)
  ultimately have "s = takeWhile blank s @ trim s @ rev (takeWhile blank (rev ?d))" by metis
  moreover have "set (takeWhile blank xs) \<subseteq> set blanks" for xs by (auto dest: set_takeWhileD)
  ultimately show ?thesis by (metis set_rev)
qed

lemma set_trim: "set (trim s) \<subseteq> set s"
  using trim_split [of s] by (metis set_append sup_ge1 sup_ge2 subset_trans)

section \<open>Loading a file\<close>

text \<open>
  What a file assigns: the text is cut into lines, a line that is blank, a comment or without a
  key assigns nothing, and any other line assigns the trimmed text after the first equals sign
  to the trimmed text before it.
\<close>

fun split_lines :: "string \<Rightarrow> string list" where
  "split_lines [] = []"
| "split_lines (c # cs) =
     (if c = newline then [] # split_lines cs
      else (case split_lines cs of [] \<Rightarrow> [[c]] | l # ls \<Rightarrow> (c # l) # ls))"

definition line_assigns :: "string \<Rightarrow> (string \<times> string) option" where
  "line_assigns raw =
     (let line = trim raw;
          key = trim (takeWhile (\<lambda>c. c \<noteq> CHR ''='') line);
          value = trim (tl (dropWhile (\<lambda>c. c \<noteq> CHR ''='') line))
      in if CHR ''='' \<notin> set line \<or> take 1 line = ''#'' \<or> key = [] then None else Some (key, value))"

definition file_assigns :: "string \<Rightarrow> (string \<times> string) list" where
  "file_assigns content = List.map_filter line_assigns (split_lines content)"

lemma str_find_takeWhile:
  "str_find c s = Some n \<Longrightarrow> takeWhile (\<lambda>x. x \<noteq> c) s = take n s \<and> dropWhile (\<lambda>x. x \<noteq> c) s = drop n s"
  by (induction s arbitrary: n) (auto split: if_splits)

lemma load_line_assigns:
  "load_line raw c = (case line_assigns raw of None \<Rightarrow> c | Some (k, v) \<Rightarrow> config_set k v c)"
proof (cases "str_find (CHR ''='') (trim raw)")
  case None
  moreover have "CHR ''='' \<notin> set (trim raw)" using None str_find_None by blast
  ultimately show ?thesis by (simp add: load_line_def line_assigns_def Let_def)
next
  case (Some n)
  moreover have "CHR ''='' \<in> set (trim raw)" 
    using Some str_find_None [of "CHR ''=''" "trim raw"] by auto
  moreover have "trim raw ! 0 = CHR ''#'' \<longleftrightarrow> take 1 (trim raw) = ''#''"
    using \<open>CHR ''='' \<in> set (trim raw)\<close> by (cases "trim raw") auto
  ultimately show ?thesis using str_find_takeWhile [OF Some]
    by (auto simp: load_line_def line_assigns_def Let_def substr_def drop_Suc tl_drop)
qed

lemma split_lines_getline:
  "split_lines s = (case getline s of None \<Rightarrow> [] | Some (l, r) \<Rightarrow> l # split_lines r)"
proof (induction s)
  case (Cons c cs)
  then show ?case by (cases cs) (auto simp: getline_def)
qed (simp add: getline_def)

lemma load_loop_lines: "load_loop content c = fold load_line (split_lines content) c"
proof (induction content c rule: load_loop.induct)
  case (1 ifs c)
  show ?case
    unfolding load_loop.simps [of ifs c] split_lines_getline [of ifs]
    using "1.IH" by (auto split: option.splits)
qed

lemma load_lines_map:
  "map_of (cfg_data (fold load_line ls c))
   = map_of (cfg_data c) ++ map_of (rev (List.map_filter line_assigns ls))"
proof (induction ls arbitrary: c)
  case (Cons l ls)
  then show ?case
    by (auto simp: load_line_assigns List.map_filter_def config_set_def update_conv' split: option.splits)
qed (simp add: List.map_filter_def)

lemma load_loop_map:
  "map_of (cfg_data (load_loop content c)) = map_of (cfg_data c) ++ map_of (rev (file_assigns content))"
  by (simp add: load_loop_lines load_lines_map file_assigns_def)

section \<open>Numbers\<close>

text \<open>The decimal text of a number.\<close>

fun show_nat :: "nat \<Rightarrow> string" where
  "show_nat n = (if n < 10 then [char_of (48 + n)] else show_nat (n div 10) @ [char_of (48 + n mod 10)])"

declare show_nat.simps [simp del]

definition show_int :: "int \<Rightarrow> string" where
  "show_int n = (if n < 0 then CHR ''-'' # show_nat (nat (- n)) else show_nat (nat n))"

lemma of_char_digit: "d < 10 \<Longrightarrow> of_char (char_of (48 + d) :: char) = 48 + d" for d :: nat
  by simp

lemma is_digit_digit: "d < 10 \<Longrightarrow> is_digit (char_of (48 + d))" for d :: nat
  by (simp add: is_digit_def)

lemma digits_val_snoc [simp]: "digits_val (ds @ [c]) = 10 * digits_val ds + digit_val c"
  by (simp add: digits_val_def)

lemma digit_val_digit: "d < 10 \<Longrightarrow> digit_val (char_of (48 + d)) = int d" for d :: nat
  by (simp add: digit_val_def)

lemma show_nat_digits: "set (show_nat n) \<subseteq> {c. is_digit c}"
proof (induction n rule: show_nat.induct)
  case (1 n)
  show ?case
  proof (cases "n < 10")
    case True
    then show ?thesis using is_digit_digit [of n] by (subst show_nat.simps) simp
  next
    case False
    then show ?thesis using 1 is_digit_digit [of "n mod 10"] by (subst show_nat.simps) simp
  qed
qed

lemma show_nat_not_Nil [simp]: "show_nat n \<noteq> []"
  by (subst show_nat.simps) simp

lemma digits_val_show_nat: "digits_val (show_nat n) = int n"
proof (induction n rule: show_nat.induct)
  case (1 n)
  show ?case
  proof (cases "n < 10")
    case True
    then show ?thesis using digit_val_digit [of n] by (subst show_nat.simps) (simp add: digits_val_def)
  next
    case False
    then have "digits_val (show_nat n) = 10 * int (n div 10) + int (n mod 10)"
      using 1 digit_val_digit [of "n mod 10"] by (subst show_nat.simps) simp
    then show ?thesis by presburger
  qed
qed

lemma is_digit_not_sign: "is_digit c \<Longrightarrow> c \<noteq> CHR ''-'' \<and> c \<noteq> CHR ''+'' \<and> \<not> is_space c"
  by (auto simp: is_digit_def is_space_def)

lemma takeWhile_digits: "set ds \<subseteq> {c. is_digit c} \<Longrightarrow> rest = [] \<or> \<not> is_digit (hd rest) \<Longrightarrow>
   takeWhile is_digit (ds @ rest) = ds"
  by (induction ds) (auto simp: takeWhile_eq_Nil_iff)

text \<open>The shape of a number that \<open>stoi\<close> reads.\<close>

definition number_text :: "bool \<Rightarrow> string \<Rightarrow> string" where
  "number_text neg ds = (if neg then CHR ''-'' # ds else ds)"

lemma stoi_number:
  assumes "set ws \<subseteq> {c. is_space c}" and "ds \<noteq> []" and "set ds \<subseteq> {c. is_digit c}"
    and "rest = [] \<or> \<not> is_digit (hd rest)"
  shows "stoi (ws @ number_text neg ds @ rest)
    = (let n = if neg then - digits_val ds else digits_val ds in if int_range n then Some n else None)"
proof -
  obtain d ds' where ds: "ds = d # ds'" and d: "is_digit d" using assms(2,3) by (cases ds) auto
  have minus: "\<not> is_space CHR ''-''" by (simp add: is_space_def)
  have "dropWhile is_space (ws @ number_text neg ds @ rest) = number_text neg ds @ rest"
    using assms(1) ds is_digit_not_sign [OF d] minus by (induction ws) (auto simp: number_text_def)
  moreover have "takeWhile is_digit (ds @ rest) = ds" using assms(3,4) by (rule takeWhile_digits)
  ultimately show ?thesis using ds is_digit_not_sign [OF d]
    by (auto simp: stoi_def number_text_def Let_def)
qed

lemma stoi_range: "stoi s = Some n \<Longrightarrow> int_range n"
  by (auto simp: stoi_def Let_def split: if_splits)

lemma stoi_show_int: "set ws \<subseteq> {c. is_space c} \<Longrightarrow> rest = [] \<or> \<not> is_digit (hd rest) \<Longrightarrow>
  stoi (ws @ show_int n @ rest) = (if int_range n then Some n else None)"
proof (cases "n < 0")
  case True
  moreover assume "set ws \<subseteq> {c. is_space c}" "rest = [] \<or> \<not> is_digit (hd rest)"
  ultimately show ?thesis
    using stoi_number [of ws "show_nat (nat (- n))" rest True] show_nat_digits
    by (simp add: show_int_def number_text_def digits_val_show_nat)
next
  case False
  moreover assume "set ws \<subseteq> {c. is_space c}" "rest = [] \<or> \<not> is_digit (hd rest)"
  ultimately show ?thesis
    using stoi_number [of ws "show_nat (nat n)" rest False] show_nat_digits
    by (simp add: show_int_def number_text_def digits_val_show_nat)
qed

section \<open>Properties\<close>

text \<open>
  \<open>trim\<close> removes exactly the blanks at the two ends: its result is the one text without
  blanks at its ends that the argument consists of between blanks, and trimming again changes
  nothing.
\<close>

theorem trim_exact:
  "trim s = t \<longleftrightarrow>
     trimmed t \<and> (\<exists>a b. s = a @ t @ b \<and> set a \<subseteq> set blanks \<and> set b \<subseteq> set blanks)"
  using trim_split [of s] trim_unique [of _ _ t] trimmed_trim [of s] by metis

text \<open>
  C38. Loading a file: a file that cannot be opened leaves the store alone and is reported; after
  any other file every key has the value of its last assignment in the file, and a key without
  one keeps the value it had. The loop over the lines ends for every content.
\<close>

theorem loadFromFile_last_assignment:
  "fst (loadFromFile fs path c) = (fs path \<noteq> None)
   \<and> getString k d (snd (loadFromFile fs path c)) =
       (case fs path of
          None \<Rightarrow> getString k d c
        | Some content \<Rightarrow>
            (case map_of (rev (file_assigns content)) k of Some v \<Rightarrow> v | None \<Rightarrow> getString k d c))"
  by (auto simp: loadFromFile_def getString_def load_loop_map map_add_def split: option.splits)

text \<open>A key and a value that a configuration line can carry, and the text of such lines.\<close>

definition plain_entry :: "string \<times> string \<Rightarrow> bool" where
  "plain_entry kv \<longleftrightarrow> fst kv \<noteq> [] \<and> trimmed (fst kv) \<and> trimmed (snd kv)
     \<and> hd (fst kv) \<noteq> CHR ''#'' \<and> CHR ''='' \<notin> set (fst kv)
     \<and> newline \<notin> set (fst kv) \<and> newline \<notin> set (snd kv)"

definition entry_text :: "string \<times> string \<Rightarrow> string" where
  "entry_text kv = fst kv @ '' = '' @ snd kv @ [newline]"

lemma split_lines_append:
  "newline \<notin> set l \<Longrightarrow> split_lines (l @ newline # rest) = l # split_lines rest"
  by (induction l) auto

lemma line_assigns_entry:
  assumes "plain_entry (k, v)"
  shows "line_assigns (k @ '' = '' @ v) = Some (k, v)"
proof -
  have eq: "\<not> blank (CHR ''='')" by (simp add: blanks_def)
  let ?line = "if v = [] then k @ '' ='' else k @ '' = '' @ v"
  have "trimmed ?line" using assms eq by (auto simp: plain_entry_def trimmed_def hd_append)
  then have "trim ([] @ ?line @ (if v = [] then '' '' else [])) = ?line"
    by (intro trim_unique) (auto simp: blanks_def)
  then have line: "trim (k @ '' = '' @ v) = ?line" by (cases "v = []") auto
  have key: "trim (k @ '' '') = k" and val: "trim (CHR '' '' # v) = v"
    using assms trim_unique [of "[]" "'' ''" k] trim_unique [of "'' ''" "[]" v]
    by (auto simp: plain_entry_def blanks_def)
  have "CHR ''='' \<notin> set k" using assms by (simp add: plain_entry_def)
  then have "takeWhile (\<lambda>c. c \<noteq> CHR ''='') ?line = k @ '' ''"
    and "dropWhile (\<lambda>c. c \<noteq> CHR ''='') ?line = (if v = [] then ''='' else ''= '' @ v)"
    by (induction k) auto
  then show ?thesis using assms key val line
    by (cases k) (auto simp: line_assigns_def Let_def plain_entry_def)
qed

lemma file_assigns_entries:
  "list_all plain_entry kvs \<Longrightarrow> file_assigns (concat (map entry_text kvs)) = kvs"
proof (induction kvs)
  case (Cons kv kvs)
  obtain k v where kv: "kv = (k, v)" by (cases kv)
  have "newline \<notin> set (k @ '' = '' @ v)" using Cons.prems
    by (auto simp: plain_entry_def kv newline_def)
  from split_lines_append [OF this, of "concat (map entry_text kvs)"]
  have "split_lines (concat (map entry_text (kv # kvs)))
    = (k @ '' = '' @ v) # split_lines (concat (map entry_text kvs))"
    by (simp add: entry_text_def kv)
  then show ?case using Cons line_assigns_entry [of k v]
    by (simp add: file_assigns_def List.map_filter_def kv)
qed (simp add: file_assigns_def List.map_filter_def)

text \<open>
  Round trip: entries written one to a line as \<open>key = value\<close>, with distinct keys, are read
  back unchanged by \<open>loadFromFile\<close> and \<open>getString\<close>.
\<close>

theorem config_roundtrip:
  assumes "list_all plain_entry kvs" and "distinct (map fst kvs)" and "(k, v) \<in> set kvs"
    and "fs path = Some (concat (map entry_text kvs))"
  shows "fst (loadFromFile fs path c) \<and> getString k d (snd (loadFromFile fs path c)) = v"
proof -
  have "map_of (rev kvs) k = Some v"
    using assms(2,3) by (simp add: map_of_eq_Some_iff flip: rev_map)
  with assms(1,4) show ?thesis
    by (simp add: loadFromFile_def getString_def load_loop_map file_assigns_entries)
qed

theorem config_roundtrip_witness:
  "getString ''server.port'' ''1'' (snd (loadFromFile
     (\<lambda>p. Some (concat (map entry_text [(''server.port'', ''8080''), (''log.file'', [])]))) ''x'' Config_empty))
   = ''8080''"
  using config_roundtrip [of "[(''server.port'', ''8080''), (''log.file'', [])]" "''server.port''" "''8080''"
      "\<lambda>p. Some (concat (map entry_text [(''server.port'', ''8080''), (''log.file'', [])]))" "''x''"]
  by (simp add: plain_entry_def trimmed_def blanks_def newline_def)

text \<open>
  \<open>getInt\<close> reads the decimal text of every 32-bit number, with white space before it and
  anything but a digit after it, gives the default for a number outside 32 bits, and with a
  32-bit default never returns anything outside 32 bits.
\<close>

theorem getInt_roundtrip:
  assumes "int_range d" and "set ws \<subseteq> {c. is_space c}" and "rest = [] \<or> \<not> is_digit (hd rest)"
  shows "getInt k d (config_set k (ws @ show_int n @ rest) c) = (if int_range n then n else d)
    \<and> int_range (getInt k d c)"
  using assms by (auto simp: getInt_def config_set_def stoi_show_int dest: stoi_range split: option.splits)

theorem getInt_roundtrip_witness:
  "getInt ''server.port'' 8080 (config_set ''server.port'' ''8081'' Config_empty) = 8081
   \<and> getInt ''server.port'' 8080 (config_set ''server.port'' ''99999999999'' Config_empty) = 8080"
proof -
  have "show_int 8081 = ''8081''" and "show_int 99999999999 = ''99999999999''"
    by (simp_all add: show_int_def show_nat.simps char_of_def bit_0)
  then show ?thesis
    using getInt_roundtrip [of 8080 "[]" "[]" "''server.port''" 8081 Config_empty]
      getInt_roundtrip [of 8080 "[]" "[]" "''server.port''" 99999999999 Config_empty]
    by (simp add: int_range_def)
qed

text \<open>
  \<open>parseConfigPath\<close> takes the argument that follows the first \<open>--config\<close> after the program
  name, and the default path when \<open>--config\<close> does not occur or is the last argument.
\<close>

theorem parseConfigPath_first:
  assumes "''--config'' \<notin> set pre"
  shows "parseConfigPath (prog # pre @ ''--config'' # path # rest) = path
    \<and> parseConfigPath (prog # pre) = ''./config/server.conf''
    \<and> parseConfigPath (prog # pre @ [''--config'']) = ''./config/server.conf''"
proof -
  have "config_path_loop (pre @ ''--config'' # path # rest) d = path
    \<and> config_path_loop pre d = d \<and> config_path_loop (pre @ [''--config'']) d = d" for d
    using assms by (induction pre d rule: config_path_loop.induct) auto
  then show ?thesis by (simp add: parseConfigPath_def)
qed

theorem parseConfigPath_first_witness:
  "parseConfigPath [''yolo'', ''-v'', ''--config'', ''a.conf'', ''--config'', ''b.conf''] = ''a.conf''"
  using parseConfigPath_first [of "[''-v'']" "''yolo''" "''a.conf''" "[''--config'', ''b.conf'']"] by simp

end
