(* ===== verification/Json.thy ===== *)
theory Json
  imports Prelude "HOL-Library.Char_ord" "HOL-Library.List_Lexorder"
begin

text \<open>
  JSON values as the sources use them. The library (\<open>nlohmann::json\<close>, vendored) is an argument
  where it turns values into text and back: the record \<open>json_lib\<close> with \<open>dump\<close> and \<open>parse\<close>, and the
  conversions between the library's \<open>double\<close> (a type \<open>'f\<close>) and other numbers. Its accessors are small
  and are written out here: \<open>at\<close>, the two versions of \<open>operator[]\<close>, \<open>contains\<close>, the range of a
  \<open>for\<close> loop, and the conversions to \<open>uint64_t\<close>, \<open>int\<close>, \<open>float\<close>, \<open>bool\<close> and \<open>std::string\<close>.
\<close>

section \<open>Outcomes\<close>

text \<open>
  What a piece of code can do besides returning: throw an exception of type \<open>std::exception\<close>, or
  run into undefined behaviour (an assertion of the library included).
\<close>

datatype 'a outcome = Ret 'a | Throws | Undef

primrec obind :: "'a outcome \<Rightarrow> ('a \<Rightarrow> 'b outcome) \<Rightarrow> 'b outcome" where
  "obind (Ret x) f = f x"
| "obind Throws f = Throws"
| "obind Undef f = Undef"

fun omap :: "('a \<Rightarrow> 'b outcome) \<Rightarrow> 'a list \<Rightarrow> 'b list outcome" where
  "omap f [] = Ret []"
| "omap f (x # xs) = obind (f x) (\<lambda>y. obind (omap f xs) (\<lambda>ys. Ret (y # ys)))"

text \<open>\<open>try { m } catch (const std::exception&) { h }\<close>.\<close>

primrec catching :: "'a outcome \<Rightarrow> 'a outcome \<Rightarrow> 'a outcome" where
  "catching (Ret x) h = Ret x"
| "catching Throws h = h"
| "catching Undef h = Undef"

definition opt_throw :: "'a option \<Rightarrow> 'a outcome" where
  "opt_throw m = (case m of None \<Rightarrow> Throws | Some x \<Rightarrow> Ret x)"

definition opt_undef :: "'a option \<Rightarrow> 'a outcome" where
  "opt_undef m = (case m of None \<Rightarrow> Undef | Some x \<Rightarrow> Ret x)"

lemma obind_Ret_iff: "obind m f = Ret y \<longleftrightarrow> (\<exists>x. m = Ret x \<and> f x = Ret y)"
  by (cases m) auto

lemma omap_Ret: "(\<And>x. x \<in> set xs \<Longrightarrow> f x = Ret (g x)) \<Longrightarrow> omap f xs = Ret (map g xs)"
  by (induction xs) auto

lemma omap_Ret_length: "omap f xs = Ret ys \<Longrightarrow> length ys = length xs"
  by (induction xs arbitrary: ys) (auto simp: obind_Ret_iff)

lemma omap_Ret_set: "omap f xs = Ret ys \<Longrightarrow> y \<in> set ys \<Longrightarrow> \<exists>x \<in> set xs. f x = Ret y"
  by (induction xs arbitrary: ys) (auto simp: obind_Ret_iff)

lemma opt_simps [simp]:
  "opt_throw (Some x) = Ret x" "opt_throw None = Throws" "opt_undef (Some x) = Ret x" "opt_undef None = Undef"
  by (simp_all add: opt_throw_def opt_undef_def)

section \<open>Values\<close>

definition int32 :: "int \<Rightarrow> bool" where
  "int32 n \<longleftrightarrow> - (2 ^ 31) \<le> n \<and> n < 2 ^ 31"

lemma int32_bit [simp]: "int32 0" "int32 1"
  by (simp_all add: int32_def)

datatype 'f json =
    JNull
  | JBool bool
  | JInt int
  | JUInt u64
  | JFloat 'f
  | JStr string
  | JArr "'f json list"
  | JObj "(string \<times> 'f json) list"

text \<open>
  The library as an argument. \<open>dump\<close> throws on strings that are not UTF-8, \<open>parse\<close> on texts that
  are not JSON. \<open>js_to_u64\<close> and \<open>js_to_int\<close> are the casts of a \<open>double\<close>, undefined when the number
  does not fit; \<open>js_narrow\<close> is the cast to \<open>float\<close> and back, \<open>js_of_int\<close> the \<open>float\<close> nearest to an
  integer.
\<close>

record 'f json_lib =
  js_dump :: "'f json \<Rightarrow> string option"
  js_parse :: "string \<Rightarrow> 'f json option"
  js_finite :: "'f \<Rightarrow> bool"
  js_to_u64 :: "'f \<Rightarrow> u64 option"
  js_to_int :: "'f \<Rightarrow> int option"
  js_of_int :: "int \<Rightarrow> 'f"
  js_narrow :: "'f \<Rightarrow> 'f"

text \<open>
  The value that \<open>parse\<close> makes of a dumped value: a number without sign is an unsigned one, and
  the members of an object are in the order of their keys (the library keeps them in a \<open>std::map\<close>).
\<close>

fun canon :: "'f json \<Rightarrow> 'f json" where
  "canon (JInt n) = (if n \<ge> 0 then JUInt (of_int n) else JInt n)"
| "canon (JArr xs) = JArr (map canon xs)"
| "canon (JObj kvs) = JObj (sort_key fst (map (\<lambda>(k, v). (k, canon v)) kvs))"
| "canon j = j"

fun json_finite :: "('f \<Rightarrow> bool) \<Rightarrow> 'f json \<Rightarrow> bool" where
  "json_finite p (JFloat x) = p x"
| "json_finite p (JArr xs) = list_all (json_finite p) xs"
| "json_finite p (JObj kvs) = list_all (\<lambda>(k, v). json_finite p v) kvs"
| "json_finite p j = True"

text \<open>
  What the documentation of the library promises: parsing a dumped value gives the value back,
  unless it holds an infinity or a NaN, which are dumped as \<open>null\<close>. Narrowing is idempotent, and
  a cast to \<open>int\<close> gives an \<open>int\<close>.
\<close>

definition json_lib_ok :: "'f json_lib \<Rightarrow> bool" where
  "json_lib_ok js \<longleftrightarrow>
     (\<forall>j s. json_finite (js_finite js) j \<and> js_dump js j = Some s \<longrightarrow> js_parse js s = Some (canon j))
   \<and> (\<forall>x. js_narrow js (js_narrow js x) = js_narrow js x) \<and> (\<forall>n. js_narrow js (js_of_int js n) = js_of_int js n)
   \<and> (\<forall>x n. js_to_int js x = Some n \<longrightarrow> int32 n)"

lemma json_roundtrip:
  "json_lib_ok js \<Longrightarrow> json_finite (js_finite js) j \<Longrightarrow> js_dump js j = Some s \<Longrightarrow> js_parse js s = Some (canon j)"
  by (simp add: json_lib_ok_def)

section \<open>Accessors\<close>

text \<open>\<open>j.at(k)\<close> throws when \<open>j\<close> is no object or has no member \<open>k\<close>.\<close>

fun json_at :: "string \<Rightarrow> 'f json \<Rightarrow> 'f json outcome" where
  "json_at k (JObj kvs) = opt_throw (map_of kvs k)"
| "json_at k j = Throws"

text \<open>
  \<open>j[k]\<close> on a value that is not constant: a missing member is created as \<open>null\<close>, and \<open>null\<close> itself
  becomes an object. The callers convert the result at once, which throws for \<open>null\<close>, so the
  change of \<open>j\<close> is never seen.
\<close>

fun json_index :: "string \<Rightarrow> 'f json \<Rightarrow> 'f json outcome" where
  "json_index k (JObj kvs) = Ret (case map_of kvs k of Some v \<Rightarrow> v | None \<Rightarrow> JNull)"
| "json_index k JNull = Ret JNull"
| "json_index k j = Throws"

text \<open>\<open>j[k]\<close> on a constant value: a missing member violates an assertion of the library.\<close>

fun json_cindex :: "string \<Rightarrow> 'f json \<Rightarrow> 'f json outcome" where
  "json_cindex k (JObj kvs) = opt_undef (map_of kvs k)"
| "json_cindex k j = Throws"

fun json_contains :: "string \<Rightarrow> 'f json \<Rightarrow> bool" where
  "json_contains k (JObj kvs) = (map_of kvs k \<noteq> None)"
| "json_contains k j = False"

text \<open>The elements a range-based loop visits; a value that is no container is its own element.\<close>

fun json_elems :: "'f json \<Rightarrow> 'f json list" where
  "json_elems (JArr xs) = xs"
| "json_elems (JObj kvs) = map snd kvs"
| "json_elems JNull = []"
| "json_elems j = [j]"

fun to_str :: "'f json \<Rightarrow> string outcome" where
  "to_str (JStr s) = Ret s"
| "to_str j = Throws"

fun to_bool :: "'f json \<Rightarrow> bool outcome" where
  "to_bool (JBool b) = Ret b"
| "to_bool j = Throws"

fun to_u64 :: "'f json_lib \<Rightarrow> 'f json \<Rightarrow> u64 outcome" where
  "to_u64 js (JUInt w) = Ret w"
| "to_u64 js (JInt n) = Ret (of_int n)"
| "to_u64 js (JFloat x) = opt_undef (js_to_u64 js x)"
| "to_u64 js j = Throws"

text \<open>\<open>get<int>()\<close> keeps the low 32 bits; \<open>get<int>\<close> and \<open>get<float>\<close> accept a boolean too.\<close>

definition wrap_int :: "int \<Rightarrow> int" where
  "wrap_int n = sint (of_int n :: 32 word)"

fun to_int :: "'f json_lib \<Rightarrow> 'f json \<Rightarrow> int outcome" where
  "to_int js (JUInt w) = Ret (wrap_int (uint w))"
| "to_int js (JInt n) = Ret (wrap_int n)"
| "to_int js (JFloat x) = opt_undef (js_to_int js x)"
| "to_int js (JBool b) = Ret (if b then 1 else 0)"
| "to_int js j = Throws"

fun to_float :: "'f json_lib \<Rightarrow> 'f json \<Rightarrow> 'f outcome" where
  "to_float js (JUInt w) = Ret (js_of_int js (uint w))"
| "to_float js (JInt n) = Ret (js_of_int js n)"
| "to_float js (JFloat x) = Ret (js_narrow js x)"
| "to_float js (JBool b) = Ret (js_of_int js (if b then 1 else 0))"
| "to_float js j = Throws"

section \<open>Reading canonical values\<close>

lemma map_of_insort_key: "map_of (insort_key fst kv xs) k = map_of (kv # xs) k"
  by (induction xs) auto

lemma map_of_sort_key: "map_of (sort_key fst xs) k = map_of xs k"
  by (induction xs) (simp_all add: map_of_insort_key)

lemma map_of_canon: "map_of (sort_key fst (map (\<lambda>(k, v). (k, canon v)) kvs)) k = map_option canon (map_of kvs k)"
  by (simp add: map_of_sort_key map_of_map)

lemma canon_access [simp]:
  "map_of kvs k = Some v \<Longrightarrow> json_at k (canon (JObj kvs)) = Ret (canon v)"
  "map_of kvs k = Some v \<Longrightarrow> json_index k (canon (JObj kvs)) = Ret (canon v)"
  "map_of kvs k = Some v \<Longrightarrow> json_cindex k (canon (JObj kvs)) = Ret (canon v)"
  "map_of kvs k = Some v \<Longrightarrow> json_contains k (canon (JObj kvs))"
  by (simp_all add: map_of_canon)

lemma to_u64_canon [simp]: "to_u64 js (canon (JUInt w)) = Ret w"
  by simp

lemma int32_wrap_int [simp]: "int32 (wrap_int n)"
  using sint_range_size [of "of_int n :: 32 word"] by (simp add: int32_def wrap_int_def word_size)

lemma wrap_int_id: "int32 n \<Longrightarrow> wrap_int n = n"
  unfolding wrap_int_def int32_def by (subst int_word_sint) simp

lemma to_int_canon: "int32 n \<Longrightarrow> to_int js (canon (JInt n)) = Ret n"
proof (cases "n \<ge> 0")
  case True
  moreover assume n: "int32 n"
  ultimately have "uint (of_int n :: u64) = n" by (simp add: int32_def uint_word_of_int take_bit_int_eq_self)
  with True n show ?thesis by (simp add: wrap_int_id)
qed (simp add: wrap_int_id)

text \<open>Keep a canonical value folded while its members are read.\<close>

declare canon.simps(1,3) [simp del]

section \<open>An instance\<close>

text \<open>A library that knows finitely many values and their texts, with integers as numbers.\<close>

definition table_js :: "(int json \<times> string) list \<Rightarrow> int json_lib" where
  "table_js t = \<lparr>js_dump = map_of t, js_parse = map_of (map (\<lambda>(j, s). (s, canon j)) t), js_finite = (\<lambda>_. True),
     js_to_u64 = (\<lambda>x. if 0 \<le> x \<and> x < 2 ^ 64 then Some (of_int x) else None),
     js_to_int = (\<lambda>x. if int32 x then Some x else None), js_of_int = (\<lambda>n. n), js_narrow = (\<lambda>x. x)\<rparr>"

lemma map_of_inverse:
  "distinct (map snd t) \<Longrightarrow> map_of t j = Some s \<Longrightarrow> map_of (map (\<lambda>(j, s). (s, canon j)) t) s = Some (canon j)"
proof (induction t)
  case (Cons x t)
  then show ?case by (cases x) (auto simp: rev_image_eqI split: if_splits dest!: map_of_SomeD)
qed simp

lemma table_js_ok: "distinct (map snd t) \<Longrightarrow> json_lib_ok (table_js t)"
  by (auto simp: json_lib_ok_def table_js_def map_of_inverse split: if_splits)

end
