(* ===== verification/Raft_Types.thy ===== *)
theory Raft_Types
  imports Prelude
begin

text \<open>
  The data of the Raft component, \<open>raft/RaftTypes.h\<close>: roles, log entries and the arguments
  and replies of the two RPCs. Terms and indices are 64-bit words.
\<close>

datatype RaftState = Follower | Candidate | Leader

record LogEntry =
  log_term :: u64
  log_index :: u64
  log_key :: string
  log_value :: string

record RequestVoteArgs =
  rv_term :: u64
  rv_candidateId :: string
  rv_lastLogIndex :: u64
  rv_lastLogTerm :: u64

record RequestVoteReply =
  rvr_term :: u64
  rvr_voteGranted :: bool

record AppendEntriesArgs =
  ae_term :: u64
  ae_leaderId :: string
  ae_prevLogIndex :: u64
  ae_prevLogTerm :: u64
  ae_entries :: "LogEntry list"
  ae_leaderCommit :: u64

record AppendEntriesReply =
  aer_term :: u64
  aer_success :: bool

text \<open>
  The calls through which the node reaches the outside are arguments of its operations:
  \<open>rv_send\<close> is \<open>sendRequestVote\<close> and \<open>ae_send\<close> is \<open>sendAppendEntries\<close> (the code's own are in
  the theory \<open>Raft_Rpc\<close>), acting on the
  world \<open>'w\<close> of connections (\<open>None\<close>: the call returned false), and \<open>kv_put\<close> is
  \<open>RocksDBStorage::put\<close> acting on the database \<open>'d\<close>.
\<close>

type_synonym 'w rv_send = "string \<Rightarrow> RequestVoteArgs \<Rightarrow> 'w \<Rightarrow> RequestVoteReply option \<times> 'w"
type_synonym 'w ae_send = "string \<Rightarrow> AppendEntriesArgs \<Rightarrow> 'w \<Rightarrow> AppendEntriesReply option \<times> 'w"
type_synonym 'd kv_put = "string \<Rightarrow> string \<Rightarrow> 'd \<Rightarrow> bool \<times> 'd"

end
