(* ===== verification/Raft_Wire.thy ===== *)
theory Raft_Wire
  imports Json Raft_Types
begin

text \<open>
  The messages of the two Raft calls. \<open>RaftNode::sendRequestVote\<close> and
  \<open>RaftNode::sendAppendEntries\<close> write the requests and read the replies;
  \<open>Connection::handleRaftRequestVote\<close> and \<open>Connection::handleRaftAppendEntries\<close> read the requests
  and write the replies. A message is a word, a blank and the text of a JSON object.
\<close>

section \<open>The text of a message\<close>

text \<open>\<open>msg.substr(msg.find(' ') + 1)\<close>; \<open>None\<close> when there is no blank.\<close>

definition payload_of :: "string \<Rightarrow> string option" where
  "payload_of msg = (case dropWhile (\<lambda>c. c \<noteq> CHR '' '') msg of [] \<Rightarrow> None | _ # payload \<Rightarrow> Some payload)"

definition message :: "'f json_lib \<Rightarrow> string \<Rightarrow> 'f json \<Rightarrow> string outcome" where
  "message js word j = obind (opt_throw (js_dump js j)) (\<lambda>s. Ret (word @ '' '' @ s))"

section \<open>RequestVote\<close>

definition rv_json :: "RequestVoteArgs \<Rightarrow> 'f json" where
  "rv_json args = JObj
     [(''term'', JUInt (rv_term args)), (''candidateId'', JStr (rv_candidateId args)),
      (''lastLogIndex'', JUInt (rv_lastLogIndex args)), (''lastLogTerm'', JUInt (rv_lastLogTerm args))]"

definition rv_of_json :: "'f json_lib \<Rightarrow> 'f json \<Rightarrow> RequestVoteArgs outcome" where
  "rv_of_json js j =
     obind (obind (json_index ''term'' j) (to_u64 js)) (\<lambda>t.
     obind (obind (json_index ''candidateId'' j) to_str) (\<lambda>c.
     obind (obind (json_index ''lastLogIndex'' j) (to_u64 js)) (\<lambda>i.
     obind (obind (json_index ''lastLogTerm'' j) (to_u64 js)) (\<lambda>lt.
     Ret \<lparr>rv_term = t, rv_candidateId = c, rv_lastLogIndex = i, rv_lastLogTerm = lt\<rparr>))))"

definition rvr_json :: "RequestVoteReply \<Rightarrow> 'f json" where
  "rvr_json reply = JObj [(''term'', JUInt (rvr_term reply)), (''voteGranted'', JBool (rvr_voteGranted reply))]"

definition rvr_of_json :: "'f json_lib \<Rightarrow> 'f json \<Rightarrow> RequestVoteReply outcome" where
  "rvr_of_json js j =
     obind (obind (json_index ''term'' j) (to_u64 js)) (\<lambda>t.
     obind (obind (json_index ''voteGranted'' j) to_bool) (\<lambda>g.
     Ret \<lparr>rvr_term = t, rvr_voteGranted = g\<rparr>))"

section \<open>AppendEntries\<close>

definition entry_json :: "LogEntry \<Rightarrow> 'f json" where
  "entry_json e = JObj
     [(''term'', JUInt (log_term e)), (''index'', JUInt (log_index e)),
      (''key'', JStr (log_key e)), (''value'', JStr (log_value e))]"

definition ae_json :: "AppendEntriesArgs \<Rightarrow> 'f json" where
  "ae_json args = JObj
     [(''term'', JUInt (ae_term args)), (''leaderId'', JStr (ae_leaderId args)),
      (''prevLogIndex'', JUInt (ae_prevLogIndex args)), (''prevLogTerm'', JUInt (ae_prevLogTerm args)),
      (''leaderCommit'', JUInt (ae_leaderCommit args)), (''entries'', JArr (map entry_json (ae_entries args)))]"

text \<open>The entries are read through constant references, the other members are not.\<close>

definition entry_of_json :: "'f json_lib \<Rightarrow> 'f json \<Rightarrow> LogEntry outcome" where
  "entry_of_json js j =
     obind (obind (json_cindex ''term'' j) (to_u64 js)) (\<lambda>t.
     obind (obind (json_cindex ''index'' j) (to_u64 js)) (\<lambda>i.
     obind (obind (json_cindex ''key'' j) to_str) (\<lambda>k.
     obind (obind (json_cindex ''value'' j) to_str) (\<lambda>v.
     Ret \<lparr>log_term = t, log_index = i, log_key = k, log_value = v\<rparr>))))"

definition ae_of_json :: "'f json_lib \<Rightarrow> 'f json \<Rightarrow> AppendEntriesArgs outcome" where
  "ae_of_json js j =
     obind (obind (json_index ''term'' j) (to_u64 js)) (\<lambda>t.
     obind (obind (json_index ''leaderId'' j) to_str) (\<lambda>l.
     obind (obind (json_index ''prevLogIndex'' j) (to_u64 js)) (\<lambda>pi.
     obind (obind (json_index ''prevLogTerm'' j) (to_u64 js)) (\<lambda>pt.
     obind (obind (json_index ''leaderCommit'' j) (to_u64 js)) (\<lambda>lc.
     obind (if json_contains ''entries'' j
            then obind (json_index ''entries'' j) (\<lambda>es. omap (entry_of_json js) (json_elems es))
            else Ret []) (\<lambda>es.
     Ret \<lparr>ae_term = t, ae_leaderId = l, ae_prevLogIndex = pi, ae_prevLogTerm = pt, ae_entries = es,
          ae_leaderCommit = lc\<rparr>))))))"

definition aer_json :: "AppendEntriesReply \<Rightarrow> 'f json" where
  "aer_json reply = JObj [(''term'', JUInt (aer_term reply)), (''success'', JBool (aer_success reply))]"

definition aer_of_json :: "'f json_lib \<Rightarrow> 'f json \<Rightarrow> AppendEntriesReply outcome" where
  "aer_of_json js j =
     obind (obind (json_index ''term'' j) (to_u64 js)) (\<lambda>t.
     obind (obind (json_index ''success'' j) to_bool) (\<lambda>ok.
     Ret \<lparr>aer_term = t, aer_success = ok\<rparr>))"

section \<open>Lemmas\<close>

lemma payload_of_word: "CHR '' '' \<notin> set word \<Longrightarrow> payload_of (word @ CHR '' '' # s) = Some s"
  by (induction word) (auto simp: payload_of_def)

lemma payload_of_None: "payload_of msg = None \<longleftrightarrow> CHR '' '' \<notin> set msg"
proof -
  have "payload_of msg = None \<longleftrightarrow> dropWhile (\<lambda>c. c \<noteq> CHR '' '') msg = []"
    by (simp add: payload_of_def split: list.split del: dropWhile_eq_Nil_conv)
  then show ?thesis by auto
qed

lemma message_cases:
  "message js word j = (case js_dump js j of None \<Rightarrow> Throws | Some s \<Rightarrow> Ret (word @ '' '' @ s))"
  by (simp add: message_def opt_throw_def split: option.splits)

lemma message_RetD:
  assumes "message js word j = Ret msg" and "CHR '' '' \<notin> set word"
  shows "\<exists>s. js_dump js j = Some s \<and> msg = word @ '' '' @ s \<and> payload_of msg = Some s"
  using assms payload_of_word [OF assms(2)] by (auto simp: message_cases split: option.splits)

lemma rv_of_json_canon: "rv_of_json js (canon (rv_json a)) = Ret a"
  unfolding rv_of_json_def rv_json_def by simp

lemma rvr_of_json_canon: "rvr_of_json js (canon (rvr_json r)) = Ret r"
  unfolding rvr_of_json_def rvr_json_def by simp

lemma aer_of_json_canon: "aer_of_json js (canon (aer_json r)) = Ret r"
  unfolding aer_of_json_def aer_json_def by simp

lemma entry_of_json_canon [simp]: "entry_of_json js (canon (entry_json e)) = Ret e"
  unfolding entry_of_json_def entry_json_def by simp

lemma ae_of_json_canon: "ae_of_json js (canon (ae_json a)) = Ret a"
proof -
  have "omap (entry_of_json js) (map (canon \<circ> entry_json) es) = Ret es" for es
    by (induction es) simp_all
  then show ?thesis unfolding ae_of_json_def ae_json_def by simp
qed

section \<open>The contract of a message\<close>

text \<open>
  What the two ends of a message rely on: a value is written without numbers that JSON cannot
  express, and reading what the library makes of it gives the value back.
\<close>

locale wire_codec =
  fixes to_json :: "'a \<Rightarrow> 'f json"
    and of_json :: "'f json_lib \<Rightarrow> 'f json \<Rightarrow> 'a outcome"
  assumes reads_back: "of_json js (canon (to_json x)) = Ret x"
    and finite_numbers: "json_finite p (to_json x)"
begin

text \<open>The receiver of a message reads what the sender wrote.\<close>

lemma received:
  assumes "json_lib_ok js" and "message js word (to_json x) = Ret msg" and "CHR '' '' \<notin> set word"
  shows "\<exists>s. msg = word @ '' '' @ s \<and> payload_of msg = Some s \<and> obind (opt_throw (js_parse js s)) (of_json js) = Ret x"
proof -
  from message_RetD [OF assms(2,3)] obtain s
    where s: "js_dump js (to_json x) = Some s" "msg = word @ '' '' @ s" "payload_of msg = Some s" by blast
  from json_roundtrip [OF assms(1) finite_numbers s(1)] have "js_parse js s = Some (canon (to_json x))" .
  with s(2,3) show ?thesis by (simp add: reads_back)
qed

text \<open>Two values with the same message are the same.\<close>

lemma message_injective:
  assumes "json_lib_ok js" and "message js word (to_json x) = Ret msg" and "message js word (to_json y) = Ret msg"
    and "CHR '' '' \<notin> set word"
  shows "x = y"
  using received [OF assms(1,2,4)] received [OF assms(1,3,4)] by auto

end

interpretation rv: wire_codec rv_json rv_of_json
  by (unfold_locales, rule rv_of_json_canon, simp add: rv_json_def)

interpretation rvr: wire_codec rvr_json rvr_of_json
  by (unfold_locales, rule rvr_of_json_canon, simp add: rvr_json_def)

interpretation ae: wire_codec ae_json ae_of_json
  by (unfold_locales, rule ae_of_json_canon, simp add: ae_json_def entry_json_def list_all_iff)

interpretation aer: wire_codec aer_json aer_of_json
  by (unfold_locales, rule aer_of_json_canon, simp add: aer_json_def)

text \<open>The entries of a request determine whether reading it is defined.\<close>

lemma entry_of_json_missing:
  assumes "map_of kvs k = None" and "k = ''term''"
  shows "entry_of_json js (JObj kvs) = Undef"
  using assms by (simp add: entry_of_json_def)

end
