(* ===== verification/YoloCodec.thy ===== *)
theory YoloCodec
  imports Json
begin

text \<open>
  Frames and boxes (\<open>storage/YoloTypes.h\<close>) and their JSON text (\<open>common/codec/YoloCodec.cpp\<close>). A
  \<open>float\<close> is a value of the library's number type that narrowing leaves alone.
\<close>

section \<open>Types\<close>

record 'f YoloBox =
  class_id :: int
  box_x :: 'f
  box_y :: 'f
  box_w :: 'f
  box_h :: 'f
  confidence :: 'f

record 'f YoloFrame =
  image_id :: string
  image_hash :: string
  boxes :: "'f YoloBox list"
  width :: int
  height :: int

section \<open>Encoding\<close>

definition box_json :: "'f YoloBox \<Rightarrow> 'f json" where
  "box_json b = JObj
     [(''class_id'', JInt (class_id b)), (''x'', JFloat (box_x b)), (''y'', JFloat (box_y b)),
      (''w'', JFloat (box_w b)), (''h'', JFloat (box_h b)), (''confidence'', JFloat (confidence b))]"

definition frame_json :: "'f YoloFrame \<Rightarrow> 'f json" where
  "frame_json f = JObj
     [(''image_id'', JStr (image_id f)), (''width'', JInt (width f)), (''height'', JInt (height f)),
      (''image_hash'', JStr (image_hash f)), (''boxes'', JArr (map box_json (boxes f)))]"

definition encode :: "'f json_lib \<Rightarrow> 'f YoloFrame \<Rightarrow> string outcome" where
  "encode js f = opt_throw (js_dump js (frame_json f))"

section \<open>Decoding\<close>

definition box_of_json :: "'f json_lib \<Rightarrow> 'f json \<Rightarrow> 'f YoloBox outcome" where
  "box_of_json js jb =
     obind (obind (json_at ''class_id'' jb) (to_int js)) (\<lambda>c.
     obind (obind (json_at ''x'' jb) (to_float js)) (\<lambda>x.
     obind (obind (json_at ''y'' jb) (to_float js)) (\<lambda>y.
     obind (obind (json_at ''w'' jb) (to_float js)) (\<lambda>w.
     obind (obind (json_at ''h'' jb) (to_float js)) (\<lambda>h.
     obind (obind (json_at ''confidence'' jb) (to_float js)) (\<lambda>cf.
     Ret \<lparr>class_id = c, box_x = x, box_y = y, box_w = w, box_h = h, confidence = cf\<rparr>))))))"

definition frame_of_json :: "'f json_lib \<Rightarrow> 'f json \<Rightarrow> 'f YoloFrame outcome" where
  "frame_of_json js j =
     obind (obind (json_at ''image_id'' j) to_str) (\<lambda>i.
     obind (obind (json_at ''width'' j) (to_int js)) (\<lambda>w.
     obind (obind (json_at ''height'' j) (to_int js)) (\<lambda>h.
     obind (obind (json_at ''image_hash'' j) to_str) (\<lambda>hash.
     obind (json_at ''boxes'' j) (\<lambda>bs.
     obind (omap (box_of_json js) (json_elems bs)) (\<lambda>boxes.
     Ret \<lparr>image_id = i, image_hash = hash, boxes = boxes, width = w, height = h\<rparr>))))))"

definition decode :: "'f json_lib \<Rightarrow> string \<Rightarrow> 'f YoloFrame outcome" where
  "decode js v = obind (opt_throw (js_parse js v)) (frame_of_json js)"

section \<open>Well-typed frames\<close>

text \<open>The values a C++ object of these types can hold.\<close>

definition float32 :: "'f json_lib \<Rightarrow> 'f \<Rightarrow> bool" where
  "float32 js x \<longleftrightarrow> js_narrow js x = x"

definition box_ok :: "'f json_lib \<Rightarrow> 'f YoloBox \<Rightarrow> bool" where
  "box_ok js b \<longleftrightarrow> int32 (class_id b) \<and> list_all (float32 js) [box_x b, box_y b, box_w b, box_h b, confidence b]"

definition frame_ok :: "'f json_lib \<Rightarrow> 'f YoloFrame \<Rightarrow> bool" where
  "frame_ok js f \<longleftrightarrow> int32 (width f) \<and> int32 (height f) \<and> list_all (box_ok js) (boxes f)"

definition box_finite :: "'f json_lib \<Rightarrow> 'f YoloBox \<Rightarrow> bool" where
  "box_finite js b \<longleftrightarrow> list_all (js_finite js) [box_x b, box_y b, box_w b, box_h b, confidence b]"

lemma box_of_json_canon: "box_ok js b \<Longrightarrow> box_of_json js (canon (box_json b)) = Ret b"
  unfolding box_json_def box_of_json_def by (simp add: box_ok_def float32_def to_int_canon)

lemma frame_of_json_canon:
  assumes "frame_ok js f"
  shows "frame_of_json js (canon (frame_json f)) = Ret f"
proof -
  have "omap (box_of_json js) (map (canon \<circ> box_json) bs) = Ret bs" if "list_all (box_ok js) bs" for bs
    using that by (induction bs) (simp_all add: box_of_json_canon)
  then show ?thesis using assms
    unfolding frame_json_def frame_of_json_def by (simp add: frame_ok_def to_int_canon)
qed

lemma frame_json_finite: "list_all (box_finite js) (boxes f) \<Longrightarrow> json_finite (js_finite js) (frame_json f)"
  by (simp add: frame_json_def box_json_def list_all_iff box_finite_def)

lemma to_float_float32: "json_lib_ok js \<Longrightarrow> to_float js j = Ret x \<Longrightarrow> float32 js x"
  by (cases "(js, j)" rule: to_float.cases) (auto simp: json_lib_ok_def float32_def)

lemma decode_encode:
  assumes "json_lib_ok js" and "frame_ok js f" and "list_all (box_finite js) (boxes f)"
    and "encode js f = Ret v"
  shows "decode js v = Ret f"
proof -
  from assms(4) have "js_dump js (frame_json f) = Some v"
    by (auto simp: encode_def opt_throw_def split: option.splits)
  from json_roundtrip [OF assms(1) frame_json_finite [OF assms(3)] this] assms(2)
  show ?thesis by (simp add: decode_def frame_of_json_canon)
qed

text \<open>What is decoded is well-typed.\<close>

lemma decode_frame_ok:
  assumes "json_lib_ok js" and "decode js v = Ret f"
  shows "frame_ok js f"
proof -
  have int: "int32 n" if "to_int js j = Ret n" for j n
    using that assms(1)
    by (cases "(js, j)" rule: to_int.cases)
      (auto simp: json_lib_ok_def opt_undef_def split: option.splits)
  note float = to_float_float32 [OF assms(1)]
  have box: "box_ok js b" if "box_of_json js j = Ret b" for j b
    using that by (auto simp: box_of_json_def obind_Ret_iff box_ok_def dest: int float)
  from assms(2) obtain j where "frame_of_json js j = Ret f" by (auto simp: decode_def obind_Ret_iff)
  then show ?thesis
    by (auto simp: frame_of_json_def obind_Ret_iff frame_ok_def list_all_iff dest: int box omap_Ret_set)
qed

section \<open>Properties\<close>

text \<open>
  C27. Round trip of the codec: whenever \<open>encode\<close> returns for a frame of finite numbers, decoding
  its text gives the same frame, negative sizes and an empty list of boxes included.
\<close>

theorem codec_roundtrip:
  assumes "json_lib_ok js" and "frame_ok js f" and "list_all (box_finite js) (boxes f)"
    and "encode js f = Ret v"
  shows "decode js v = Ret f"
  using assms by (rule decode_encode)

definition sample_frame :: "int YoloFrame" where
  "sample_frame = \<lparr>image_id = ''img'', image_hash = ''h'',
     boxes = [\<lparr>class_id = 3, box_x = 1, box_y = 2, box_w = 3, box_h = 4, confidence = 1\<rparr>], width = 640, height = -1\<rparr>"

definition sample_js :: "int json_lib" where
  "sample_js = table_js [(frame_json sample_frame, ''{...}'')]"

lemma sample_js_ok: "json_lib_ok sample_js"
  unfolding sample_js_def by (rule table_js_ok) simp

lemma sample_frame_ok: "frame_ok sample_js sample_frame" "list_all (box_finite sample_js) (boxes sample_frame)"
  by (simp_all add: frame_ok_def box_ok_def box_finite_def float32_def int32_def sample_js_def table_js_def sample_frame_def)

lemma sample_encode: "encode sample_js sample_frame = Ret ''{...}''"
  by (simp add: encode_def sample_js_def table_js_def)

theorem codec_roundtrip_witness: "decode sample_js ''{...}'' = Ret sample_frame"
  by (rule codec_roundtrip [OF sample_js_ok sample_frame_ok sample_encode])

end
