(* ===== verification/Raft_Node.thy ===== *)
theory Raft_Node
  imports Raft_Types
begin

text \<open>
  One Raft node, \<open>raft/RaftNode.h\<close> and \<open>raft/RaftNode.cpp\<close>: its state and its operations,
  each of which runs under the node's mutex and is therefore one atomic step. Reading a log
  position that does not exist is undefined behaviour, so the operations that index the log
  return an \<open>option\<close>.
\<close>

section \<open>State\<close>

record RaftNode =
  m_nodeId :: string
  m_peers :: "string list"
  m_peerAddresses :: "(string, string \<times> int) umap"
  m_currentTerm :: u64
  m_votedFor :: string
  m_logs :: "LogEntry list"
  m_commitIndex :: u64
  m_lastApplied :: u64
  m_nextIndex :: "(string, u64) umap"
  m_matchIndex :: "(string, u64) umap"
  m_state :: RaftState
  m_lastHeartbeatTime :: int
  m_electionTimeoutMs :: int

text \<open>
  \<open>resetElectionTimer\<close> draws a timeout from \<open>uniform_int_distribution(150, 300)\<close> and reads the
  steady clock (in nanoseconds); both are arguments.
\<close>

record timer =
  t_rand :: int
  t_now :: int

definition resetElectionTimer :: "timer \<Rightarrow> RaftNode \<Rightarrow> RaftNode" where
  "resetElectionTimer t s = s\<lparr>m_electionTimeoutMs := t_rand t, m_lastHeartbeatTime := t_now t\<rparr>"

definition dummy_entry :: LogEntry where
  "dummy_entry = \<lparr>log_term = 0, log_index = 0, log_key = [], log_value = []\<rparr>"

definition RaftNode_init :: "timer \<Rightarrow> string \<Rightarrow> string list \<Rightarrow> RaftNode" where
  "RaftNode_init t nodeId peers = resetElectionTimer t
     \<lparr>m_nodeId = nodeId, m_peers = peers, m_peerAddresses = [], m_currentTerm = 0, m_votedFor = [],
      m_logs = [dummy_entry], m_commitIndex = 0, m_lastApplied = 0, m_nextIndex = [],
      m_matchIndex = [], m_state = Follower, m_lastHeartbeatTime = 0, m_electionTimeoutMs = 0\<rparr>"

definition setPeerAddress :: "string \<Rightarrow> string \<Rightarrow> int \<Rightarrow> RaftNode \<Rightarrow> RaftNode" where
  "setPeerAddress peerId host port s =
     s\<lparr>m_peerAddresses := AList.update peerId (host, port) (m_peerAddresses s)\<rparr>"

section \<open>Applying committed entries\<close>

text \<open>The loop \<open>while (m_lastApplied < m_commitIndex)\<close>; the result of \<open>put\<close> is only logged.\<close>

function apply_loop ::
  "'d kv_put \<Rightarrow> LogEntry list \<Rightarrow> u64 \<Rightarrow> u64 \<Rightarrow> 'd \<Rightarrow> (u64 \<times> 'd) option" where
  "apply_loop put logs commitIndex lastApplied d =
     (if lastApplied < commitIndex then
        case vec_at logs (lastApplied + 1) of
          None \<Rightarrow> None
        | Some entry \<Rightarrow>
            apply_loop put logs commitIndex (lastApplied + 1)
              (snd (put (log_key entry) (log_value entry) d))
      else Some (lastApplied, d))"
  by pat_completeness auto
termination
proof (relation "measure (\<lambda>(put, logs, c, a, d). unat c - unat a)", goal_cases)
  case (2 put logs c a d e)
  then have "unat (a + 1) = unat a + 1" and "unat a < unat c"
    by (simp_all add: unat_plus_one flip: word_less_nat_alt)
  then show ?case by simp
qed simp

declare apply_loop.simps [simp del]

definition applyCommittedLogs :: "'d kv_put \<Rightarrow> RaftNode \<Rightarrow> 'd \<Rightarrow> (RaftNode \<times> 'd) option" where
  "applyCommittedLogs put s d =
     (case apply_loop put (m_logs s) (m_commitIndex s) (m_lastApplied s) d of
        None \<Rightarrow> None
      | Some (lastApplied, d') \<Rightarrow> Some (s\<lparr>m_lastApplied := lastApplied\<rparr>, d'))"

section \<open>RPC handlers and client requests\<close>

definition handleRequestVote ::
  "timer \<Rightarrow> RequestVoteArgs \<Rightarrow> RaftNode \<Rightarrow> (RequestVoteReply \<times> RaftNode) option" where
  "handleRequestVote t args s =
     (if rv_term args < m_currentTerm s then
        Some (\<lparr>rvr_term = m_currentTerm s, rvr_voteGranted = False\<rparr>, s)
      else
        let s1 = (if rv_term args > m_currentTerm s
                  then s\<lparr>m_currentTerm := rv_term args, m_state := Follower, m_votedFor := []\<rparr>
                  else s) in
        case vec_back (m_logs s1) of
          None \<Rightarrow> None
        | Some lastEntry \<Rightarrow>
            let myLastLogTerm = log_term lastEntry;
                myLastLogIndex = log_index lastEntry;
                logIsUpToDate = (rv_lastLogTerm args > myLastLogTerm \<or>
                  rv_lastLogTerm args = myLastLogTerm \<and> rv_lastLogIndex args \<ge> myLastLogIndex) in
            if (m_votedFor s1 = [] \<or> m_votedFor s1 = rv_candidateId args) \<and> logIsUpToDate then
              Some (\<lparr>rvr_term = m_currentTerm s1, rvr_voteGranted = True\<rparr>,
                    resetElectionTimer t (s1\<lparr>m_votedFor := rv_candidateId args\<rparr>))
            else Some (\<lparr>rvr_term = m_currentTerm s1, rvr_voteGranted = False\<rparr>, s1))"

text \<open>
  Step 3 of \<open>handleAppendEntries\<close>: the loop that walks over the entries the node already has
  and cuts the log at the first one whose term differs. The result is the log and the position
  of the first entry still to be appended.
\<close>

function ae_conflict ::
  "LogEntry list \<Rightarrow> nat \<Rightarrow> LogEntry list \<Rightarrow> nat \<Rightarrow> LogEntry list \<times> nat" where
  "ae_conflict logs nextIndex entries entryIndex =
     (if nextIndex < length logs \<and> entryIndex < length entries then
        if log_term (logs ! nextIndex) \<noteq> log_term (entries ! entryIndex)
        then (take nextIndex logs, entryIndex)
        else ae_conflict logs (nextIndex + 1) entries (entryIndex + 1)
      else (logs, entryIndex))"
  by pat_completeness auto
termination
  by (relation "measure (\<lambda>(logs, n, es, e). length logs - n)") auto

declare ae_conflict.simps [simp del]

definition handleAppendEntries ::
  "'d kv_put \<Rightarrow> timer \<Rightarrow> AppendEntriesArgs \<Rightarrow> RaftNode \<Rightarrow> 'd
   \<Rightarrow> (AppendEntriesReply \<times> RaftNode \<times> 'd) option" where
  "handleAppendEntries put t args s d =
     (if ae_term args < m_currentTerm s then
        Some (\<lparr>aer_term = m_currentTerm s, aer_success = False\<rparr>, s, d)
      else
        let reply = \<lparr>aer_term = m_currentTerm s, aer_success = False\<rparr>;
            s1 = resetElectionTimer t (s\<lparr>m_state := Follower, m_currentTerm := ae_term args\<rparr>) in
        if unat (ae_prevLogIndex args) \<ge> length (m_logs s1) then Some (reply, s1, d)
        else if log_term (m_logs s1 ! unat (ae_prevLogIndex args)) \<noteq> ae_prevLogTerm args
        then Some (reply, s1, d)
        else
          let (logs, entryIndex) =
                ae_conflict (m_logs s1) (unat (ae_prevLogIndex args) + 1) (ae_entries args) 0;
              s2 = s1\<lparr>m_logs := logs @ drop entryIndex (ae_entries args)\<rparr>;
              success = \<lparr>aer_term = m_currentTerm s2, aer_success = True\<rparr> in
          if ae_leaderCommit args > m_commitIndex s2 then
            case vec_back (m_logs s2) of
              None \<Rightarrow> None
            | Some lastEntry \<Rightarrow>
                let s3 = s2\<lparr>m_commitIndex := min (ae_leaderCommit args) (log_index lastEntry)\<rparr> in
                (case applyCommittedLogs put s3 d of
                   None \<Rightarrow> None
                 | Some (s4, d') \<Rightarrow> Some (success, s4, d'))
          else Some (success, s2, d))"

definition submitLog :: "string \<Rightarrow> string \<Rightarrow> RaftNode \<Rightarrow> (bool \<times> RaftNode) option" where
  "submitLog key value s =
     (if m_state s \<noteq> Leader then Some (False, s)
      else
        case vec_back (m_logs s) of
          None \<Rightarrow> None
        | Some lastEntry \<Rightarrow>
            let entry = \<lparr>log_term = m_currentTerm s, log_index = log_index lastEntry + 1,
                         log_key = key, log_value = value\<rparr> in
            Some (True, s\<lparr>m_logs := m_logs s @ [entry]\<rparr>))"

section \<open>Elections\<close>

text \<open>
  The loop over the peers that collects votes: whether a reply with a higher term ended it, the
  votes, and the node.
\<close>

fun election_loop ::
  "'w rv_send \<Rightarrow> RequestVoteArgs \<Rightarrow> string list \<Rightarrow> int \<Rightarrow> RaftNode \<Rightarrow> 'w
   \<Rightarrow> (bool \<times> int \<times> RaftNode) \<times> 'w" where
  "election_loop send args [] votes s w = ((False, votes, s), w)"
| "election_loop send args (peer # peers) votes s w =
     (case send peer args w of
        (None, w') \<Rightarrow> election_loop send args peers votes s w'
      | (Some reply, w') \<Rightarrow>
          if rvr_voteGranted reply then election_loop send args peers (votes + 1) s w'
          else if rvr_term reply > m_currentTerm s then
            ((True, votes,
              s\<lparr>m_currentTerm := rvr_term reply, m_state := Follower, m_votedFor := []\<rparr>), w')
          else election_loop send args peers votes s w')"

definition majority :: "string list \<Rightarrow> int" where
  "majority peers = (int (length peers) + 1) div 2 + 1"

fun init_indices :: "string list \<Rightarrow> u64 \<Rightarrow> RaftNode \<Rightarrow> RaftNode" where
  "init_indices [] n s = s"
| "init_indices (peer # peers) n s = init_indices peers n
     (s\<lparr>m_nextIndex := AList.update peer n (m_nextIndex s),
        m_matchIndex := AList.update peer 0 (m_matchIndex s)\<rparr>)"

definition startElection ::
  "'w rv_send \<Rightarrow> timer \<Rightarrow> RaftNode \<Rightarrow> 'w \<Rightarrow> (RaftNode \<times> 'w) option" where
  "startElection send t s w =
     (let s1 = resetElectionTimer t
            (s\<lparr>m_state := Candidate, m_currentTerm := m_currentTerm s + 1, m_votedFor := m_nodeId s\<rparr>) in
      case vec_back (m_logs s1) of
        None \<Rightarrow> None
      | Some lastEntry \<Rightarrow>
          let args = \<lparr>rv_term = m_currentTerm s1, rv_candidateId = m_nodeId s1,
                      rv_lastLogIndex = log_index lastEntry, rv_lastLogTerm = log_term lastEntry\<rparr>;
              ((stepped_down, votes, s2), w') = election_loop send args (m_peers s1) 1 s1 w in
          if stepped_down then Some (s2, w')
          else if votes \<ge> majority (m_peers s2) then
            Some (init_indices (m_peers s2) (vec_size (m_logs s2)) (s2\<lparr>m_state := Leader\<rparr>), w')
          else Some (s2, w'))"

text \<open>One round of \<open>electionLoop\<close>, with the elapsed time in milliseconds.\<close>

definition electionLoop_round ::
  "'w rv_send \<Rightarrow> timer \<Rightarrow> RaftNode \<Rightarrow> 'w \<Rightarrow> (RaftNode \<times> 'w) option" where
  "electionLoop_round send t s w =
     (let elapsed = (t_now t - m_lastHeartbeatTime s) div 1000000 in
      if m_state s \<noteq> Leader \<and> elapsed \<ge> m_electionTimeoutMs s then startElection send t s w
      else Some (s, w))"

section \<open>Heartbeats\<close>

text \<open>
  The commit rule: the position \<open>(n - 1) / 2\<close> of the descending list of the match indices,
  the leader's own included.
\<close>

definition newCommitIndex :: "RaftNode \<Rightarrow> u64" where
  "newCommitIndex s =
     (let matchIndices = (vec_size (m_logs s) - 1) # map snd (m_matchIndex s);
          sorted_desc = rev (sort matchIndices) in
      sorted_desc ! ((length matchIndices - 1) div 2))"

definition advanceCommit :: "'d kv_put \<Rightarrow> RaftNode \<Rightarrow> 'd \<Rightarrow> (RaftNode \<times> 'd) option" where
  "advanceCommit put s d =
     (if newCommitIndex s > m_commitIndex s then
        case vec_at (m_logs s) (newCommitIndex s) of
          None \<Rightarrow> None
        | Some entry \<Rightarrow>
            if log_term entry = m_currentTerm s
            then applyCommittedLogs put (s\<lparr>m_commitIndex := newCommitIndex s\<rparr>) d
            else Some (s, d)
      else Some (s, d))"

text \<open>
  The body of the loop over the peers. The local vector \<open>entries\<close> is filled but never assigned
  to \<open>args.entries\<close>, which stays empty. The first component of the result is the \<open>break\<close>.
\<close>

definition heartbeat_peer ::
  "'w ae_send \<Rightarrow> 'd kv_put \<Rightarrow> string \<Rightarrow> RaftNode \<Rightarrow> 'w \<Rightarrow> 'd \<Rightarrow> (bool \<times> RaftNode \<times> 'w \<times> 'd) option" where
  "heartbeat_peer send put peer s0 w d =
     (let (nextIndex, ni) = um_index 0 peer (m_nextIndex s0);
          s = s0\<lparr>m_nextIndex := ni\<rparr>;
          prevLogIndex = nextIndex - 1 in
      case vec_at (m_logs s) prevLogIndex of
        None \<Rightarrow> None
      | Some prevEntry \<Rightarrow>
          let entries = drop (unat nextIndex) (m_logs s);
              args = \<lparr>ae_term = m_currentTerm s, ae_leaderId = m_nodeId s,
                      ae_prevLogIndex = prevLogIndex, ae_prevLogTerm = log_term prevEntry,
                      ae_entries = [], ae_leaderCommit = m_commitIndex s\<rparr> in
          case send peer args w of
            (None, w') \<Rightarrow> Some (False, s, w', d)
          | (Some reply, w') \<Rightarrow>
              if aer_success reply then
                let n = nextIndex + vec_size entries;
                    s1 = s\<lparr>m_nextIndex := AList.update peer n (m_nextIndex s),
                           m_matchIndex := AList.update peer (n - 1) (m_matchIndex s)\<rparr> in
                (case advanceCommit put s1 d of
                   None \<Rightarrow> None
                 | Some (s2, d') \<Rightarrow> Some (False, s2, w', d'))
              else if aer_term reply > m_currentTerm s then
                Some (True, s\<lparr>m_currentTerm := aer_term reply, m_state := Follower, m_votedFor := []\<rparr>,
                      w', d)
              else if nextIndex > 1 then
                Some (False, s\<lparr>m_nextIndex := AList.update peer (nextIndex - 1) (m_nextIndex s)\<rparr>, w', d)
              else Some (False, s, w', d))"

fun heartbeat_peers ::
  "'w ae_send \<Rightarrow> 'd kv_put \<Rightarrow> string list \<Rightarrow> RaftNode \<Rightarrow> 'w \<Rightarrow> 'd \<Rightarrow> (RaftNode \<times> 'w \<times> 'd) option" where
  "heartbeat_peers send put [] s w d = Some (s, w, d)"
| "heartbeat_peers send put (peer # peers) s w d =
     (case heartbeat_peer send put peer s w d of
        None \<Rightarrow> None
      | Some (True, s', w', d') \<Rightarrow> Some (s', w', d')
      | Some (False, s', w', d') \<Rightarrow> heartbeat_peers send put peers s' w' d')"

text \<open>One round of \<open>heartbeatLoop\<close>.\<close>

definition heartbeatLoop_round ::
  "'w ae_send \<Rightarrow> 'd kv_put \<Rightarrow> RaftNode \<Rightarrow> 'w \<Rightarrow> 'd \<Rightarrow> (RaftNode \<times> 'w \<times> 'd) option" where
  "heartbeatLoop_round send put s w d =
     (if m_state s = Leader then heartbeat_peers send put (m_peers s) s w d else Some (s, w, d))"

end
