(* ===== verification/Raft_Log.thy ===== *)
theory Raft_Log
  imports Raft_Node
begin

text \<open>
  The log of a Raft node: the index loop of \<open>handleAppendEntries\<close> against a structural
  definition of merging, the entries \<open>applyCommittedLogs\<close> hands to the database, and the
  commit rule of the leader.
\<close>

section \<open>Applying entries\<close>

definition put_entry :: "'d kv_put \<Rightarrow> LogEntry \<Rightarrow> 'd \<Rightarrow> 'd" where
  "put_entry put e d = snd (put (log_key e) (log_value e) d)"

text \<open>The entries after position \<open>a\<close> up to position \<open>c\<close>.\<close>

definition log_slice :: "LogEntry list \<Rightarrow> u64 \<Rightarrow> u64 \<Rightarrow> LogEntry list" where
  "log_slice logs a c = take (unat c - unat a) (drop (unat a + 1) logs)"

lemma log_slice_Nil [simp]: "\<not> a < c \<Longrightarrow> log_slice logs a c = []"
  by (simp add: log_slice_def word_less_nat_alt)

lemma log_slice_Cons:
  assumes "a < c" and "unat c < length logs"
  shows "log_slice logs a c = logs ! (unat a + 1) # log_slice logs (a + 1) c"
proof -
  from assms(1) have a: "unat (a + 1) = unat a + 1" and lt: "unat a < unat c"
    by (simp_all add: unat_plus_one flip: word_less_nat_alt)
  with assms(2) have "drop (unat a + 1) logs = logs ! (unat a + 1) # drop (unat a + 2) logs"
    by (simp add: Cons_nth_drop_Suc)
  moreover from lt have "unat c - unat a = Suc (unat c - (unat a + 1))" by simp
  ultimately show ?thesis by (simp add: log_slice_def a)
qed

lemma apply_loop_fold:
  "unat c < length logs \<Longrightarrow>
   apply_loop put logs c a d = Some (max a c, fold (put_entry put) (log_slice logs a c) d)"
proof (induction put logs c a d rule: apply_loop.induct)
  case (1 put logs c a d)
  show ?case
  proof (cases "a < c")
    case True
    then have a: "unat (a + 1) = unat a + 1" and "a + 1 \<le> c" and "unat a < unat c"
      by (simp_all add: unat_plus_one inc_le flip: word_less_nat_alt)
    with 1(2) have at: "vec_at logs (a + 1) = Some (logs ! (unat a + 1))" by simp
    have m: "max a c = c" "max (a + 1) c = c" using True \<open>a + 1 \<le> c\<close> by simp_all
    from 1(1) [OF True at] 1(2) True at show ?thesis
      by (simp add: apply_loop.simps [of put logs c a d] log_slice_Cons put_entry_def m)
  qed (simp add: apply_loop.simps [of put logs c a d] max_def)
qed

lemma apply_loop_stay: "\<not> a < c \<Longrightarrow> apply_loop put logs c a d = Some (a, d)"
  by (simp add: apply_loop.simps)

lemma applyCommittedLogs_fold:
  "unat (m_commitIndex s) < length (m_logs s) \<Longrightarrow>
   applyCommittedLogs put s d =
     Some (s\<lparr>m_lastApplied := max (m_lastApplied s) (m_commitIndex s)\<rparr>,
           fold (put_entry put) (log_slice (m_logs s) (m_lastApplied s) (m_commitIndex s)) d)"
  by (simp add: applyCommittedLogs_def apply_loop_fold)

lemma applyCommittedLogs_frame:
  "applyCommittedLogs put s d = Some (s', d') \<Longrightarrow> \<exists>a. s' = s\<lparr>m_lastApplied := a\<rparr>"
  by (auto simp: applyCommittedLogs_def split: option.splits)

section \<open>Merging entries into a log\<close>

fun merge_entries :: "LogEntry list \<Rightarrow> LogEntry list \<Rightarrow> LogEntry list" where
  "merge_entries rest [] = rest"
| "merge_entries [] es = es"
| "merge_entries (r # rs) (e # es) =
     (if log_term r = log_term e then r # merge_entries rs es else e # es)"

definition ae_merge :: "LogEntry list \<Rightarrow> nat \<Rightarrow> LogEntry list \<Rightarrow> LogEntry list" where
  "ae_merge logs p es = take (p + 1) logs @ merge_entries (drop (p + 1) logs) es"

lemma ae_conflict_merge:
  assumes "ae_conflict logs n es i = (l, j)" and "n \<le> length logs" and "i \<le> length es"
  shows "l @ drop j es = take n logs @ merge_entries (drop n logs) (drop i es)"
  using assms
proof (induction logs n es i arbitrary: l j rule: ae_conflict.induct)
  case (1 logs n es i)
  show ?case
  proof (cases "n < length logs \<and> i < length es")
    case True
    then have d: "drop n logs = logs ! n # drop (n + 1) logs" "drop i es = es ! i # drop (i + 1) es"
      by (simp_all add: Cons_nth_drop_Suc)
    show ?thesis
    proof (cases "log_term (logs ! n) = log_term (es ! i)")
      case same: True
      with 1(2) True have "ae_conflict logs (n + 1) es (i + 1) = (l, j)"
        by (simp add: ae_conflict.simps [of logs n es i])
      with 1(1) True same
      have "l @ drop j es = take (n + 1) logs @ merge_entries (drop (n + 1) logs) (drop (i + 1) es)"
        by simp
      with d same True show ?thesis by (simp add: take_Suc_conv_app_nth)
    next
      case False
      with 1(2) True d show ?thesis by (auto simp: ae_conflict.simps [of logs n es i])
    qed
  next
    case False
    with 1(2) have "l = logs" "j = i" by (auto simp: ae_conflict.simps [of logs n es i])
    moreover from False 1(3,4) have "n = length logs \<or> i = length es" by auto
    ultimately show ?thesis by (cases "drop i es") auto
  qed
qed

lemma ae_conflict_ae_merge:
  assumes "p < length logs" and "ae_conflict logs (p + 1) es 0 = (l, j)"
  shows "l @ drop j es = ae_merge logs p es"
  using ae_conflict_merge [OF assms(2)] assms(1) by (simp add: ae_merge_def)

lemma merge_entries_terms:
  "k < length es \<Longrightarrow> k < length (merge_entries rest es)
     \<and> log_term (merge_entries rest es ! k) = log_term (es ! k)"
proof (induction rest es arbitrary: k rule: merge_entries.induct)
  case (3 r rs e es)
  then show ?case by (cases k) auto
qed auto

lemma merge_entries_idem [simp]: "merge_entries (merge_entries rest es) es = merge_entries rest es"
proof (induction rest es rule: merge_entries.induct)
  case (2 e es)
  have "merge_entries xs xs = xs" for xs by (induction xs) auto
  then show ?case by simp
next
  case (3 r rs e es)
  have "merge_entries xs xs = xs" for xs by (induction xs) auto
  with 3 show ?case by simp
qed simp

lemma length_merge_entries:
  "length (merge_entries rest es) \<le> max (length rest) (length es)"
  by (induction rest es rule: merge_entries.induct) auto

lemma merge_entries_keep:
  "(\<And>k. k < length es \<Longrightarrow> k < length rest \<and> log_term (rest ! k) = log_term (es ! k))
   \<Longrightarrow> merge_entries rest es = rest"
proof (induction rest es rule: merge_entries.induct)
  case (2 e es)
  from 2 [of 0] show ?case by simp
next
  case (3 r rs e es)
  from 3(2) [of 0] have "log_term r = log_term e" by simp
  moreover have "merge_entries rs es = rs" if "log_term r = log_term e"
    using that 3(2) [of "Suc k" for k] by (intro 3(1)) auto
  ultimately show ?case by simp
qed simp

text \<open>Indices: where both the log and the new entries are numbered, so is the result.\<close>

definition numbered :: "nat \<Rightarrow> LogEntry list \<Rightarrow> bool" where
  "numbered n es \<longleftrightarrow> (\<forall>k < length es. unat (log_index (es ! k)) = n + k)"

lemma numbered_Nil [simp]: "numbered n []"
  by (simp add: numbered_def)

lemma numbered_Cons [simp]:
  "numbered n (e # es) \<longleftrightarrow> unat (log_index e) = n \<and> numbered (Suc n) es"
  by (fastforce simp: numbered_def less_Suc_eq_0_disj nth_Cons split: nat.splits)

lemma numbered_append [simp]:
  "numbered n (xs @ ys) \<longleftrightarrow> numbered n xs \<and> numbered (n + length xs) ys"
  by (induction xs arbitrary: n) auto

lemma numbered_merge_entries:
  "numbered n rest \<Longrightarrow> numbered n es \<Longrightarrow> numbered n (merge_entries rest es)"
  by (induction rest es arbitrary: n rule: merge_entries.induct) auto

lemma numbered_split: "numbered n es \<Longrightarrow> numbered n (take k es) \<and> numbered (n + min k (length es)) (drop k es)"
  by (metis append_take_drop_id length_take min.commute numbered_append)

lemma numbered_ae_merge:
  assumes "numbered 0 logs" and "p < length logs" and "numbered (p + 1) es"
  shows "numbered 0 (ae_merge logs p es)"
proof -
  from assms(2) have "min (p + 1) (length logs) = p + 1" by simp
  with numbered_split [OF assms(1), of "p + 1"] assms(3) show ?thesis
    unfolding ae_merge_def numbered_append length_take by (simp add: numbered_merge_entries)
qed

lemma ae_merge_not_Nil [simp]: "logs \<noteq> [] \<Longrightarrow> ae_merge logs p es \<noteq> []"
  by (simp add: ae_merge_def)

lemma length_ae_merge:
  "p < length logs \<Longrightarrow> length (ae_merge logs p es) \<le> max (length logs) (p + 1 + length es)"
  using length_merge_entries [of "drop (p + 1) logs" es] by (simp add: ae_merge_def)

lemma ae_merge_prefix: "take (p + 1) (ae_merge logs p es) = take (p + 1) logs" if "p < length logs"
  using that by (simp add: ae_merge_def)

lemma ae_merge_terms:
  assumes "p < length logs" and "k < length es"
  shows "p + 1 + k < length (ae_merge logs p es)
    \<and> log_term (ae_merge logs p es ! (p + 1 + k)) = log_term (es ! k)"
  using merge_entries_terms [OF assms(2), of "drop (p + 1) logs"] assms(1)
  by (simp add: ae_merge_def nth_append)

lemma ae_merge_idem: "p < length logs \<Longrightarrow> ae_merge (ae_merge logs p es) p es = ae_merge logs p es"
  by (simp add: ae_merge_def)

lemma ae_merge_empty [simp]: "ae_merge logs p [] = logs"
  by (simp add: ae_merge_def)

end
