(* ===== verification/Raft_Invariants.thy ===== *)
theory Raft_Invariants
  imports Raft_Log
begin

text \<open>
  Well-formedness of a Raft node and its preservation. A well-formed node never reads its log
  out of range: the log starts with the dummy entry, is numbered by position and fits the 64-bit
  index type, and while the node is the leader the next index of every peer lies in
  \<open>1 \<dots> m_logs.size()\<close> and every match index inside the log.
\<close>

section \<open>Well-formed nodes\<close>

definition log_ok :: "LogEntry list \<Rightarrow> bool" where
  "log_ok logs \<longleftrightarrow> logs \<noteq> [] \<and> length logs < 2 ^ 64 \<and> numbered 0 logs"

definition next_ok :: "RaftNode \<Rightarrow> string \<Rightarrow> bool" where
  "next_ok s p \<longleftrightarrow> (\<exists>n. map_of (m_nextIndex s) p = Some n \<and> 1 \<le> unat n \<and> unat n \<le> length (m_logs s))"

definition match_ok :: "RaftNode \<Rightarrow> bool" where
  "match_ok s \<longleftrightarrow> distinct (map fst (m_matchIndex s)) \<and> fst ` set (m_matchIndex s) \<subseteq> set (m_peers s)
     \<and> (m_state s = Leader \<longrightarrow> (\<forall>x \<in> set (m_matchIndex s). unat (snd x) < length (m_logs s)))"

definition raft_wf :: "RaftNode \<Rightarrow> bool" where
  "raft_wf s \<longleftrightarrow> log_ok (m_logs s) \<and> match_ok s \<and> (m_state s = Leader \<longrightarrow> (\<forall>p \<in> set (m_peers s). next_ok s p))"

text \<open>
  What a node may assume of the entries of an \<open>AppendEntries\<close> request: they are numbered from
  \<open>prevLogIndex + 1\<close> on and the indices do not overflow.
\<close>

definition ae_ok :: "AppendEntriesArgs \<Rightarrow> bool" where
  "ae_ok args \<longleftrightarrow> numbered (unat (ae_prevLogIndex args) + 1) (ae_entries args)
     \<and> unat (ae_prevLogIndex args) + 1 + length (ae_entries args) < 2 ^ 64"

lemma log_ok_not_Nil [simp]: "log_ok logs \<Longrightarrow> logs \<noteq> []"
  by (simp add: log_ok_def)

lemma log_ok_last_index:
  assumes "log_ok logs"
  shows "unat (log_index (last logs)) = length logs - 1"
    and "log_index (last logs) = vec_size logs - 1"
proof -
  from assms have "logs \<noteq> []" and "numbered 0 logs" and len: "length logs < 2 ^ 64"
    by (simp_all add: log_ok_def)
  then show u: "unat (log_index (last logs)) = length logs - 1"
    by (simp add: numbered_def last_conv_nth)
  have "unat (vec_size logs - 1) = length logs - 1"
    using len \<open>logs \<noteq> []\<close> by (simp add: unat_minus_one_pos unat_vec_size)
  with u show "log_index (last logs) = vec_size logs - 1" by (simp add: word_unat_eq_iff)
qed

lemma log_ok_end: "log_ok logs \<Longrightarrow> unat (vec_size logs - 1) < length logs"
  using log_ok_last_index [of logs] by (simp add: log_ok_def)

lemma log_ok_merge:
  assumes "log_ok logs" and "ae_ok args" and "unat (ae_prevLogIndex args) < length logs"
  shows "log_ok (ae_merge logs (unat (ae_prevLogIndex args)) (ae_entries args))"
proof -
  let ?p = "unat (ae_prevLogIndex args)"
  have "length (ae_merge logs ?p (ae_entries args)) \<le> max (length logs) (?p + 1 + length (ae_entries args))"
    by (rule length_ae_merge [OF assms(3)])
  with assms(1,2) have "length (ae_merge logs ?p (ae_entries args)) < 2 ^ 64"
    by (auto simp: log_ok_def ae_ok_def)
  with assms show ?thesis by (auto simp: log_ok_def ae_ok_def intro: numbered_ae_merge)
qed

lemma raft_wf_cong:
  assumes "raft_wf s" and "m_logs s' = m_logs s" and "m_peers s' = m_peers s"
    and "m_nextIndex s' = m_nextIndex s" and "m_matchIndex s' = m_matchIndex s"
    and "m_state s' = Leader \<Longrightarrow> m_state s = Leader"
  shows "raft_wf s'"
  using assms by (auto simp: raft_wf_def match_ok_def next_ok_def)

lemma raft_wf_new_log:
  assumes "raft_wf s" and "log_ok (m_logs s')" and "m_peers s' = m_peers s"
    and "m_matchIndex s' = m_matchIndex s" and "m_state s' \<noteq> Leader"
  shows "raft_wf s'"
  using assms by (auto simp: raft_wf_def match_ok_def)

lemma RaftNode_init_wf: "raft_wf (RaftNode_init t i ps)"
  by (simp add: raft_wf_def match_ok_def log_ok_def RaftNode_init_def resetElectionTimer_def
      dummy_entry_def)

section \<open>handleAppendEntries\<close>

text \<open>
  What the handler does, without loops and index arithmetic: refuse, or merge the entries into
  the log, raise the commit index to the leader's but not beyond the last entry of the log, and
  put the entries that became committed.
\<close>

definition ae_commit :: "AppendEntriesArgs \<Rightarrow> u64 \<Rightarrow> LogEntry list \<Rightarrow> u64" where
  "ae_commit args c logs =
     (if ae_leaderCommit args > c then min (ae_leaderCommit args) (vec_size logs - 1) else c)"

definition ae_accepts :: "AppendEntriesArgs \<Rightarrow> LogEntry list \<Rightarrow> bool" where
  "ae_accepts args logs \<longleftrightarrow> unat (ae_prevLogIndex args) < length logs
     \<and> log_term (logs ! unat (ae_prevLogIndex args)) = ae_prevLogTerm args"

definition ae_follow :: "timer \<Rightarrow> AppendEntriesArgs \<Rightarrow> RaftNode \<Rightarrow> RaftNode" where
  "ae_follow t args s = resetElectionTimer t (s\<lparr>m_state := Follower, m_currentTerm := ae_term args\<rparr>)"

definition ae_spec ::
  "'d kv_put \<Rightarrow> timer \<Rightarrow> AppendEntriesArgs \<Rightarrow> RaftNode \<Rightarrow> 'd \<Rightarrow> AppendEntriesReply \<times> RaftNode \<times> 'd" where
  "ae_spec put t args s d =
     (if ae_term args < m_currentTerm s then
        (\<lparr>aer_term = m_currentTerm s, aer_success = False\<rparr>, s, d)
      else if \<not> ae_accepts args (m_logs s) then
        (\<lparr>aer_term = m_currentTerm s, aer_success = False\<rparr>, ae_follow t args s, d)
      else
        let logs = ae_merge (m_logs s) (unat (ae_prevLogIndex args)) (ae_entries args);
            c = ae_commit args (m_commitIndex s) logs in
        (\<lparr>aer_term = ae_term args, aer_success = True\<rparr>,
         (ae_follow t args s)\<lparr>m_logs := logs, m_commitIndex := c,
            m_lastApplied := (if ae_leaderCommit args > m_commitIndex s then max (m_lastApplied s) c
                              else m_lastApplied s)\<rparr>,
         if ae_leaderCommit args > m_commitIndex s
         then fold (put_entry put) (log_slice logs (m_lastApplied s) c) d else d))"

lemma ae_spec_success:
  "aer_success (fst (ae_spec put t args s d)) \<longleftrightarrow>
     \<not> ae_term args < m_currentTerm s \<and> ae_accepts args (m_logs s)"
  by (simp add: ae_spec_def Let_def)

lemma m_logs_resetElectionTimer [simp]:
  "m_logs (resetElectionTimer t s) = m_logs s"
  "m_currentTerm (resetElectionTimer t s) = m_currentTerm s"
  "m_commitIndex (resetElectionTimer t s) = m_commitIndex s"
  "m_lastApplied (resetElectionTimer t s) = m_lastApplied s"
  "m_state (resetElectionTimer t s) = m_state s"
  "m_votedFor (resetElectionTimer t s) = m_votedFor s"
  "m_peers (resetElectionTimer t s) = m_peers s"
  "m_nodeId (resetElectionTimer t s) = m_nodeId s"
  "m_nextIndex (resetElectionTimer t s) = m_nextIndex s"
  "m_matchIndex (resetElectionTimer t s) = m_matchIndex s"
  "m_peerAddresses (resetElectionTimer t s) = m_peerAddresses s"
  by (simp_all add: resetElectionTimer_def)

lemma ae_follow_fields [simp]:
  "m_logs (ae_follow t args s) = m_logs s" "m_currentTerm (ae_follow t args s) = ae_term args"
  "m_state (ae_follow t args s) = Follower" "m_votedFor (ae_follow t args s) = m_votedFor s"
  "m_commitIndex (ae_follow t args s) = m_commitIndex s"
  "m_lastApplied (ae_follow t args s) = m_lastApplied s"
  "m_peers (ae_follow t args s) = m_peers s" "m_nodeId (ae_follow t args s) = m_nodeId s"
  "m_nextIndex (ae_follow t args s) = m_nextIndex s"
  "m_matchIndex (ae_follow t args s) = m_matchIndex s"
  by (simp_all add: ae_follow_def)

lemma ae_spec_logs:
  "m_logs (fst (snd (ae_spec put t args s d))) =
     (if aer_success (fst (ae_spec put t args s d))
      then ae_merge (m_logs s) (unat (ae_prevLogIndex args)) (ae_entries args) else m_logs s)"
  by (simp add: ae_spec_def Let_def)

lemma handleAppendEntries_accept:
  assumes "\<not> ae_term args < m_currentTerm s" and "ae_accepts args (m_logs s)"
  shows "handleAppendEntries put t args s d =
    (let s2 = (ae_follow t args s)\<lparr>m_logs :=
           ae_merge (m_logs s) (unat (ae_prevLogIndex args)) (ae_entries args)\<rparr>;
         success = \<lparr>aer_term = ae_term args, aer_success = True\<rparr> in
     if ae_leaderCommit args > m_commitIndex s then
       case vec_back (m_logs s2) of
         None \<Rightarrow> None
       | Some e \<Rightarrow>
           (case applyCommittedLogs put
                  (s2\<lparr>m_commitIndex := min (ae_leaderCommit args) (log_index e)\<rparr>) d of
              None \<Rightarrow> None
            | Some (s4, d') \<Rightarrow> Some (success, s4, d'))
     else Some (success, s2, d))"
proof -
  obtain l j where c: "ae_conflict (m_logs s) (unat (ae_prevLogIndex args) + 1) (ae_entries args) 0 = (l, j)"
    by fastforce
  with assms(2) have m: "l @ drop j (ae_entries args) =
      ae_merge (m_logs s) (unat (ae_prevLogIndex args)) (ae_entries args)"
    by (intro ae_conflict_ae_merge) (simp_all add: ae_accepts_def)
  show ?thesis
    using assms c m unfolding handleAppendEntries_def
    by (simp add: ae_accepts_def Let_def not_le flip: ae_follow_def split: option.split)
qed

lemma handleAppendEntries_refuse:
  assumes "ae_term args < m_currentTerm s \<or> \<not> ae_accepts args (m_logs s)"
  shows "handleAppendEntries put t args s d =
    Some (\<lparr>aer_term = m_currentTerm s, aer_success = False\<rparr>,
          if ae_term args < m_currentTerm s then s else ae_follow t args s, d)"
  using assms unfolding handleAppendEntries_def
  by (auto simp: ae_accepts_def Let_def not_le simp flip: ae_follow_def)

lemma handleAppendEntries_spec:
  assumes "log_ok (m_logs s)" and "ae_ok args"
  shows "handleAppendEntries put t args s d = Some (ae_spec put t args s d)"
proof (cases "ae_term args < m_currentTerm s \<or> \<not> ae_accepts args (m_logs s)")
  case True
  then show ?thesis by (auto simp: handleAppendEntries_refuse ae_spec_def)
next
  case False
  let ?logs = "ae_merge (m_logs s) (unat (ae_prevLogIndex args)) (ae_entries args)"
  let ?c = "min (ae_leaderCommit args) (vec_size ?logs - 1)"
  from False assms have ok: "log_ok ?logs" by (intro log_ok_merge) (simp_all add: ae_accepts_def)
  note last = log_ok_last_index [OF ok]
  have "unat ?c \<le> unat (vec_size ?logs - 1)" by (simp add: word_le_nat_alt [symmetric])
  also have "\<dots> < length ?logs" using last ok by (metis diff_less length_greater_0_conv log_ok_not_Nil zero_less_one)
  finally have c: "unat ?c < length ?logs" .
  from False ok last c show ?thesis
    by (auto simp: handleAppendEntries_accept ae_spec_def Let_def applyCommittedLogs_fold ae_commit_def)
qed

section \<open>The other operations\<close>

text \<open>What the operations that do not touch the log leave alone.\<close>

definition same_log :: "RaftNode \<Rightarrow> RaftNode \<Rightarrow> bool" where
  "same_log s s' \<longleftrightarrow> m_logs s' = m_logs s \<and> m_peers s' = m_peers s \<and> m_nodeId s' = m_nodeId s"

lemma same_log_refl [simp]: "same_log s s"
  by (simp add: same_log_def)

lemma same_log_trans: "same_log s t \<Longrightarrow> same_log t u \<Longrightarrow> same_log s u"
  by (simp add: same_log_def)

lemma handleRequestVote_fields:
  assumes "handleRequestVote t args s = Some (r, s')"
  shows "same_log s s'" "m_nextIndex s' = m_nextIndex s" "m_matchIndex s' = m_matchIndex s"
    "m_commitIndex s' = m_commitIndex s" "m_lastApplied s' = m_lastApplied s"
    "m_state s' = Leader \<Longrightarrow> m_state s = Leader" "rvr_term r = m_currentTerm s'"
    "m_currentTerm s' = max (m_currentTerm s) (rv_term args)"
  using assms
  by (auto simp: handleRequestVote_def Let_def same_log_def max_def split: if_splits option.splits)

lemma handleRequestVote_defined:
  "m_logs s \<noteq> [] \<Longrightarrow> \<exists>r s'. handleRequestVote t args s = Some (r, s')"
  by (simp add: handleRequestVote_def Let_def)

lemma handleRequestVote_wf:
  assumes "raft_wf s" and "handleRequestVote t args s = Some (r, s')"
  shows "raft_wf s'"
  using handleRequestVote_fields [OF assms(2)] by (intro raft_wf_cong [OF assms(1)]) (auto simp: same_log_def)

lemma submitLog_wf:
  assumes "raft_wf s" and "length (m_logs s) + 1 < 2 ^ 64"
  shows "\<exists>ok s'. submitLog k v s = Some (ok, s') \<and> raft_wf s' \<and> (ok \<longleftrightarrow> m_state s = Leader)
    \<and> (ok \<longrightarrow> m_logs s' = m_logs s @ [\<lparr>log_term = m_currentTerm s, log_index = vec_size (m_logs s),
          log_key = k, log_value = v\<rparr>]) \<and> (\<not> ok \<longrightarrow> s' = s)"
proof -
  from assms(1) have ok: "log_ok (m_logs s)" by (simp add: raft_wf_def)
  have last: "log_index (last (m_logs s)) + 1 = vec_size (m_logs s)"
    using log_ok_last_index(2) [OF ok] by simp
  have "unat (vec_size (m_logs s)) = length (m_logs s)" using assms(2) by (intro unat_vec_size) simp
  with ok assms(2) have "log_ok (m_logs s @ [\<lparr>log_term = m_currentTerm s, log_index = vec_size (m_logs s),
      log_key = k, log_value = v\<rparr>])" by (simp add: log_ok_def)
  with assms ok last show ?thesis
    by (auto simp: submitLog_def Let_def raft_wf_def match_ok_def next_ok_def)
qed

lemma election_loop_fields:
  "election_loop send args ps votes s w = ((down, v, s'), w') \<Longrightarrow>
   same_log s s' \<and> m_nextIndex s' = m_nextIndex s \<and> m_matchIndex s' = m_matchIndex s
   \<and> m_commitIndex s' = m_commitIndex s \<and> m_lastApplied s' = m_lastApplied s
   \<and> (\<not> down \<longrightarrow> s' = s) \<and> (down \<longrightarrow> m_state s' = Follower \<and> m_currentTerm s' > m_currentTerm s \<and> m_votedFor s' = [])"
  by (induction ps arbitrary: votes w)
    (auto simp: same_log_def split: prod.splits option.splits if_splits)

lemma init_indices_fields [simp]:
  "m_logs (init_indices ps n s) = m_logs s" "m_peers (init_indices ps n s) = m_peers s"
  "m_nodeId (init_indices ps n s) = m_nodeId s" "m_state (init_indices ps n s) = m_state s"
  "m_currentTerm (init_indices ps n s) = m_currentTerm s" "m_votedFor (init_indices ps n s) = m_votedFor s"
  "m_commitIndex (init_indices ps n s) = m_commitIndex s"
  "m_lastApplied (init_indices ps n s) = m_lastApplied s"
  by (induction ps arbitrary: s) auto

lemma init_indices_next:
  "map_of (m_nextIndex (init_indices ps n s)) p = (if p \<in> set ps then Some n else map_of (m_nextIndex s) p)"
  by (induction ps arbitrary: s) auto

lemma init_indices_match:
  "map_of (m_matchIndex (init_indices ps n s)) p = (if p \<in> set ps then Some 0 else map_of (m_matchIndex s) p)"
  by (induction ps arbitrary: s) auto

lemma init_indices_match_keys:
  "distinct (map fst (m_matchIndex s)) \<Longrightarrow> distinct (map fst (m_matchIndex (init_indices ps n s)))
     \<and> fst ` set (m_matchIndex (init_indices ps n s)) = fst ` set (m_matchIndex s) \<union> set ps"
  by (induction ps arbitrary: s) (auto simp: distinct_update um_keys_set)

lemma init_indices_wf:
  assumes "raft_wf s"
  shows "raft_wf (init_indices (m_peers s) (vec_size (m_logs s)) (s\<lparr>m_state := Leader\<rparr>))" (is "raft_wf ?s")
proof -
  from assms have d: "distinct (map fst (m_matchIndex s))" and sub: "fst ` set (m_matchIndex s) \<subseteq> set (m_peers s)"
    and ok: "log_ok (m_logs s)" by (simp_all add: raft_wf_def match_ok_def)
  have keys: "distinct (map fst (m_matchIndex ?s))" "fst ` set (m_matchIndex ?s) \<subseteq> set (m_peers s)"
    using init_indices_match_keys [of "s\<lparr>m_state := Leader\<rparr>" "m_peers s"] d sub by auto
  have "unat (snd x) < length (m_logs s)" if "x \<in> set (m_matchIndex ?s)" for x
  proof -
    from that keys have "map_of (m_matchIndex ?s) (fst x) = Some (snd x)" and "fst x \<in> set (m_peers s)"
      by auto
    then have "snd x = 0" by (simp add: init_indices_match)
    with ok show ?thesis by (simp add: log_ok_def)
  qed
  moreover have "next_ok ?s p" if "p \<in> set (m_peers s)" for p
    using that ok by (simp add: next_ok_def init_indices_next unat_vec_size log_ok_def Suc_le_eq)
  ultimately show ?thesis using keys ok by (simp add: raft_wf_def match_ok_def)
qed

lemma startElection_wf:
  assumes "raft_wf s"
  shows "\<exists>s' w'. startElection send t s w = Some (s', w') \<and> raft_wf s' \<and> same_log s s'"
proof -
  let ?s1 = "resetElectionTimer t
      (s\<lparr>m_state := Candidate, m_currentTerm := m_currentTerm s + 1, m_votedFor := m_nodeId s\<rparr>)"
  let ?args = "\<lparr>rv_term = m_currentTerm ?s1, rv_candidateId = m_nodeId ?s1,
      rv_lastLogIndex = log_index (last (m_logs s)), rv_lastLogTerm = log_term (last (m_logs s))\<rparr>"
  obtain down votes s2 w' where loop:
    "election_loop send ?args (m_peers ?s1) 1 ?s1 w = ((down, votes, s2), w')" by (metis prod.collapse)
  note f = election_loop_fields [OF loop]
  from assms have ne: "m_logs s \<noteq> []" by (simp add: raft_wf_def)
  have wf: "raft_wf s2"
  proof (rule raft_wf_new_log [OF assms])
    show "m_state s2 \<noteq> Leader" using f by (cases down) auto
  qed (use f assms in \<open>auto simp: same_log_def raft_wf_def\<close>)
  from f have same: "same_log s s2" by (auto simp: same_log_def)
  show ?thesis
  proof (cases "\<not> down \<and> votes \<ge> majority (m_peers s2)")
    case True
    with ne loop same init_indices_wf [OF wf] show ?thesis
      by (simp add: startElection_def Let_def same_log_def)
  next
    case False
    with ne loop wf same show ?thesis by (auto simp: startElection_def Let_def same_log_def)
  qed
qed

section \<open>Heartbeats\<close>

lemma nth_rev_sort_mem: "k < length xs \<Longrightarrow> rev (sort xs) ! k \<in> set xs"
  by (metis length_rev length_sort nth_mem set_rev set_sort)

lemma newCommitIndex_mem:
  "newCommitIndex s \<in> insert (vec_size (m_logs s) - 1) (snd ` set (m_matchIndex s))"
proof -
  have "newCommitIndex s \<in> set ((vec_size (m_logs s) - 1) # map snd (m_matchIndex s))"
    unfolding newCommitIndex_def Let_def by (rule nth_rev_sort_mem) simp
  then show ?thesis by simp
qed

lemma newCommitIndex_bound:
  assumes "raft_wf s" and "m_state s = Leader"
  shows "unat (newCommitIndex s) < length (m_logs s)"
proof -
  from assms(1) have ok: "log_ok (m_logs s)" by (simp add: raft_wf_def)
  then have "unat (vec_size (m_logs s) - 1) < length (m_logs s)" by (rule log_ok_end)
  then show ?thesis
    using newCommitIndex_mem [of s] assms by (auto simp: raft_wf_def match_ok_def)
qed

lemma advanceCommit_defined:
  assumes "raft_wf s" and "m_state s = Leader"
  shows "\<exists>c a d'. advanceCommit put s d = Some (s\<lparr>m_commitIndex := c, m_lastApplied := a\<rparr>, d')"
proof -
  note b = newCommitIndex_bound [OF assms]
  have id: "s = s\<lparr>m_commitIndex := m_commitIndex s, m_lastApplied := m_lastApplied s\<rparr>" by simp
  show ?thesis
  proof (cases "newCommitIndex s > m_commitIndex s
      \<and> log_term (m_logs s ! unat (newCommitIndex s)) = m_currentTerm s")
    case True
    with b show ?thesis by (auto simp: advanceCommit_def applyCommittedLogs_fold)
  next
    case False
    with b have "advanceCommit put s d = Some (s, d)" by (auto simp: advanceCommit_def)
    with id show ?thesis by metis
  qed
qed

text \<open>The successful branch moves the peer's indices to the end of the leader's log.\<close>

lemma heartbeat_success_wf:
  assumes "raft_wf s" and "m_state s = Leader" and "peer \<in> set (m_peers s)"
    and "map_of (m_nextIndex s) peer = Some n"
  defines "n' \<equiv> n + vec_size (drop (unat n) (m_logs s))"
  shows "n' = vec_size (m_logs s)"
    and "raft_wf (s\<lparr>m_nextIndex := AList.update peer n' (m_nextIndex s),
      m_matchIndex := AList.update peer (n' - 1) (m_matchIndex s)\<rparr>)"
proof -
  from assms(1-4) have n: "1 \<le> unat n" "unat n \<le> length (m_logs s)" and ok: "log_ok (m_logs s)"
    by (auto simp: raft_wf_def next_ok_def)
  from n ok have "unat n' = length (m_logs s)"
    unfolding n'_def vec_size_def by (subst unat_plus_nat) (simp_all add: log_ok_def)
  moreover have len: "unat (vec_size (m_logs s)) = length (m_logs s)"
    using ok by (simp add: unat_vec_size log_ok_def)
  ultimately show eq: "n' = vec_size (m_logs s)" by (simp add: word_unat_eq_iff)
  have last: "unat (vec_size (m_logs s) - 1) < length (m_logs s)"
    by (rule log_ok_end [OF ok])
  show "raft_wf (s\<lparr>m_nextIndex := AList.update peer n' (m_nextIndex s),
      m_matchIndex := AList.update peer (n' - 1) (m_matchIndex s)\<rparr>)"
    using assms(1-3) len n last unfolding eq raft_wf_def match_ok_def next_ok_def
    by (auto simp: distinct_update um_keys_set dest!: um_set_mem)
qed


lemma heartbeat_peer_wf:
  assumes "raft_wf s" and "m_state s = Leader" and "peer \<in> set (m_peers s)"
  shows "\<exists>brk s' w' d'. heartbeat_peer send put peer s w d = Some (brk, s', w', d')
    \<and> raft_wf s' \<and> same_log s s' \<and> (m_state s' = Leader \<longleftrightarrow> \<not> brk)"
proof -
  from assms obtain n where n: "map_of (m_nextIndex s) peer = Some n" "1 \<le> unat n" "unat n \<le> length (m_logs s)"
    and ok: "log_ok (m_logs s)" by (auto simp: raft_wf_def next_ok_def)
  then have prev: "vec_at (m_logs s) (n - 1) = Some (m_logs s ! (unat n - 1))"
    by (simp add: vec_at_def unat_minus_one_pos)
  let ?args = "\<lparr>ae_term = m_currentTerm s, ae_leaderId = m_nodeId s, ae_prevLogIndex = n - 1,
      ae_prevLogTerm = log_term (m_logs s ! (unat n - 1)), ae_entries = [], ae_leaderCommit = m_commitIndex s\<rparr>"
  let ?n = "n + vec_size (drop (unat n) (m_logs s))"
  let ?s1 = "s\<lparr>m_nextIndex := AList.update peer ?n (m_nextIndex s),
      m_matchIndex := AList.update peer (?n - 1) (m_matchIndex s)\<rparr>"
  have wf1: "raft_wf ?s1" by (rule heartbeat_success_wf(2) [OF assms n(1)])
  then obtain c a d' where adv: "advanceCommit put ?s1 d = Some (?s1\<lparr>m_commitIndex := c, m_lastApplied := a\<rparr>, d')"
    using advanceCommit_defined [of ?s1 put d] assms(2) by auto
  have wf2: "raft_wf (?s1\<lparr>m_commitIndex := c, m_lastApplied := a\<rparr>)"
    by (rule raft_wf_cong [OF wf1]) auto
  have down: "raft_wf (s\<lparr>m_currentTerm := x, m_state := Follower, m_votedFor := []\<rparr>)" for x
    by (rule raft_wf_cong [OF assms(1)]) auto
  have dec: "raft_wf (s\<lparr>m_nextIndex := AList.update peer (n - 1) (m_nextIndex s)\<rparr>)" if "n > 1"
    using assms(1) n that
    by (auto simp: raft_wf_def match_ok_def next_ok_def unat_minus_one_pos word_less_nat_alt)
  obtain r w' where send: "send peer ?args w = (r, w')" by fastforce
  show ?thesis
    using n(1) prev send adv wf2 down dec assms
    by (cases r) (auto simp: heartbeat_peer_def Let_def same_log_def)
qed

lemma heartbeat_peers_wf:
  "raft_wf s \<Longrightarrow> m_state s = Leader \<Longrightarrow> set ps \<subseteq> set (m_peers s) \<Longrightarrow>
   \<exists>s' w' d'. heartbeat_peers send put ps s w d = Some (s', w', d') \<and> raft_wf s' \<and> same_log s s'"
proof (induction ps arbitrary: s w d)
  case Nil
  then show ?case by simp
next
  case (Cons p ps)
  then obtain brk s1 w1 d1 where h: "heartbeat_peer send put p s w d = Some (brk, s1, w1, d1)"
    and wf: "raft_wf s1" and same: "same_log s s1" and lead: "m_state s1 = Leader \<longleftrightarrow> \<not> brk"
    using heartbeat_peer_wf [of s p send put w d] by auto
  show ?case
  proof (cases brk)
    case True
    with h wf same show ?thesis by simp
  next
    case False
    have "\<exists>s' w' d'. heartbeat_peers send put ps s1 w1 d1 = Some (s', w', d') \<and> raft_wf s' \<and> same_log s1 s'"
      using Cons.prems wf lead False same by (intro Cons.IH) (auto simp: same_log_def)
    with False h same show ?thesis by (auto intro: same_log_trans)
  qed
qed

lemma heartbeatLoop_round_wf:
  "raft_wf s \<Longrightarrow> \<exists>s' w' d'. heartbeatLoop_round send put s w d = Some (s', w', d') \<and> raft_wf s' \<and> same_log s s'"
  using heartbeat_peers_wf [of s "m_peers s" send put w d] by (auto simp: heartbeatLoop_round_def)

lemma electionLoop_round_wf:
  "raft_wf s \<Longrightarrow> \<exists>s' w'. electionLoop_round send t s w = Some (s', w') \<and> raft_wf s' \<and> same_log s s'"
  using startElection_wf [of s send t w] by (auto simp: electionLoop_round_def Let_def)

lemma handleAppendEntries_wf:
  assumes "raft_wf s" and "ae_ok args"
  shows "\<exists>r s' d'. handleAppendEntries put t args s d = Some (r, s', d') \<and> raft_wf s'"
proof -
  from assms(1) have ok: "log_ok (m_logs s)" by (simp add: raft_wf_def)
  have wf: "raft_wf (fst (snd (ae_spec put t args s d)))"
  proof (cases "ae_term args < m_currentTerm s")
    case True
    with assms(1) show ?thesis by (simp add: ae_spec_def)
  next
    case False
    have "log_ok (ae_merge (m_logs s) (unat (ae_prevLogIndex args)) (ae_entries args))"
      if "ae_accepts args (m_logs s)"
      using that by (intro log_ok_merge [OF ok assms(2)]) (simp add: ae_accepts_def)
    with False ok show ?thesis
      by (intro raft_wf_new_log [OF assms(1)]) (auto simp: ae_spec_def Let_def)
  qed
  then show ?thesis using handleAppendEntries_spec [OF ok assms(2), of put t d] by (metis prod.collapse)
qed

end
