(* ===== verification/Raft_Cluster.thy ===== *)
theory Raft_Cluster
  imports Raft_Invariants
begin

text \<open>
  Runs of Raft nodes. A step of a node is one of its operations under its mutex; the run records
  what the outside sees (votes granted, elections held). The calls of the other threads and
  nodes may come in any order, so a run is any sequence of steps.

  Election safety is proved from two facts: a node grants at most one vote per term, and two
  majorities meet. The second is the locale \<open>quorums\<close>, interpreted on the code's \<open>majority\<close>.
\<close>

section \<open>Steps and runs\<close>

datatype raft_event =
    EvVote RequestVoteArgs RequestVoteReply
  | EvAppend AppendEntriesArgs AppendEntriesReply
  | EvSubmit string string bool
  | EvElection u64 "string list" bool
  | EvHeartbeat

text \<open>The peers whose reply granted the vote before the loop ended.\<close>

fun granters :: "'w rv_send \<Rightarrow> RequestVoteArgs \<Rightarrow> string list \<Rightarrow> u64 \<Rightarrow> 'w \<Rightarrow> string list" where
  "granters send args [] term w = []"
| "granters send args (peer # peers) term w =
     (case send peer args w of
        (None, w') \<Rightarrow> granters send args peers term w'
      | (Some reply, w') \<Rightarrow>
          if rvr_voteGranted reply then peer # granters send args peers term w'
          else if rvr_term reply > term then []
          else granters send args peers term w')"

definition vote_request :: "RaftNode \<Rightarrow> RequestVoteArgs" where
  "vote_request s = \<lparr>rv_term = m_currentTerm s + 1, rv_candidateId = m_nodeId s,
     rv_lastLogIndex = log_index (last (m_logs s)), rv_lastLogTerm = log_term (last (m_logs s))\<rparr>"

inductive raft_step ::
  "'w rv_send \<Rightarrow> 'w ae_send \<Rightarrow> 'd kv_put \<Rightarrow> RaftNode \<times> 'd \<Rightarrow> raft_event \<Rightarrow> RaftNode \<times> 'd \<Rightarrow> bool"
  for rvs aes put where
  vote: "handleRequestVote t args s = Some (r, s') \<Longrightarrow>
    raft_step rvs aes put (s, d) (EvVote args r) (s', d)"
| append: "handleAppendEntries put t args s d = Some (r, s', d') \<Longrightarrow>
    raft_step rvs aes put (s, d) (EvAppend args r) (s', d')"
| submit: "submitLog k v s = Some (ok, s') \<Longrightarrow>
    raft_step rvs aes put (s, d) (EvSubmit k v ok) (s', d)"
| election: "m_state s \<noteq> Leader \<Longrightarrow> startElection rvs t s w = Some (s', w') \<Longrightarrow>
    raft_step rvs aes put (s, d)
      (EvElection (m_currentTerm s + 1)
        (granters rvs (vote_request s) (m_peers s) (m_currentTerm s + 1) w) (m_state s' = Leader))
      (s', d)"
| heartbeat: "heartbeatLoop_round aes put s w d = Some (s', w', d') \<Longrightarrow>
    raft_step rvs aes put (s, d) EvHeartbeat (s', d')"

inductive_cases raft_step_voteE: "raft_step rvs aes put (s, d) (EvVote args r) (s', d')"
inductive_cases raft_step_electionE: "raft_step rvs aes put (s, d) (EvElection t gs l) (s', d')"

inductive raft_run ::
  "'w rv_send \<Rightarrow> 'w ae_send \<Rightarrow> 'd kv_put \<Rightarrow> RaftNode \<times> 'd \<Rightarrow> raft_event list \<Rightarrow> RaftNode \<times> 'd \<Rightarrow> bool"
  for rvs aes put x where
  start: "raft_run rvs aes put x [] x"
| step: "raft_run rvs aes put x evs y \<Longrightarrow> raft_step rvs aes put y ev z \<Longrightarrow>
    raft_run rvs aes put x (evs @ [ev]) z"

text \<open>
  What the environment promises: candidates have names, entries are numbered, the term counter
  does not wrap around and the log does not outgrow the index type.
\<close>

fun event_ok :: "raft_event \<Rightarrow> bool" where
  "event_ok (EvVote args r) \<longleftrightarrow> rv_candidateId args \<noteq> []"
| "event_ok (EvAppend args r) \<longleftrightarrow> ae_ok args"
| "event_ok (EvElection t gs l) \<longleftrightarrow> t \<noteq> 0"
| "event_ok _ \<longleftrightarrow> True"

text \<open>What the votes of a node depend on of this: the names and the counter.\<close>

fun vote_ok :: "raft_event \<Rightarrow> bool" where
  "vote_ok (EvVote args r) \<longleftrightarrow> rv_candidateId args \<noteq> []"
| "vote_ok (EvElection t gs l) \<longleftrightarrow> t \<noteq> 0"
| "vote_ok _ \<longleftrightarrow> True"

section \<open>One vote per term\<close>

text \<open>The votes a node has given, as pairs of term and candidate; an election is a vote for itself.\<close>

fun event_votes :: "string \<Rightarrow> raft_event \<Rightarrow> (u64 \<times> string) set" where
  "event_votes self (EvVote args r) =
     (if rvr_voteGranted r then {(rvr_term r, rv_candidateId args)} else {})"
| "event_votes self (EvElection t gs l) = {(t, self)}"
| "event_votes self _ = {}"

definition votes_of :: "string \<Rightarrow> raft_event list \<Rightarrow> (u64 \<times> string) set" where
  "votes_of self evs = \<Union> (event_votes self ` set evs)"

lemma votes_of_snoc [simp]: "votes_of self (evs @ [ev]) = votes_of self evs \<union> event_votes self ev"
  by (auto simp: votes_of_def)

lemma votes_of_Nil [simp]: "votes_of self [] = {}"
  by (simp add: votes_of_def)

lemma votes_of_election: "EvElection t gs l \<in> set evs \<Longrightarrow> (t, i) \<in> votes_of i evs"
  by (force simp: votes_of_def)

definition vote_inv :: "(u64 \<times> string) set \<Rightarrow> RaftNode \<Rightarrow> bool" where
  "vote_inv V s \<longleftrightarrow> (\<forall>(t, c) \<in> V. t \<le> m_currentTerm s \<and> (t = m_currentTerm s \<longrightarrow> m_votedFor s = c))
     \<and> (\<forall>t c c'. (t, c) \<in> V \<longrightarrow> (t, c') \<in> V \<longrightarrow> c = c')
     \<and> (\<forall>(t, c) \<in> V. c \<noteq> [])"

text \<open>The invariant survives a step that keeps term and vote, and one that enters a later term.\<close>

lemma vote_inv_keep:
  "vote_inv V s \<Longrightarrow> m_currentTerm s' = m_currentTerm s \<Longrightarrow> m_votedFor s' = m_votedFor s \<Longrightarrow> vote_inv V s'"
  by (simp add: vote_inv_def)

lemma vote_inv_later: "vote_inv V s \<Longrightarrow> m_currentTerm s' > m_currentTerm s \<Longrightarrow> vote_inv V s'"
  by (fastforce simp: vote_inv_def)

lemma vote_inv_add:
  assumes "vote_inv V s" and "m_votedFor s = c" and "c \<noteq> []"
  shows "vote_inv (insert (m_currentTerm s, c) V) s"
  using assms by (fastforce simp: vote_inv_def)

lemma vote_inv_free:
  assumes "vote_inv V s" and "m_votedFor s = [] \<or> m_votedFor s = c"
  shows "vote_inv V (s\<lparr>m_votedFor := c\<rparr>)"
  using assms by (fastforce simp: vote_inv_def)

lemma handleRequestVote_votes:
  assumes "vote_inv V s" and "handleRequestVote t args s = Some (r, s')" and "rv_candidateId args \<noteq> []"
  shows "vote_inv (V \<union> event_votes i (EvVote args r)) s'"
proof -
  let ?s1 = "if rv_term args > m_currentTerm s
    then s\<lparr>m_currentTerm := rv_term args, m_state := Follower, m_votedFor := []\<rparr> else s"
  have s1: "vote_inv V ?s1" using assms(1) vote_inv_later [OF assms(1)] by simp
  show ?thesis
  proof (cases "rvr_voteGranted r")
    case True
    with assms(2) have r: "rvr_term r = m_currentTerm ?s1"
      and s': "s' = resetElectionTimer t (?s1\<lparr>m_votedFor := rv_candidateId args\<rparr>)"
      and free: "m_votedFor ?s1 = [] \<or> m_votedFor ?s1 = rv_candidateId args"
      by (auto simp: handleRequestVote_def Let_def split: if_splits option.splits)
    have "vote_inv V s'" unfolding s' by (rule vote_inv_keep [OF vote_inv_free [OF s1 free]]) simp_all
    then have "vote_inv (insert (m_currentTerm s', rv_candidateId args) V) s'"
      using assms(3) s' by (intro vote_inv_add) simp_all
    with True r s' show ?thesis by simp
  next
    case False
    with assms(2) s1 have "vote_inv V s'"
      by (auto simp: handleRequestVote_def Let_def split: if_splits option.splits)
    with False show ?thesis by simp
  qed
qed

text \<open>The operations that give no vote: term and vote stay, or the term grows.\<close>

definition vote_frame :: "RaftNode \<Rightarrow> RaftNode \<Rightarrow> bool" where
  "vote_frame s s' \<longleftrightarrow> m_nodeId s' = m_nodeId s \<and> m_peers s' = m_peers s
     \<and> (m_currentTerm s' = m_currentTerm s \<and> m_votedFor s' = m_votedFor s \<or> m_currentTerm s' > m_currentTerm s)"

lemma vote_frame_refl [simp]: "vote_frame s s"
  by (simp add: vote_frame_def)

lemma vote_frame_trans: "vote_frame s t \<Longrightarrow> vote_frame t u \<Longrightarrow> vote_frame s u"
  by (auto simp: vote_frame_def)

lemma vote_inv_frame: "vote_inv V s \<Longrightarrow> vote_frame s s' \<Longrightarrow> vote_inv V s'"
  by (auto simp: vote_frame_def intro: vote_inv_keep vote_inv_later)

lemma handleAppendEntries_fields:
  assumes "handleAppendEntries put t args s d = Some (r, s', d')"
  shows "vote_frame s s' \<and> m_currentTerm s' = max (m_currentTerm s) (ae_term args)"
proof (cases "ae_term args < m_currentTerm s \<or> \<not> ae_accepts args (m_logs s)")
  case True
  with assms show ?thesis
    by (auto simp: handleAppendEntries_refuse vote_frame_def max_def not_less split: if_splits)
next
  case False
  with assms have "m_currentTerm s' = ae_term args \<and> m_votedFor s' = m_votedFor s
      \<and> m_nodeId s' = m_nodeId s \<and> m_peers s' = m_peers s"
    by (auto simp: handleAppendEntries_accept Let_def dest!: applyCommittedLogs_frame
        split: option.splits if_splits)
  with False show ?thesis by (auto simp: vote_frame_def max_def not_less)
qed

lemma advanceCommit_frame:
  "advanceCommit put s d = Some (s', d') \<Longrightarrow> \<exists>c a. s' = s\<lparr>m_commitIndex := c, m_lastApplied := a\<rparr>"
proof -
  assume adv: "advanceCommit put s d = Some (s', d')"
  have id: "s = s\<lparr>m_commitIndex := m_commitIndex s, m_lastApplied := m_lastApplied s\<rparr>" by simp
  from adv consider "s' = s" | "applyCommittedLogs put (s\<lparr>m_commitIndex := newCommitIndex s\<rparr>) d = Some (s', d')"
    by (auto simp: advanceCommit_def split: if_splits option.splits)
  then show ?thesis
  proof cases
    case 1
    with id show ?thesis by metis
  next
    case 2
    from applyCommittedLogs_frame [OF this] show ?thesis by blast
  qed
qed

lemma heartbeat_peer_frame:
  assumes "heartbeat_peer send put p s w d = Some (brk, s', w', d')"
  shows "vote_frame s s'"
  using assms unfolding heartbeat_peer_def
  by (auto simp: Let_def vote_frame_def dest!: advanceCommit_frame split: prod.splits option.splits if_splits)

lemma heartbeat_peers_frame:
  "heartbeat_peers send put ps s w d = Some (s', w', d') \<Longrightarrow> vote_frame s s'"
proof (induction ps arbitrary: s w d)
  case (Cons p ps)
  from Cons.prems obtain brk s1 w1 d1 where h: "heartbeat_peer send put p s w d = Some (brk, s1, w1, d1)"
    by (auto split: option.splits)
  then have "vote_frame s s1" by (rule heartbeat_peer_frame)
  with Cons h show ?case by (cases brk) (auto intro: vote_frame_trans)
qed simp

lemma startElection_unfold:
  assumes "startElection send t s w = Some (s', w')"
  shows "\<exists>s1 s2 down votes w2. m_logs s \<noteq> []
    \<and> s1 = resetElectionTimer t
        (s\<lparr>m_state := Candidate, m_currentTerm := m_currentTerm s + 1, m_votedFor := m_nodeId s\<rparr>)
    \<and> election_loop send (vote_request s) (m_peers s) 1 s1 w = ((down, votes, s2), w2)
    \<and> (if \<not> down \<and> votes \<ge> majority (m_peers s)
       then s' = init_indices (m_peers s) (vec_size (m_logs s)) (s1\<lparr>m_state := Leader\<rparr>) \<and> s2 = s1
       else s' = s2) \<and> w2 = w'"
proof -
  let ?s1 = "resetElectionTimer t
        (s\<lparr>m_state := Candidate, m_currentTerm := m_currentTerm s + 1, m_votedFor := m_nodeId s\<rparr>)"
  have ne: "m_logs s \<noteq> []" using assms by (auto simp: startElection_def Let_def vec_back_def)
  obtain down votes s2 w2 where loop:
    "election_loop send (vote_request s) (m_peers s) 1 ?s1 w = ((down, votes, s2), w2)" by (metis prod.collapse)
  from assms ne loop election_loop_fields [OF loop] show ?thesis
    by (auto simp: startElection_def Let_def vote_request_def same_log_def split: if_splits)
qed

lemma startElection_frame:
  assumes "startElection send t s w = Some (s', w')"
  shows "vote_frame (resetElectionTimer t
    (s\<lparr>m_state := Candidate, m_currentTerm := m_currentTerm s + 1, m_votedFor := m_nodeId s\<rparr>)) s'"
proof -
  from startElection_unfold [OF assms] obtain s1 s2 down votes w2 where
    s1: "s1 = resetElectionTimer t
        (s\<lparr>m_state := Candidate, m_currentTerm := m_currentTerm s + 1, m_votedFor := m_nodeId s\<rparr>)"
    and loop: "election_loop send (vote_request s) (m_peers s) 1 s1 w = ((down, votes, s2), w2)"
    and res: "if \<not> down \<and> votes \<ge> majority (m_peers s)
       then s' = init_indices (m_peers s) (vec_size (m_logs s)) (s1\<lparr>m_state := Leader\<rparr>) \<and> s2 = s1
       else s' = s2" by blast
  have "vote_frame s1 s2" using election_loop_fields [OF loop] by (auto simp: vote_frame_def same_log_def)
  moreover have "vote_frame s1 (init_indices (m_peers s) (vec_size (m_logs s)) (s1\<lparr>m_state := Leader\<rparr>))"
    by (simp add: vote_frame_def)
  ultimately show ?thesis using res s1 by (auto split: if_splits)
qed

lemma word_plus_one_greater: "a + 1 \<noteq> 0 \<Longrightarrow> a < a + 1" for a :: u64
  by (simp add: word_less_nat_alt unatSuc add.commute)

lemma startElection_votes:
  assumes "vote_inv V s" and "startElection send t s w = Some (s', w')"
    and "m_currentTerm s + 1 \<noteq> 0" and "m_nodeId s \<noteq> []"
  shows "vote_inv (insert (m_currentTerm s + 1, m_nodeId s) V) s'"
    and "m_nodeId s' = m_nodeId s" and "m_peers s' = m_peers s"
proof -
  let ?s1 = "resetElectionTimer t
        (s\<lparr>m_state := Candidate, m_currentTerm := m_currentTerm s + 1, m_votedFor := m_nodeId s\<rparr>)"
  note frame = startElection_frame [OF assms(2)]
  have "vote_inv V ?s1"
    by (rule vote_inv_later [OF assms(1)]) (simp add: word_plus_one_greater [OF assms(3)])
  then have "vote_inv (insert (m_currentTerm ?s1, m_nodeId s) V) ?s1"
    using assms(4) by (intro vote_inv_add) simp_all
  then show "vote_inv (insert (m_currentTerm s + 1, m_nodeId s) V) s'"
    using vote_inv_frame [OF _ frame] by simp
  from frame show "m_nodeId s' = m_nodeId s" "m_peers s' = m_peers s"
    by (simp_all add: vote_frame_def)
qed

lemma submitLog_frame: "submitLog k v s = Some (ok, s') \<Longrightarrow> vote_frame s s'"
  by (auto simp: submitLog_def Let_def vote_frame_def split: if_splits option.splits)

lemma raft_step_votes:
  assumes "raft_step rvs aes put (s, d) ev (s', d')" and "vote_inv V s" and "vote_ok ev"
    and "m_nodeId s \<noteq> []"
  shows "vote_inv (V \<union> event_votes (m_nodeId s) ev) s' \<and> m_nodeId s' = m_nodeId s \<and> m_peers s' = m_peers s"
  using assms(1)
proof cases
  case (vote t args r)
  with assms show ?thesis
    using handleRequestVote_fields(1) [OF vote(3)] handleRequestVote_votes [OF assms(2) vote(3)]
    by (simp add: same_log_def)
next
  case (append t args r)
  then show ?thesis
    using assms(2) handleAppendEntries_fields [OF append(2)] vote_inv_frame by (auto simp: vote_frame_def)
next
  case (submit k v ok)
  then show ?thesis using assms(2) submitLog_frame vote_inv_frame by (auto simp: vote_frame_def)
next
  case (election t w w')
  then show ?thesis using startElection_votes [OF assms(2) election(4)] assms(3,4) by simp
next
  case (heartbeat w w')
  then have "vote_frame s s'"
    by (auto simp: heartbeatLoop_round_def dest: heartbeat_peers_frame split: if_splits)
  with heartbeat assms(2) show ?thesis using vote_inv_frame by (auto simp: vote_frame_def)
qed

lemma raft_run_votes:
  assumes "raft_run rvs aes put x evs y" and "x = (RaftNode_init t i ps, d)"
    and "i \<noteq> []" and "\<forall>ev \<in> set evs. vote_ok ev"
  shows "vote_inv (votes_of i evs) (fst y) \<and> m_nodeId (fst y) = i \<and> m_peers (fst y) = ps"
  using assms
proof (induction rule: raft_run.induct)
  case start
  then show ?case by (simp add: RaftNode_init_def vote_inv_def)
next
  case (step evs y ev z)
  then have IH: "vote_inv (votes_of i evs) (fst y)" "m_nodeId (fst y) = i" "m_peers (fst y) = ps" by auto
  from step.hyps(2) have "raft_step rvs aes put (fst y, snd y) ev (fst z, snd z)" by simp
  from raft_step_votes [OF this IH(1)] IH step.prems show ?case by simp
qed

section \<open>Quorums\<close>

text \<open>
  What elections (and commits) need of their quorums: any two of the same cluster meet.
\<close>

locale quorums =
  fixes quorum :: "'a set \<Rightarrow> 'a set \<Rightarrow> bool"
  assumes quorum_meet: "quorum N Q \<Longrightarrow> quorum N Q' \<Longrightarrow> Q \<inter> Q' \<noteq> {}"
begin

lemma quorum_nonempty: "quorum N Q \<Longrightarrow> Q \<noteq> {}"
  using quorum_meet [of N Q Q] by auto

text \<open>When every member supports one choice at most, two choices with quorums are the same.\<close>

lemma quorum_choice:
  assumes "quorum N Q" and "quorum N Q'"
    and "\<And>q. q \<in> Q \<Longrightarrow> supports q a" and "\<And>q. q \<in> Q' \<Longrightarrow> supports q b"
    and "\<And>q x y. q \<in> Q \<inter> Q' \<Longrightarrow> supports q x \<Longrightarrow> supports q y \<Longrightarrow> x = y"
  shows "a = b"
  using quorum_meet [OF assms(1,2)] assms(3-5) by blast

end

text \<open>The sets of voters the code accepts: as many members as \<open>majority\<close> asks for.\<close>

definition vote_quorum :: "string set \<Rightarrow> string set \<Rightarrow> bool" where
  "vote_quorum N Q \<longleftrightarrow> finite N \<and> Q \<subseteq> N \<and>
     (\<exists>ps. length ps + 1 = card N \<and> majority ps \<le> int (card Q))"

lemma majority_half: "int (length ps) + 1 < 2 * majority ps"
  by (simp add: majority_def)

lemma vote_quorum_half:
  assumes "vote_quorum N Q"
  shows "finite N \<and> Q \<subseteq> N \<and> card N < 2 * card Q"
proof -
  from assms obtain ps :: "string list" where "length ps + 1 = card N" and "majority ps \<le> int (card Q)"
    by (auto simp: vote_quorum_def)
  with majority_half [of ps] have "card N < 2 * card Q" by linarith
  with assms show ?thesis by (simp add: vote_quorum_def)
qed

lemma card_meet:
  assumes "finite N" and "Q \<subseteq> N" and "Q' \<subseteq> N" and "card N < card Q + card Q'"
  shows "Q \<inter> Q' \<noteq> {}"
proof
  assume "Q \<inter> Q' = {}"
  then have "card Q + card Q' = card (Q \<union> Q')"
    using assms(1-3) by (simp add: card_Un_disjoint finite_subset)
  also have "\<dots> \<le> card N" using assms(1-3) by (simp add: card_mono)
  finally show False using assms(4) by simp
qed

interpretation vote: quorums vote_quorum
proof
  fix N Q Q'
  assume "vote_quorum N Q" and "vote_quorum N Q'"
  from vote_quorum_half [OF this(1)] vote_quorum_half [OF this(2)] show "Q \<inter> Q' \<noteq> {}"
    by (intro card_meet [of N]) auto
qed

section \<open>Elections\<close>

lemma election_loop_granters:
  "election_loop send args ps votes s w = ((down, v, s'), w') \<Longrightarrow>
   v = votes + int (length (granters send args ps (m_currentTerm s) w))"
  by (induction ps arbitrary: votes w) (fastforce split: prod.splits option.splits if_splits)+

lemma granters_subseq:
  "set (granters send args ps t w) \<subseteq> set ps
   \<and> (distinct ps \<longrightarrow> distinct (granters send args ps t w))"
proof (induction ps arbitrary: w)
  case (Cons p ps)
  have "set (granters send args ps t w) \<subseteq> set ps" for w using Cons by blast
  with Cons show ?case by (auto split: prod.splits option.splits)
qed simp

lemma startElection_leader_votes:
  assumes "startElection send t s w = Some (s', w')" and "m_state s' = Leader"
  shows "majority (m_peers s) \<le>
    1 + int (length (granters send (vote_request s) (m_peers s) (m_currentTerm s + 1) w))"
proof -
  from startElection_unfold [OF assms(1)] obtain s1 s2 down votes w2 where
    s1: "s1 = resetElectionTimer t
        (s\<lparr>m_state := Candidate, m_currentTerm := m_currentTerm s + 1, m_votedFor := m_nodeId s\<rparr>)"
    and loop: "election_loop send (vote_request s) (m_peers s) 1 s1 w = ((down, votes, s2), w2)"
    and res: "if \<not> down \<and> votes \<ge> majority (m_peers s)
       then s' = init_indices (m_peers s) (vec_size (m_logs s)) (s1\<lparr>m_state := Leader\<rparr>) \<and> s2 = s1
       else s' = s2" by blast
  have "\<not> down \<and> votes \<ge> majority (m_peers s)"
  proof (rule ccontr)
    assume "\<not> ?thesis"
    with res have "s' = s2" by simp
    with assms(2) election_loop_fields [OF loop] s1 show False by (cases down) auto
  qed
  then show ?thesis using election_loop_granters [OF loop] s1 by simp
qed

lemma raft_run_election:
  assumes "raft_run rvs aes put x evs y" and "x = (RaftNode_init t i ps, d)" and "i \<noteq> []"
    and "\<forall>ev \<in> set evs. vote_ok ev" and "EvElection tm gs True \<in> set evs"
  shows "majority ps \<le> 1 + int (length gs) \<and> set gs \<subseteq> set ps \<and> (distinct ps \<longrightarrow> distinct gs)"
  using assms
proof (induction rule: raft_run.induct)
  case start
  then show ?case by simp
next
  case (step evs y ev z)
  show ?case
  proof (cases "EvElection tm gs True \<in> set evs")
    case True
    with step show ?thesis by simp
  next
    case False
    with step.prems have ev: "ev = EvElection tm gs True" by simp
    obtain s d1 s' d2 where yz: "y = (s, d1)" "z = (s', d2)" by fastforce
    from step.hyps step.prems yz have peers: "m_peers s = ps" using raft_run_votes by fastforce
    from step.hyps(2) ev yz obtain tt w w' where st: "startElection rvs tt s w = Some (s', w')"
      and "m_state s' = Leader"
      and "gs = granters rvs (vote_request s) (m_peers s) (m_currentTerm s + 1) w"
      by (auto elim!: raft_step_electionE)
    with peers startElection_leader_votes [OF st] show ?thesis
      using granters_subseq [of rvs "vote_request s" ps] by auto
  qed
qed

section \<open>Clusters\<close>

text \<open>Every node knows exactly the other members, each once, and every member has a name.\<close>

definition cluster :: "(string \<Rightarrow> string list) \<Rightarrow> string set \<Rightarrow> bool" where
  "cluster ps N \<longleftrightarrow> [] \<notin> N \<and> (\<forall>i \<in> N. distinct (i # ps i) \<and> set (i # ps i) = N)"

text \<open>
  What the transport has to guarantee: a vote counted in an election was granted by that peer to
  that candidate in that term.
\<close>

definition faithful_votes :: "string set \<Rightarrow> (string \<Rightarrow> raft_event list) \<Rightarrow> bool" where
  "faithful_votes N evs \<longleftrightarrow> (\<forall>i \<in> N. \<forall>t gs l. EvElection t gs l \<in> set (evs i) \<longrightarrow>
     (\<forall>p \<in> set gs. (t, i) \<in> votes_of p (evs p)))"

lemma cluster_quorum:
  assumes "cluster ps N" and "i \<in> N" and "majority (ps i) \<le> 1 + int (length gs)"
    and "set gs \<subseteq> set (ps i)" and "distinct gs"
  shows "vote_quorum N (insert i (set gs))"
proof -
  from assms(1,2) have d: "distinct (i # ps i)" and N: "set (i # ps i) = N" by (auto simp: cluster_def)
  then have fin: "finite N" and "card N = length (ps i) + 1"
    using distinct_card [OF d] by (metis List.finite_set, simp)
  moreover have "card (insert i (set gs)) = 1 + length gs"
  proof -
    have "i \<notin> set gs" using d assms(4) by auto
    then show ?thesis using assms(5) by (simp add: distinct_card)
  qed
  ultimately show ?thesis
    using assms(3,4) N fin unfolding vote_quorum_def by (auto intro!: exI [of _ "ps i"])
qed

lemma raft_run_one_vote:
  assumes "raft_run rvs aes put (RaftNode_init t i ps, d) evs y" and "i \<noteq> []"
    and "\<forall>ev \<in> set evs. vote_ok ev" and "(tm, a) \<in> votes_of i evs" and "(tm, b) \<in> votes_of i evs"
  shows "a = b"
  using raft_run_votes [OF assms(1) refl assms(2,3)] assms(4,5) by (auto simp: vote_inv_def)

lemma election_agreement:
  assumes "cluster ps N" and "faithful_votes N evs"
    and "\<forall>i \<in> N. raft_run (rvs i) (aes i) (put i) (RaftNode_init (tm i) i (ps i), d i) (evs i) (fin i)"
    and "\<forall>i \<in> N. \<forall>ev \<in> set (evs i). vote_ok ev"
    and "i \<in> N" and "EvElection t gs True \<in> set (evs i)"
    and "j \<in> N" and "EvElection t gs' True \<in> set (evs j)"
  shows "i = j"
proof -
  have names: "k \<noteq> []" and dist: "distinct (ps k)" if "k \<in> N" for k
    using that assms(1) by (auto simp: cluster_def)
  have quorum: "vote_quorum N (insert k (set hs))"
    and support: "\<And>q. q \<in> insert k (set hs) \<Longrightarrow> (t, k) \<in> votes_of q (evs q)"
    if "k \<in> N" and "EvElection t hs True \<in> set (evs k)" for k hs
  proof -
    from raft_run_election [OF bspec [OF assms(3) that(1)] refl names bspec [OF assms(4) that(1)] that(2)]
      that(1) dist
    show "vote_quorum N (insert k (set hs))" by (auto intro: cluster_quorum [OF assms(1)])
    show "(t, k) \<in> votes_of q (evs q)" if "q \<in> insert k (set hs)" for q
      using that \<open>k \<in> N\<close> \<open>EvElection t hs True \<in> set (evs k)\<close> assms(2)
      by (auto simp: faithful_votes_def intro: votes_of_election)
  qed
  have single: "x = y" if "q \<in> N" and "(t, x) \<in> votes_of q (evs q)" and "(t, y) \<in> votes_of q (evs q)" for q x y
    using raft_run_one_vote [OF bspec [OF assms(3) that(1)] names [OF that(1)] bspec [OF assms(4) that(1)]] that
    by blast
  show ?thesis
  proof (rule vote.quorum_choice [OF quorum [OF assms(5,6)] quorum [OF assms(7,8)],
        where supports = "\<lambda>q x. (t, x) \<in> votes_of q (evs q)"])
    fix q x y
    assume "q \<in> insert i (set gs) \<inter> insert j (set gs')"
      and "(t, x) \<in> votes_of q (evs q)" and "(t, y) \<in> votes_of q (evs q)"
    moreover have "insert i (set gs) \<subseteq> N"
      using vote_quorum_half [OF quorum [OF assms(5,6)]] by blast
    ultimately show "x = y" using single by blast
  qed (use support assms(5-8) in blast)+
qed

text \<open>Runs of one and two steps, and replies from a script, for the concrete instances.\<close>

lemma raft_run_one: "raft_step rvs aes put x e y \<Longrightarrow> raft_run rvs aes put x [e] y"
  using raft_run.step [OF raft_run.start] by fastforce

lemma raft_run_two:
  "raft_step rvs aes put x e y \<Longrightarrow> raft_step rvs aes put y e' z \<Longrightarrow> raft_run rvs aes put x [e, e'] z"
  using raft_run.step [OF raft_run_one] by fastforce

definition script_send :: "string \<Rightarrow> 'a \<Rightarrow> 'r option list \<Rightarrow> 'r option \<times> 'r option list" where
  "script_send peer args w = (case w of [] \<Rightarrow> (None, []) | r # rs \<Rightarrow> (r, rs))"

definition no_append :: "'w ae_send" where
  "no_append peer args w = (None, w)"

definition list_put :: "string \<Rightarrow> string \<Rightarrow> (string \<times> string) list \<Rightarrow> bool \<times> (string \<times> string) list" where
  "list_put k v d = (True, d @ [(k, v)])"

definition tick :: timer where
  "tick = \<lparr>t_rand = 150, t_now = 0\<rparr>"

definition vote_from :: "string \<Rightarrow> u64 \<Rightarrow> RequestVoteArgs" where
  "vote_from c t = \<lparr>rv_term = t, rv_candidateId = c, rv_lastLogIndex = 0, rv_lastLogTerm = 0\<rparr>"

text \<open>
  C8. One vote per term: in every run of a node from its start, in which every request for a vote
  names a candidate (a non-empty \<open>candidateId\<close>) and no election of the node wraps its term counter
  around to 0 (\<open>vote_ok\<close>), whatever requests and elections come in whatever order, all votes the node
  gives in one term, its own candidacy included, are for the same candidate.
\<close>

theorem one_vote_per_term:
  assumes "raft_run rvs aes put (RaftNode_init t i ps, d) evs y" and "i \<noteq> []"
    and "\<forall>ev \<in> set evs. vote_ok ev"
    and "EvVote args r \<in> set evs" and "rvr_voteGranted r"
    and "EvVote args' r' \<in> set evs" and "rvr_voteGranted r'" and "rvr_term r = rvr_term r'"
  shows "rv_candidateId args = rv_candidateId args'
    \<and> (\<forall>gs l. EvElection (rvr_term r) gs l \<in> set evs \<longrightarrow> rv_candidateId args = i)"
proof -
  have v: "(rvr_term r, rv_candidateId args) \<in> votes_of i evs"
    and v': "(rvr_term r, rv_candidateId args') \<in> votes_of i evs"
    using assms(4-8) by (force simp: votes_of_def)+
  have "(rvr_term r, i) \<in> votes_of i evs" if "EvElection (rvr_term r) gs l \<in> set evs" for gs l
    using that by (force simp: votes_of_def)
  with v v' show ?thesis using raft_run_one_vote [OF assms(1-3)] by blast
qed

theorem one_vote_per_term_witness:
  "{c. \<exists>args r. EvVote args r \<in> set [EvVote (vote_from ''a'' 1) \<lparr>rvr_term = 1, rvr_voteGranted = True\<rparr>,
          EvVote (vote_from ''b'' 1) \<lparr>rvr_term = 1, rvr_voteGranted = False\<rparr>]
        \<and> rvr_voteGranted r \<and> rvr_term r = 1 \<and> c = rv_candidateId args} = {''a''}"
proof -
  let ?s = "RaftNode_init tick ''c'' [''a'', ''b'']"
  let ?evs = "[EvVote (vote_from ''a'' 1) \<lparr>rvr_term = 1, rvr_voteGranted = True\<rparr>,
     EvVote (vote_from ''b'' 1) \<lparr>rvr_term = 1, rvr_voteGranted = False\<rparr>]"
  let ?s1 = "?s\<lparr>m_currentTerm := 1, m_votedFor := ''a''\<rparr>"
  note defs = vote_from_def tick_def RaftNode_init_def dummy_entry_def resetElectionTimer_def
  have s1: "raft_step script_send no_append list_put (?s, []) (?evs ! 0) (?s1, [])"
    by (simp, rule raft_step.vote [where t = tick]) (simp add: handleRequestVote_def defs)
  have s2: "raft_step script_send no_append list_put (?s1, []) (?evs ! 1) (?s1, [])"
    by (simp, rule raft_step.vote [where t = tick]) (simp add: handleRequestVote_def defs)
  from raft_run_two [OF s1 s2] have run: "raft_run script_send no_append list_put (?s, []) ?evs (?s1, [])"
    by simp
  have "rv_candidateId args = ''a''"
    if "EvVote args r \<in> set ?evs" and "rvr_voteGranted r" and "rvr_term r = 1" for args r
    using one_vote_per_term [OF run, of args r
        "vote_from ''a'' 1" "\<lparr>rvr_term = 1, rvr_voteGranted = True\<rparr>"] that
    by (auto simp: vote_from_def)
  moreover have "''a'' = rv_candidateId (vote_from ''a'' 1)" by (simp add: vote_from_def)
  ultimately show ?thesis by (intro equalityI subsetI) (force simp: vote_from_def)+
qed

text \<open>
  Election safety: in a cluster whose transport delivers votes faithfully, two elections won
  in the same term were won by the same node, for every sequence of steps of every node.
\<close>

theorem election_safety:
  assumes "cluster ps N" and "faithful_votes N evs"
    and "\<forall>i \<in> N. raft_run (rvs i) (aes i) (put i) (RaftNode_init (tm i) i (ps i), d i) (evs i) (fin i)"
    and "\<forall>i \<in> N. \<forall>ev \<in> set (evs i). vote_ok ev"
    and "i \<in> N" and "EvElection t gs True \<in> set (evs i)"
    and "j \<in> N" and "EvElection t gs' True \<in> set (evs j)"
  shows "i = j"
  using assms by (rule election_agreement)

text \<open>Three nodes, of which \<open>a\<close> is elected in term 1 with the votes of \<open>b\<close> and \<open>c\<close>.\<close>

definition grant :: "u64 \<Rightarrow> RequestVoteReply" where
  "grant t = \<lparr>rvr_term = t, rvr_voteGranted = True\<rparr>"

definition three_peers :: "string \<Rightarrow> string list" where
  "three_peers i = filter (\<lambda>p. p \<noteq> i) [''a'', ''b'', ''c'']"

definition three_events :: "string \<Rightarrow> raft_event list" where
  "three_events i = (if i = ''a'' then [EvElection 1 [''b'', ''c''] True]
     else [EvVote (vote_from ''a'' 1) (grant 1)])"

lemmas raft_eval = vote_from_def tick_def RaftNode_init_def dummy_entry_def resetElectionTimer_def
  grant_def script_send_def three_peers_def three_events_def vote_request_def

lemma three_cluster: "cluster three_peers {''a'', ''b'', ''c''}"
  by (auto simp: cluster_def three_peers_def)

lemma elect_a:
  "\<exists>s'. raft_run script_send no_append list_put (RaftNode_init tick ''a'' [''b'', ''c''], [])
     [EvElection 1 [''b'', ''c''] True] (s', [])"
proof -
  let ?s = "RaftNode_init tick ''a'' [''b'', ''c'']"
  let ?w = "[Some (grant 1), Some (grant 1)]"
  obtain s' where st: "startElection script_send tick ?s ?w = Some (s', [])" and "m_state s' = Leader"
    by (simp add: startElection_def Let_def raft_eval majority_def)
  then have "raft_step script_send no_append list_put (?s, []) (EvElection 1 [''b'', ''c''] True) (s', [])"
    using raft_step.election [OF _ st, of no_append list_put "[]"] by (simp add: raft_eval)
  then show ?thesis using raft_run_one by blast
qed

lemma vote_for_a:
  assumes "i \<noteq> ''a''"
  shows "\<exists>s'. raft_run script_send no_append list_put (RaftNode_init tick i ps, [])
     [EvVote (vote_from ''a'' 1) (grant 1)] (s', [])"
proof -
  have "\<exists>s'. handleRequestVote tick (vote_from ''a'' 1) (RaftNode_init tick i ps) = Some (grant 1, s')"
    by (simp add: handleRequestVote_def Let_def raft_eval)
  then show ?thesis using raft_step.vote raft_run_one by metis
qed

theorem election_safety_witness:
  "{j. \<exists>gs. j \<in> {''a'', ''b'', ''c''} \<and> EvElection 1 gs True \<in> set (three_events j)} = {''a''}"
proof -
  have "\<exists>y. raft_run script_send no_append list_put (RaftNode_init tick i (three_peers i), []) (three_events i) y"
    for i
  proof (cases "i = ''a''")
    case True
    then show ?thesis using elect_a by (auto simp: three_events_def three_peers_def)
  next
    case False
    then show ?thesis using vote_for_a [OF False, of "three_peers i"] by (auto simp: three_events_def)
  qed
  then obtain fin where runs: "\<And>i. raft_run script_send no_append list_put
      (RaftNode_init tick i (three_peers i), []) (three_events i) (fin i)" by metis
  have faithful: "faithful_votes {''a'', ''b'', ''c''} three_events"
    by (auto simp: faithful_votes_def votes_of_def three_events_def vote_from_def grant_def)
  have "''a'' = j" if j: "j \<in> {''a'', ''b'', ''c''}" and el: "EvElection 1 gs True \<in> set (three_events j)"
    for j gs
  proof (rule election_safety [OF three_cluster faithful, where t = 1 and gs = "[''b'', ''c'']"])
    show "\<forall>i \<in> {''a'', ''b'', ''c''}. raft_run script_send no_append list_put
        (RaftNode_init tick i (three_peers i), []) (three_events i) (fin i)" using runs by blast
    show "\<forall>i \<in> {''a'', ''b'', ''c''}. \<forall>ev \<in> set (three_events i). vote_ok ev"
      by (auto simp: three_events_def vote_from_def)
  qed (use j el in \<open>auto simp: three_events_def\<close>)
  moreover have "EvElection 1 [''b'', ''c''] True \<in> set (three_events ''a'')"
    by (simp add: three_events_def)
  ultimately show ?thesis by (intro equalityI subsetI) (blast, blast)
qed

text \<open>
  Without a name for the candidate there is no such promise: the empty string means that no vote has
  been given, so a request with an empty \<open>candidateId\<close> is granted and another candidate gets a vote in
  the same term.
\<close>

theorem empty_candidate_second_vote:
  assumes "m_currentTerm s < t" and "m_logs s = [dummy_entry]"
  shows "\<exists>s1 s2. handleRequestVote tm (vote_from [] t) s = Some (grant t, s1)
    \<and> handleRequestVote tm (vote_from c t) s1 = Some (grant t, s2)"
  using assms by (simp add: handleRequestVote_def Let_def vec_back_def raft_eval)

text \<open>
  Term and vote are kept in memory only. A node that is restarted has forgotten both and votes again in
  a term in which it has voted: with one restart of \<open>b\<close>, both \<open>a\<close> and \<open>c\<close> are leader in term 1.
\<close>

theorem restart_two_leaders:
  "\<exists>a1 b1 b2 c1.
     handleRequestVote tick (vote_request (RaftNode_init tick ''a'' [''b'', ''c'']))
       (RaftNode_init tick ''b'' [''a'', ''c'']) = Some (grant 1, b1)
   \<and> startElection script_send tick (RaftNode_init tick ''a'' [''b'', ''c'']) [Some (grant 1), None] = Some (a1, [])
   \<and> handleRequestVote tick (vote_request (RaftNode_init tick ''c'' [''a'', ''b''])) b1
       = Some (\<lparr>rvr_term = 1, rvr_voteGranted = False\<rparr>, b1)
   \<and> handleRequestVote tick (vote_request (RaftNode_init tick ''c'' [''a'', ''b'']))
       (RaftNode_init tick ''b'' [''a'', ''c'']) = Some (grant 1, b2)
   \<and> startElection script_send tick (RaftNode_init tick ''c'' [''a'', ''b'']) [None, Some (grant 1)] = Some (c1, [])
   \<and> m_state a1 = Leader \<and> m_currentTerm a1 = 1 \<and> m_state c1 = Leader \<and> m_currentTerm c1 = 1"
  by (simp add: startElection_def handleRequestVote_def Let_def raft_eval majority_def)

end
