(* ===== verification/Protocol.thy ===== *)
theory Protocol
  imports Prelude
begin

text \<open>
  The wire protocol of \<open>server/Protocol.cpp\<close>: a message is its length as a 32-bit integer in
  network byte order followed by its bytes. Both functions work on a socket that the callers
  have switched to non-blocking mode (\<open>Server::acceptLoop\<close>, \<open>Connection::forwardToNode\<close>,
  \<open>RaftConnectionPool::createConnection\<close>), on which \<open>MSG_WAITALL\<close> does not wait.

  The operating system is an argument: a socket carries the bytes that have arrived and the
  script of what arrives before each later \<open>recv\<close>, and the room the kernel's send buffer has
  at each later \<open>send\<close>. The theorems hold for every script.
\<close>

section \<open>Sockets\<close>

text \<open>
  \<open>Arrives bs\<close>: the bytes \<open>bs\<close> (possibly none) have arrived since the last call.
  \<open>RecvFails\<close>: the call fails with an error other than \<open>EAGAIN\<close>. After the end of the
  script the peer has closed its side.
\<close>

datatype arrival = Arrives bytes | RecvFails

record socket =
  rx_buf :: bytes
  rx_next :: "arrival list"
  tx_out :: bytes
  tx_room :: "nat list"

text \<open>
  \<open>recv(fd, p, n, flags)\<close> on a non-blocking stream socket: at most \<open>n\<close> of the bytes that
  are there; \<open>-1\<close> (\<open>EAGAIN\<close>) when there are none, \<open>0\<close> when the peer has closed.
\<close>

definition recv_sys :: "nat \<Rightarrow> socket \<Rightarrow> int \<times> bytes \<times> socket" where
  "recv_sys n s = (case rx_next s of
      [] \<Rightarrow> (int (length (take n (rx_buf s))), take n (rx_buf s), s\<lparr>rx_buf := drop n (rx_buf s)\<rparr>)
    | RecvFails # evs \<Rightarrow> (-1, [], s\<lparr>rx_next := evs\<rparr>)
    | Arrives bs # evs \<Rightarrow>
        (let buf = rx_buf s @ bs in
         if buf = [] then (-1, [], s\<lparr>rx_next := evs\<rparr>)
         else (int (length (take n buf)), take n buf, s\<lparr>rx_buf := drop n buf, rx_next := evs\<rparr>)))"

text \<open>\<open>send(fd, p, n, 0)\<close>: as many bytes as the kernel takes, \<open>-1\<close> when it takes none.\<close>

definition send_sys :: "bytes \<Rightarrow> socket \<Rightarrow> int \<times> socket" where
  "send_sys d s = (case tx_room s of
      [] \<Rightarrow> (int (length d), s\<lparr>tx_out := tx_out s @ d\<rparr>)
    | k # ks \<Rightarrow>
        (if k = 0 \<and> d \<noteq> [] then (-1, s\<lparr>tx_room := ks\<rparr>)
         else (int (length (take k d)), s\<lparr>tx_out := tx_out s @ take k d, tx_room := ks\<rparr>)))"

section \<open>Protocol.h, Protocol.cpp\<close>

definition MAX_MESSAGE_SIZE :: u32 where
  "MAX_MESSAGE_SIZE = 1024 * 1024"

lemma recv_sys_progress:
  "recv_sys n s = (k, bs, s') \<Longrightarrow> k > 0 \<Longrightarrow> int (length bs) = k \<and> length bs \<le> n"
  by (auto simp: recv_sys_def Let_def split: list.splits arrival.splits if_splits)

text \<open>
  \<open>recvAll\<close> is a static helper that nothing calls. The loop ends because every round that
  goes on has received something.
\<close>

function recvAll :: "socket \<Rightarrow> bytes \<Rightarrow> nat \<Rightarrow> bool \<times> bytes \<times> socket" where
  "recvAll s buf len =
     (if length buf < len then
        (let (n, bs, s') = recv_sys (len - length buf) s in
         if n \<le> 0 then (False, buf, s') else recvAll s' (buf @ bs) len)
      else (True, buf, s))"
  by pat_completeness auto
termination
proof (relation "measure (\<lambda>(s, buf, len). len - length buf)", goal_cases)
  case (2 s buf len p k q bs s')
  then have "recv_sys (len - length buf) s = (k, bs, s')" and "k > 0" by simp_all
  from recv_sys_progress [OF this] \<open>k > 0\<close> have "0 < length bs" by linarith
  with 2(1) show ?case by (simp del: length_greater_0_conv)
qed simp

declare recvAll.simps [simp del]

text \<open>
  \<open>recvMessage(fd, out)\<close>. The variable \<open>len\<close> is zero before the first \<open>recv\<close>, so a short
  read leaves its remaining bytes zero; \<open>out\<close> is the caller's buffer, which keeps its old
  bytes where a short read of the body does not reach.
\<close>

definition recvMessage :: "socket \<Rightarrow> bytes \<Rightarrow> bool \<times> bytes \<times> socket" where
  "recvMessage s out =
     (let (n, hd_bytes, s1) = recv_sys 4 s in
      if n \<le> 0 then (False, out, s1)
      else
        let len = ntohl (le_word (hd_bytes @ replicate (4 - length hd_bytes) (char_of (0 :: nat)))) in
        if len = 0 \<or> len > MAX_MESSAGE_SIZE then (False, out, s1)
        else
          let out1 = vec_resize (char_of (0 :: nat)) out (unat len);
              (n2, body, s2) = recv_sys (unat len) s1 in
          if n2 \<le> 0 then (False, out1, s2)
          else (True, body @ drop (length body) out1, s2))"

definition sendMessage :: "socket \<Rightarrow> bytes \<Rightarrow> bool \<times> socket" where
  "sendMessage s data =
     (let len = (of_nat (length data) :: u32);
          len_net = htonl len;
          (n, s1) = send_sys (le_bytes len_net) s in
      if n \<noteq> 4 then (False, s1)
      else
        let (n2, s2) = send_sys data s1 in
        if n2 \<noteq> int (length data) then (False, s2) else (True, s2))"

section \<open>Lemmas\<close>

text \<open>The four bytes that announce a length.\<close>

definition frame_header :: "u32 \<Rightarrow> bytes" where
  "frame_header len = rev (le_bytes len)"

lemma length_frame_header [simp]: "length (frame_header len) = 4"
  by (simp add: frame_header_def)

lemma frame_header_not_Nil [simp]: "frame_header len \<noteq> []"
  by (metis length_frame_header list.size(3) zero_neq_numeral)

lemma ntohl_frame_header [simp]: "ntohl (le_word (frame_header len)) = len"
  by (simp add: frame_header_def ntohl_def le_bytes_le_word)

text \<open>What a complete transmission of a message puts on the wire.\<close>

definition frame_bytes :: "bytes \<Rightarrow> bytes" where
  "frame_bytes m = frame_header (of_nat (length m)) @ m"

lemma length_frame_bytes [simp]: "length (frame_bytes m) = 4 + length m"
  by (simp add: frame_bytes_def)

lemma sendMessage_room:
  "tx_room s = [] \<Longrightarrow> sendMessage s m = (True, s\<lparr>tx_out := tx_out s @ frame_bytes m\<rparr>)"
  by (simp add: sendMessage_def send_sys_def frame_bytes_def frame_header_def Let_def)

lemma unat_of_nat_32: "n < 2 ^ 32 \<Longrightarrow> unat (of_nat n :: u32) = n"
  by (simp add: unat_of_nat take_bit_nat_eq_self)

lemma unat_MAX_MESSAGE_SIZE [simp]: "unat MAX_MESSAGE_SIZE = 1048576"
  by (simp add: MAX_MESSAGE_SIZE_def)

lemma message_length_ok:
  assumes "m \<noteq> []" and "length m \<le> 1048576"
  shows "of_nat (length m) \<noteq> (0 :: u32)" and "\<not> of_nat (length m) > MAX_MESSAGE_SIZE"
    and "unat (of_nat (length m) :: u32) = length m"
proof -
  show eq: "unat (of_nat (length m) :: u32) = length m"
    using assms by (intro unat_of_nat_32) simp
  then show "of_nat (length m) \<noteq> (0 :: u32)" using assms(1) by (metis unsigned_0 length_0_conv)
  from eq assms(2) show "\<not> of_nat (length m) > MAX_MESSAGE_SIZE"
    by (simp add: word_less_nat_alt)
qed

text \<open>The bytes a socket holds or will deliver when nothing fails on the way.\<close>

definition all_arrived :: "socket \<Rightarrow> bytes \<Rightarrow> bool" where
  "all_arrived s bs \<longleftrightarrow> rx_next s = [] \<and> rx_buf s = bs"

lemma recvMessage_frame:
  assumes "m \<noteq> []" and "length m \<le> 1048576" and "all_arrived s (frame_bytes m @ rest)"
  shows "recvMessage s out = (True, m, s\<lparr>rx_buf := rest\<rparr>)"
  using assms message_length_ok [OF assms(1,2)]
  by (simp add: all_arrived_def recvMessage_def recv_sys_def Let_def frame_bytes_def
      vec_resize_def)

lemma recvMessage_TrueD:
  assumes "recvMessage s out = (True, msg, s')"
  shows "1 \<le> length msg" and "length msg \<le> 1048576"
proof -
  have bound: "len \<le> MAX_MESSAGE_SIZE \<Longrightarrow> len \<noteq> 0 \<Longrightarrow> 1 \<le> unat len \<and> unat len \<le> 1048576"
    for len :: u32
    by (simp add: word_le_nat_alt Suc_le_eq unat_gt_0)
  have "\<exists>len. len \<le> MAX_MESSAGE_SIZE \<and> len \<noteq> 0 \<and> length msg = unat len"
    using assms recv_sys_progress
    by (fastforce simp: recvMessage_def Let_def not_less split: prod.splits if_splits)
  then show "1 \<le> length msg" and "length msg \<le> 1048576" using bound by auto
qed

lemma recvMessage_bad_length:
  assumes "rx_next s = []" and "rx_buf s = frame_header len @ rest"
    and "len = 0 \<or> len > MAX_MESSAGE_SIZE"
  shows "recvMessage s out = (False, out, s\<lparr>rx_buf := rest\<rparr>)"
  using assms by (simp add: recvMessage_def recv_sys_def)

text \<open>
  The bytes still to be read, now or later, whatever way they are cut into segments.
\<close>

fun arrival_bytes :: "arrival \<Rightarrow> bytes" where
  "arrival_bytes (Arrives bs) = bs"
| "arrival_bytes RecvFails = []"

definition pending :: "socket \<Rightarrow> bytes" where
  "pending s = rx_buf s @ concat (map arrival_bytes (rx_next s))"

lemma recv_sys_pending: "recv_sys n s = (k, bs, s') \<Longrightarrow> bs @ pending s' = pending s"
  by (auto simp: recv_sys_def pending_def Let_def take_drop_append
      simp del: take_append drop_append split: list.splits arrival.splits if_splits)

lemma recvAll_TrueD:
  "recvAll s buf len = (True, out, s') \<Longrightarrow> length buf \<le> len \<Longrightarrow>
     length out = len \<and> out @ pending s' = buf @ pending s"
proof (induction s buf len arbitrary: out s' rule: recvAll.induct)
  case (1 s buf len)
  show ?case
  proof (cases "length buf < len")
    case True
    obtain n bs t where r: "recv_sys (len - length buf) s = (n, bs, t)" by (metis prod_cases3)
    with 1(2) True have n: "n > 0" and rec: "recvAll t (buf @ bs) len = (True, out, s')"
      by (auto simp: recvAll.simps [of s buf len] split: if_splits)
    from recv_sys_progress [OF r n] True have "length (buf @ bs) \<le> len" by auto
    with 1(1) [OF True r [symmetric] refl refl _ rec] n
    have "length out = len \<and> out @ pending s' = (buf @ bs) @ pending t" by simp
    then show ?thesis using recv_sys_pending [OF r] by simp
  next
    case False
    with 1(2,3) show ?thesis by (simp add: recvAll.simps [of s buf len])
  qed
qed

section \<open>Messages that arrive in time\<close>

text \<open>
  A read of \<open>n\<close> bytes that finds all of them: what is in the buffer and what arrives before the read
  are enough. \<open>take_frame m\<close>: the length and the body of the message \<open>m\<close> are complete when they are
  read, and what is left then.
\<close>

fun read_now :: "nat \<Rightarrow> bytes \<times> arrival list \<Rightarrow> (bytes \<times> bytes \<times> arrival list) option" where
  "read_now n (buf, []) = (if n \<noteq> 0 \<and> n \<le> length buf then Some (take n buf, drop n buf, []) else None)"
| "read_now n (buf, Arrives bs # evs) =
     (if n \<noteq> 0 \<and> n \<le> length (buf @ bs) then Some (take n (buf @ bs), drop n (buf @ bs), evs) else None)"
| "read_now n (buf, RecvFails # evs) = None"

definition take_frame :: "bytes \<Rightarrow> bytes \<times> arrival list \<Rightarrow> (bytes \<times> arrival list) option" where
  "take_frame m x = (case read_now 4 x of
      None \<Rightarrow> None
    | Some (h, x1) \<Rightarrow>
        (if h \<noteq> frame_header (of_nat (length m)) then None
         else (case read_now (length m) x1 of
             None \<Rightarrow> None
           | Some (b, x2) \<Rightarrow> if b = m then Some x2 else None)))"

fun take_frames :: "bytes list \<Rightarrow> bytes \<times> arrival list \<Rightarrow> (bytes \<times> arrival list) option" where
  "take_frames [] x = Some x"
| "take_frames (m # ms) x = (case take_frame m x of None \<Rightarrow> None | Some x' \<Rightarrow> take_frames ms x')"

definition pending_of :: "bytes \<times> arrival list \<Rightarrow> bytes" where
  "pending_of x = fst x @ concat (map arrival_bytes (snd x))"

lemma read_now_Some:
  "read_now n x = Some (bs, x') \<Longrightarrow> pending_of x = bs @ pending_of x' \<and> length bs = n \<and> 0 < n"
  by (cases "(n, x)" rule: read_now.cases)
    (auto simp: pending_of_def take_drop_append min_def simp del: take_append drop_append split: if_splits)

lemma read_now_recv:
  assumes "read_now n (rx_buf s, rx_next s) = Some (bs, buf', evs')"
  shows "recv_sys n s = (int n, bs, s\<lparr>rx_buf := buf', rx_next := evs'\<rparr>)"
proof (cases "rx_next s")
  case Nil
  then show ?thesis using assms by (auto simp: recv_sys_def min_def split: if_splits)
next
  case (Cons e evs)
  then show ?thesis
    using assms by (cases e) (auto simp: recv_sys_def min_def Let_def simp del: take_append drop_append split: if_splits)
qed

lemma recvMessage_in_time:
  assumes "m \<noteq> []" and "length m \<le> 1048576" and "take_frame m (rx_buf s, rx_next s) = Some (buf', evs')"
  shows "recvMessage s out = (True, m, s\<lparr>rx_buf := buf', rx_next := evs'\<rparr>)"
proof -
  obtain buf1 evs1 where r1: "read_now 4 (rx_buf s, rx_next s) = Some (frame_header (of_nat (length m)), buf1, evs1)"
    and r2: "read_now (length m) (buf1, evs1) = Some (m, buf', evs')"
    using assms(3) by (auto simp: take_frame_def split: option.splits if_splits)
  let ?s1 = "s\<lparr>rx_buf := buf1, rx_next := evs1\<rparr>"
  have "recv_sys (length m) ?s1 = (int (length m), m, s\<lparr>rx_buf := buf', rx_next := evs'\<rparr>)"
    using read_now_recv [of "length m" ?s1] r2 by simp
  with read_now_recv [OF r1] message_length_ok [OF assms(1,2)] assms(1) show ?thesis
    by (simp add: recvMessage_def Let_def vec_resize_def)
qed

lemma take_frame_pending: "take_frame m x = Some x' \<Longrightarrow> pending_of x = frame_bytes m @ pending_of x'"
proof -
  assume "take_frame m x = Some x'"
  then obtain x1 where r1: "read_now 4 x = Some (frame_header (of_nat (length m)), x1)"
    and r2: "read_now (length m) x1 = Some (m, x')"
    by (auto simp: take_frame_def split: option.splits if_splits)
  from read_now_Some [OF r1] read_now_Some [OF r2] show ?thesis by (simp add: frame_bytes_def)
qed

lemma take_frames_pending:
  "take_frames ms x = Some x' \<Longrightarrow> pending_of x = concat (map frame_bytes ms) @ pending_of x'"
  by (induction ms arbitrary: x) (auto dest: take_frame_pending split: option.splits)

text \<open>Bytes that are all there are in time.\<close>

lemma take_frame_arrived: "m \<noteq> [] \<Longrightarrow> take_frame m (frame_bytes m @ rest, []) = Some (rest, [])"
  by (simp add: take_frame_def frame_bytes_def Suc_le_eq)

lemma take_frames_arrived:
  "list_all (\<lambda>m. m \<noteq> []) ms \<Longrightarrow> take_frames ms (concat (map frame_bytes ms) @ rest, []) = Some (rest, [])"
  by (induction ms) (simp_all add: take_frame_arrived)

section \<open>Properties\<close>

text \<open>
  C31. Framing round trip: a message of 1 byte to 1 MB that \<open>sendMessage\<close> writes into a socket that
  takes all of it is received by \<open>recvMessage\<close> unchanged, whatever the receiver's buffer held before
  and whatever follows on the stream, provided that the four bytes of the length have arrived when
  they are read and all bytes of the body when it is read; the bytes that follow are left for the
  next call.
\<close>

theorem protocol_roundtrip:
  assumes "m \<noteq> []" and "length m \<le> 1048576"
    and "tx_room a = []" and "tx_out a = []"
    and "sendMessage a m = (ok, a')"
    and "pending b = tx_out a' @ rest"
    and "read_now 4 (rx_buf b, rx_next b) = Some (h, buf', evs')" and "read_now (length m) (buf', evs') = Some (body, buf, evs)"
  shows "ok \<and> recvMessage b out = (True, m, b\<lparr>rx_buf := buf, rx_next := evs\<rparr>)
    \<and> pending (b\<lparr>rx_buf := buf, rx_next := evs\<rparr>) = rest"
proof -
  from assms(3,4,5) have ok: "ok" and out: "tx_out a' = frame_bytes m"
    by (auto simp: sendMessage_room)
  have "pending b = h @ body @ pending_of (buf, evs)"
    using read_now_Some [OF assms(7)] read_now_Some [OF assms(8)] by (simp add: pending_def pending_of_def)
  with assms(6) out have "h = frame_header (of_nat (length m)) \<and> body = m \<and> pending_of (buf, evs) = rest"
    using read_now_Some [OF assms(7)] read_now_Some [OF assms(8)] by (simp add: frame_bytes_def)
  moreover from this assms(7,8) have "take_frame m (rx_buf b, rx_next b) = Some (buf, evs)" by (simp add: take_frame_def)
  ultimately show ?thesis using ok recvMessage_in_time [OF assms(1,2)] by (simp add: pending_def pending_of_def)
qed

text \<open>A fresh socket with given contents, for the concrete instances.\<close>

definition mk_socket :: "bytes \<Rightarrow> arrival list \<Rightarrow> socket" where
  "mk_socket buf evs = \<lparr>rx_buf = buf, rx_next = evs, tx_out = [], tx_room = []\<rparr>"

theorem protocol_roundtrip_witness:
  "fst (sendMessage (mk_socket [] []) ''PING'')
   \<and> recvMessage (mk_socket (frame_header 4) [Arrives ''PI'', Arrives ''NGxyz'']) ''old'' = (True, ''PING'', mk_socket ''xyz'' [])"
proof -
  let ?b = "mk_socket (frame_header 4) [Arrives ''PI'', Arrives ''NGxyz'']"
  have "fst (sendMessage (mk_socket [] []) ''PING'')
    \<and> recvMessage ?b ''old'' = (True, ''PING'', ?b\<lparr>rx_buf := ''xyz'', rx_next := []\<rparr>)
    \<and> pending (?b\<lparr>rx_buf := ''xyz'', rx_next := []\<rparr>) = ''xyz''"
    by (rule protocol_roundtrip [where a = "mk_socket [] []" and a' = "snd (sendMessage (mk_socket [] []) ''PING'')"
          and h = "frame_header 4" and buf' = "''PI''" and evs' = "[Arrives ''NGxyz'']" and body = "''PING''"])
      (simp_all add: mk_socket_def sendMessage_room pending_def frame_bytes_def)
  then show ?thesis by (simp add: mk_socket_def)
qed

text \<open>
  C32. Bounds: whatever the socket delivers, a message that \<open>recvMessage\<close> accepts has between
  1 and \<open>MAX_MESSAGE_SIZE\<close> bytes, and every length outside that range is refused with the
  caller's buffer untouched and no byte of a body read.
\<close>

theorem recvMessage_bounds:
  "(recvMessage s out = (True, msg, s') \<longrightarrow> 1 \<le> length msg \<and> length msg \<le> 1048576)
   \<and> (rx_next t = [] \<and> rx_buf t = frame_header len @ rest \<and> (len = 0 \<or> len > MAX_MESSAGE_SIZE)
      \<longrightarrow> recvMessage t out = (False, out, t\<lparr>rx_buf := rest\<rparr>))"
  using recvMessage_TrueD recvMessage_bad_length by blast

theorem recvMessage_bounds_witness:
  "recvMessage (mk_socket (frame_header 2 @ ''ok'') []) [] = (True, ''ok'', mk_socket [] [])
   \<and> 1 \<le> length ''ok'' \<and> length ''ok'' \<le> 1048576
   \<and> recvMessage (mk_socket (frame_header 2000000 @ ''big'') []) ''old''
       = (False, ''old'', mk_socket ''big'' [])"
proof -
  have run: "recvMessage (mk_socket (frame_header 2 @ ''ok'') []) [] = (True, ''ok'', mk_socket [] [])"
    by (simp add: recvMessage_def recv_sys_def mk_socket_def vec_resize_def MAX_MESSAGE_SIZE_def)
  show ?thesis
    using recvMessage_bounds [of "mk_socket (frame_header 2 @ ''ok'') []" "[]" "''ok''" "mk_socket [] []"] run
      recvMessage_bounds [of _ "''old''" _ _ "mk_socket (frame_header 2000000 @ ''big'') []" 2000000 "''big''"]
    by (simp add: mk_socket_def MAX_MESSAGE_SIZE_def)
qed

text \<open>
  \<open>recvAll\<close> reads exactly the number of bytes it is asked for however the stream is cut
  into segments: when it succeeds, its buffer and what is still to be read are together the
  bytes that were to be read before.
\<close>

theorem recvAll_exact:
  "recvAll s [] len = (True, out, s') \<Longrightarrow> length out = len \<and> out @ pending s' = pending s"
  using recvAll_TrueD [of s "[]" len out s'] by simp

theorem recvAll_exact_witness:
  "fst (snd (recvAll (mk_socket [] [Arrives ''ab'', Arrives ''cde'']) [] 4)) = ''abcd''"
proof -
  let ?s = "mk_socket [] [Arrives ''ab'', Arrives ''cde'']"
  let ?s' = "mk_socket ''e'' []"
  have run: "recvAll ?s [] 4 = (True, ''abcd'', ?s')"
    by (simp add: recvAll.simps recv_sys_def mk_socket_def Let_def)
  show ?thesis using recvAll_exact [OF run] run by simp
qed

text \<open>
  \<open>recvMessage\<close> does not check for short reads. When the header has arrived and of the
  announced body only a non-empty prefix, it reports success, and the message it returns is
  that prefix completed with what the buffer held from an earlier message (or with zero
  bytes), not with the bytes the peer sends later.
\<close>

theorem recvMessage_short_read:
  assumes "rx_buf s = []" and "rx_next s = Arrives (frame_header len) # Arrives part # evs"
    and "len \<noteq> 0" and "len \<le> MAX_MESSAGE_SIZE" and "part \<noteq> []" and "length part < unat len"
  shows "recvMessage s out =
     (True, part @ drop (length part) (vec_resize (char_of (0 :: nat)) out (unat len)),
      s\<lparr>rx_next := evs\<rparr>)"
  using assms by (simp add: recvMessage_def recv_sys_def Let_def not_less)

theorem recvMessage_short_read_witness:
  "recvMessage (mk_socket [] [Arrives (frame_header 4), Arrives ''GE'']) ''xxxxPING''
   = (True, ''GExx'', mk_socket [] [])"
  using recvMessage_short_read
    [of "mk_socket [] [Arrives (frame_header 4), Arrives ''GE'']" 4 "''GE''" "[]" "''xxxxPING''"]
  by (simp add: mk_socket_def MAX_MESSAGE_SIZE_def vec_resize_def)

end
