(* ===== verification/Net_OS.thy ===== *)
theory Net_OS
  imports Protocol
begin

text \<open>
  The part of the operating system that the networking code calls: the table of open descriptors
  and the calls \<open>socket\<close>, \<open>connect\<close>, \<open>close\<close> and \<open>recv\<close> with \<open>MSG_PEEK\<close>. What the
  network does is an argument of the model: \<open>os_dial\<close> is the script of the results of the
  coming calls of \<open>connect\<close> (\<open>None\<close>: it returned -1), \<open>os_pton\<close> says which texts
  \<open>inet_pton\<close> accepts, and each connection carries its own script of arriving bytes. \<open>os_ebadf\<close> and
  \<open>os_gone\<close> record what the calls of \<open>close\<close> did; nothing in the program reads them.
\<close>

section \<open>Descriptors\<close>

type_synonym address = "string \<times> 16 word"

record desc =
  d_addr :: "address option"
  d_sock :: socket

record net_os =
  os_desc :: "(int, desc) umap"
  os_limit :: nat
  os_pton :: "string \<Rightarrow> bool"
  os_dial :: "socket option list"
  os_ebadf :: nat
  os_gone :: "desc list"

definition open_fds :: "net_os \<Rightarrow> int set" where
  "open_fds os = fst ` set (os_desc os)"

text \<open>
  \<open>socket()\<close> returns the lowest descriptor that is not open (0, 1 and 2 are the standard
  streams), or -1 at the limit of the process. A socket that is not connected has no address
  and reading from it fails.
\<close>

definition lowest_free :: "int list \<Rightarrow> int" where
  "lowest_free fds = hd (filter (\<lambda>fd. fd \<notin> set fds) (map (\<lambda>k. 3 + int k) [0..<Suc (length fds)]))"

definition raw_socket :: socket where
  "raw_socket = \<lparr>rx_buf = [], rx_next = [RecvFails], tx_out = [], tx_room = [0]\<rparr>"

definition sys_socket :: "net_os \<Rightarrow> int \<times> net_os" where
  "sys_socket os =
     (if length (os_desc os) < os_limit os then
        (let fd = lowest_free (map fst (os_desc os)) in
         (fd, os\<lparr>os_desc := (fd, \<lparr>d_addr = None, d_sock = raw_socket\<rparr>) # os_desc os\<rparr>))
      else (-1, os))"

definition sys_connect :: "int \<Rightarrow> address \<Rightarrow> net_os \<Rightarrow> bool \<times> net_os" where
  "sys_connect fd addr os =
     (case os_dial os of
        [] \<Rightarrow> (False, os)
      | None # rest \<Rightarrow> (False, os\<lparr>os_dial := rest\<rparr>)
      | Some s # rest \<Rightarrow>
          (True, os\<lparr>os_dial := rest,
                    os_desc := AList.update fd \<lparr>d_addr = Some addr, d_sock = s\<rparr> (os_desc os)\<rparr>))"

text \<open>
  \<open>close(fd)\<close>. Closing a descriptor that is not open fails with \<open>EBADF\<close>, which no caller
  looks at; \<open>os_ebadf\<close> counts these calls, because a second close of a descriptor closes
  somebody else's connection once the number is in use again. \<open>os_gone\<close> holds the connections that
  have been closed, each with its address and all that was written on it.
\<close>

definition sys_close :: "int \<Rightarrow> net_os \<Rightarrow> net_os" where
  "sys_close fd os =
     (if fd \<in> open_fds os then 
        os\<lparr>os_desc := AList.delete fd (os_desc os), os_gone := os_gone os @ [the (map_of (os_desc os) fd)]\<rparr>
      else os\<lparr>os_ebadf := os_ebadf os + 1\<rparr>)"

text \<open>
  \<open>recv(fd, buffer, 1, MSG_PEEK | MSG_DONTWAIT)\<close> leaves the bytes in the buffer. \<open>on_sock\<close> is a
  call on the connection behind a descriptor; on a descriptor that is not open it fails.
\<close>

datatype peek = PeekData | PeekClosed | PeekAgain | PeekError

definition peek_sock :: "socket \<Rightarrow> peek \<times> socket" where
  "peek_sock s = (case rx_next s of
      [] \<Rightarrow> (if rx_buf s = [] then PeekClosed else PeekData, s)
    | RecvFails # evs \<Rightarrow> (PeekError, s\<lparr>rx_next := evs\<rparr>)
    | Arrives bs # evs \<Rightarrow>
        (if rx_buf s @ bs = [] then PeekAgain else PeekData,
         s\<lparr>rx_buf := rx_buf s @ bs, rx_next := evs\<rparr>))"

definition on_sock :: "int \<Rightarrow> (socket \<Rightarrow> 'a \<times> socket) \<Rightarrow> 'a \<Rightarrow> net_os \<Rightarrow> 'a \<times> net_os" where
  "on_sock fd f bad os =
     (case map_of (os_desc os) fd of
        None \<Rightarrow> (bad, os)
      | Some d \<Rightarrow>
          (let (r, s) = f (d_sock d) in
           (r, os\<lparr>os_desc := AList.update fd (d\<lparr>d_sock := s\<rparr>) (os_desc os)\<rparr>)))"

definition sys_peek :: "int \<Rightarrow> net_os \<Rightarrow> peek \<times> net_os" where
  "sys_peek fd = on_sock fd peek_sock PeekError"

text \<open>\<open>Protocol::sendMessage\<close> and \<open>Protocol::recvMessage\<close> on a descriptor.\<close>

definition send_on :: "int \<Rightarrow> bytes \<Rightarrow> net_os \<Rightarrow> bool \<times> net_os" where
  "send_on fd data = on_sock fd (\<lambda>s. sendMessage s data) False"

definition recv_on :: "int \<Rightarrow> bytes \<Rightarrow> net_os \<Rightarrow> (bool \<times> bytes) \<times> net_os" where
  "recv_on fd out = on_sock fd (\<lambda>s. let (ok, d, s') = recvMessage s out in ((ok, d), s')) (False, out)"

section \<open>Lemmas\<close>

lemma on_sock_gone: "on_sock fd f bad os = (r, os') \<Longrightarrow> os_gone os' = os_gone os"
  by (auto simp: on_sock_def split: option.splits prod.splits)

lemma sys_socket_gone: "sys_socket os = (fd, os') \<Longrightarrow> os_gone os' = os_gone os"
  by (auto simp: sys_socket_def Let_def split: if_splits)

lemma sys_connect_gone: "sys_connect fd a os = (ok, os') \<Longrightarrow> os_gone os' = os_gone os"
  by (auto simp: sys_connect_def split: list.splits option.splits)

text \<open>A successful \<open>connect\<close> puts the connection behind the descriptor, with the address that was dialled.\<close>

lemma sys_connect_True:
  "sys_connect fd a os = (True, os') \<Longrightarrow>
   \<exists>s. Some s \<in> set (os_dial os) \<and> map_of (os_desc os') fd = Some \<lparr>d_addr = Some a, d_sock = s\<rparr>"
  by (auto simp: sys_connect_def split: list.splits option.splits)

lemma sys_connect_dial: "sys_connect fd a os = (ok, os') \<Longrightarrow> set (os_dial os') \<subseteq> set (os_dial os)"
  by (auto simp: sys_connect_def split: list.splits option.splits)

lemma lowest_free_fresh: "lowest_free fds \<notin> set fds" and lowest_free_pos: "3 \<le> lowest_free fds"
proof -
  let ?c = "map (\<lambda>k. 3 + int k) [0..<Suc (length fds)]"
  have "card (set ?c) = Suc (length fds)" unfolding set_map by (subst card_image) (auto simp: inj_on_def)
  moreover have "card (set ?c) \<le> length fds" if "set ?c \<subseteq> set fds"
    using card_mono [OF _ that] card_length [of fds] by (simp del: upt_Suc set_map)
  ultimately have "\<not> set ?c \<subseteq> set fds" by linarith
  then have "filter (\<lambda>fd. fd \<notin> set fds) ?c \<noteq> []" unfolding filter_empty_conv by blast
  then have "lowest_free fds \<in> set (filter (\<lambda>fd. fd \<notin> set fds) ?c)"
    unfolding lowest_free_def by (rule hd_in_set)
  then show "lowest_free fds \<notin> set fds" and "3 \<le> lowest_free fds"
    by (auto simp del: upt_Suc)
qed

lemma um_keys_erase: "fst ` set (AList.delete k m) = fst ` set m - {k}"
  by (induction m) auto

lemma map_of_open: "fd \<in> open_fds os \<longleftrightarrow> (\<exists>d. map_of (os_desc os) fd = Some d)"
  unfolding open_fds_def by (metis map_of_eq_None_iff not_None_eq)

lemma open_fds_set [simp]:
  "open_fds (os\<lparr>os_desc := AList.update fd d (os_desc os)\<rparr>) = insert fd (open_fds os)"
  "open_fds (os\<lparr>os_dial := w\<rparr>) = open_fds os"
  "open_fds (os\<lparr>os_dial := w, os_desc := AList.update fd d (os_desc os)\<rparr>) = insert fd (open_fds os)"
  by (simp_all add: open_fds_def um_keys_set)

lemma sys_close_open [pool_simps]:
  "fd \<in> open_fds os \<Longrightarrow> open_fds (sys_close fd os) = open_fds os - {fd}"
  "fd \<in> open_fds os \<Longrightarrow> os_ebadf (sys_close fd os) = os_ebadf os"
  by (simp_all add: sys_close_def open_fds_def um_keys_erase)

lemma sys_close_gone:
  "map_of (os_desc os) fd = Some d \<Longrightarrow> os_gone (sys_close fd os) = os_gone os @ [d]"
  by (auto simp: sys_close_def map_of_open)

lemma on_sock_frame:
  assumes "on_sock fd f bad os = (r, os')"
  shows "open_fds os' = open_fds os \<and> os_ebadf os' = os_ebadf os"
proof (cases "map_of (os_desc os) fd")
  case (Some d)
  then have "fd \<in> open_fds os" by (simp add: map_of_open)
  moreover obtain s where "os' = os\<lparr>os_desc := AList.update fd (d\<lparr>d_sock := s\<rparr>) (os_desc os)\<rparr>"
    using Some assms by (auto simp: on_sock_def split: prod.splits)
  ultimately show ?thesis by (simp add: insert_absorb)
qed (use assms in \<open>simp add: on_sock_def\<close>)

lemma sys_peek_frame:
  "sys_peek fd os = (r, os') \<Longrightarrow> open_fds os' = open_fds os \<and> os_ebadf os' = os_ebadf os"
  unfolding sys_peek_def by (rule on_sock_frame)

lemma send_on_frame:
  "send_on fd data os = (r, os') \<Longrightarrow> open_fds os' = open_fds os \<and> os_ebadf os' = os_ebadf os"
  unfolding send_on_def by (rule on_sock_frame)

lemma recv_on_frame:
  "recv_on fd out os = (r, os') \<Longrightarrow> open_fds os' = open_fds os \<and> os_ebadf os' = os_ebadf os"
  unfolding recv_on_def by (rule on_sock_frame)

text \<open>A call on one connection leaves the others alone.\<close>

lemma on_sock_other:
  "on_sock fd f bad os = (r, os') \<Longrightarrow> fd' \<noteq> fd \<Longrightarrow> map_of (os_desc os') fd' = map_of (os_desc os) fd'"
  by (auto simp: on_sock_def split: option.splits prod.splits)

lemma on_sock_this:
  "map_of (os_desc os) fd = Some d \<Longrightarrow> f (d_sock d) = (r, s) \<Longrightarrow>
   on_sock fd f bad os = (r, os\<lparr>os_desc := AList.update fd (d\<lparr>d_sock := s\<rparr>) (os_desc os)\<rparr>)"
  by (simp add: on_sock_def)

lemma sys_close_other: "fd' \<noteq> fd \<Longrightarrow> map_of (os_desc (sys_close fd os)) fd' = map_of (os_desc os) fd'"
  by (simp add: sys_close_def)

lemma sys_connect_other:
  "sys_connect fd a os = (r, os') \<Longrightarrow> fd' \<noteq> fd \<Longrightarrow> map_of (os_desc os') fd' = map_of (os_desc os) fd'"
  by (auto simp: sys_connect_def split: list.splits option.splits)

lemma sys_socket_other:
  "sys_socket os = (fd, os') \<Longrightarrow> fd' \<noteq> fd \<Longrightarrow> map_of (os_desc os') fd' = map_of (os_desc os) fd'"
  by (auto simp: sys_socket_def Let_def split: if_splits)

lemma sys_peek_not_open: "fd \<notin> open_fds os \<Longrightarrow> sys_peek fd os = (PeekError, os)"
  by (simp add: sys_peek_def on_sock_def map_of_open)

lemma sys_socket_cases:
  assumes "sys_socket os = (fd, os')"
  shows "fd = -1 \<and> os' = os \<or> 3 \<le> fd \<and> fd \<notin> open_fds os \<and> open_fds os' = insert fd (open_fds os)
    \<and> os_ebadf os' = os_ebadf os"
  using assms lowest_free_fresh [of "map fst (os_desc os)"] lowest_free_pos [of "map fst (os_desc os)"]
  by (auto simp: sys_socket_def open_fds_def Let_def split: if_splits)

lemma sys_connect_frame:
  assumes "sys_connect fd a os = (r, os')" and "fd \<in> open_fds os"
  shows "open_fds os' = open_fds os \<and> os_ebadf os' = os_ebadf os"
  using assms
  by (simp add: sys_connect_def insert_absorb split: list.splits option.splits) (auto simp: insert_absorb)

end
