(* ===== verification/RaftConnectionPool.thy ===== *)
theory RaftConnectionPool
  imports Net_OS
begin

text \<open>
  The pool of connections to the other Raft nodes (\<open>raft/RaftConnectionPool.h\<close>,
  \<open>raft/RaftConnectionPool.cpp\<close>). Every operation runs under the pool's mutex, so each is one
  step on the pool and the operating system. The steady clock (in nanoseconds) is an argument.
\<close>

section \<open>State\<close>

record ConnectionInfo =
  ci_fd :: int
  ci_host :: string
  ci_port :: int
  ci_lastUsed :: int
  ci_inUse :: bool

record RaftConnectionPool =
  m_connectionPools :: "(string, ConnectionInfo list) umap"
  m_fdToPeerMap :: "(int, string) umap"
  cp_running :: bool

definition CONNECTION_TIMEOUT :: int where
  "CONNECTION_TIMEOUT = 300"

definition MAX_CONNECTIONS_PER_PEER :: nat where
  "MAX_CONNECTIONS_PER_PEER = 5"

definition RaftConnectionPool_init :: RaftConnectionPool where
  "RaftConnectionPool_init = \<lparr>m_connectionPools = [], m_fdToPeerMap = [], cp_running = False\<rparr>"

section \<open>Operations\<close>

definition isConnectionValid :: "int \<Rightarrow> net_os \<Rightarrow> bool \<times> net_os" where
  "isConnectionValid fd os =
     (if fd < 0 then (False, os)
      else
        (let (result, os') = sys_peek fd os in
         (case result of
            PeekClosed \<Rightarrow> (False, os')
          | PeekAgain \<Rightarrow> (True, os')
          | PeekError \<Rightarrow> (False, os')
          | PeekData \<Rightarrow> (True, os'))))"

text \<open>The loop over the attempts of \<open>connect\<close>; the pause between two attempts is left out.\<close>

fun connect_attempts :: "nat \<Rightarrow> int \<Rightarrow> address \<Rightarrow> net_os \<Rightarrow> bool \<times> net_os" where
  "connect_attempts 0 fd addr os = (False, os)"
| "connect_attempts (Suc n) fd addr os =
     (let (ok, os') = sys_connect fd addr os in
      if ok then (True, os') else connect_attempts n fd addr os')"

definition createConnection :: "string \<Rightarrow> int \<Rightarrow> net_os \<Rightarrow> int \<times> net_os" where
  "createConnection host port os =
     (let (fd, os1) = sys_socket os in
      if fd < 0 then (-1, os1)
      else if \<not> os_pton os1 host then (-1, sys_close fd os1)
      else
        (let (connected, os2) = connect_attempts 3 fd (host, of_int port) os1 in
         if \<not> connected then (-1, sys_close fd os2) else (fd, os2)))"

text \<open>The end of \<open>getConnection\<close>: a new connection is registered, not put in a queue.\<close>

definition new_connection ::
  "string \<Rightarrow> string \<Rightarrow> int \<Rightarrow> RaftConnectionPool \<times> net_os \<Rightarrow> int \<times> RaftConnectionPool \<times> net_os" where
  "new_connection peerId host port = (\<lambda>(p, os).
     (let (fd, os') = createConnection host port os in
      if fd \<ge> 0 then (fd, p\<lparr>m_fdToPeerMap := AList.update fd peerId (m_fdToPeerMap p)\<rparr>, os')
      else (-1, p, os')))"

definition getConnection ::
  "string \<Rightarrow> string \<Rightarrow> int \<Rightarrow> RaftConnectionPool \<times> net_os \<Rightarrow> int \<times> RaftConnectionPool \<times> net_os" where
  "getConnection peerId host port = (\<lambda>(p, os).
     (case map_of (m_connectionPools p) peerId of
        Some (conn # queue) \<Rightarrow>
          (let (valid, os1) = isConnectionValid (ci_fd conn) os;
               p1 = p\<lparr>m_connectionPools := AList.update peerId queue (m_connectionPools p)\<rparr> in
           if valid then (ci_fd conn, p1, os1)
           else new_connection peerId host port
             (p1\<lparr>m_fdToPeerMap := AList.delete (ci_fd conn) (m_fdToPeerMap p1)\<rparr>,
              sys_close (ci_fd conn) os1))
      | _ \<Rightarrow> new_connection peerId host port (p, os)))"

definition releaseConnection ::
  "int \<Rightarrow> string \<Rightarrow> int \<Rightarrow> RaftConnectionPool \<times> net_os \<Rightarrow> RaftConnectionPool \<times> net_os" where
  "releaseConnection now peerId fd = (\<lambda>(p, os).
     (if map_of (m_fdToPeerMap p) fd \<noteq> Some peerId then (p, sys_close fd os)
      else
        (let (valid, os1) = isConnectionValid fd os;
             unregistered = p\<lparr>m_fdToPeerMap := AList.delete fd (m_fdToPeerMap p)\<rparr> in
         if \<not> valid then (unregistered, sys_close fd os1)
         else
           (let (queue, pools) = um_index [] peerId (m_connectionPools p) in
            if length queue < MAX_CONNECTIONS_PER_PEER then
              (p\<lparr>m_connectionPools := AList.update peerId
                   (queue @ [\<lparr>ci_fd = fd, ci_host = [], ci_port = 0, ci_lastUsed = now, ci_inUse = False\<rparr>])
                   pools\<rparr>, os1)
            else (unregistered\<lparr>m_connectionPools := pools\<rparr>, sys_close fd os1)))))"

text \<open>The loop of \<open>closePeerConnections\<close> over one queue, and the one of \<open>stop\<close>.\<close>

fun close_queue :: "ConnectionInfo list \<Rightarrow> (int, string) umap \<times> net_os \<Rightarrow> (int, string) umap \<times> net_os" where
  "close_queue [] st = st"
| "close_queue (conn # queue) (fds, os) =
     close_queue queue
       (if ci_fd conn \<ge> 0 then (AList.delete (ci_fd conn) fds, sys_close (ci_fd conn) os) else (fds, os))"

definition closePeerConnections :: "string \<Rightarrow> RaftConnectionPool \<times> net_os \<Rightarrow> RaftConnectionPool \<times> net_os" where
  "closePeerConnections peerId = (\<lambda>(p, os).
     (case map_of (m_connectionPools p) peerId of
        None \<Rightarrow> (p, os)
      | Some queue \<Rightarrow>
          (let (fds, os') = close_queue queue (m_fdToPeerMap p, os) in
           (p\<lparr>m_connectionPools := AList.delete peerId (m_connectionPools p), m_fdToPeerMap := fds\<rparr>, os'))))"

definition pool_start :: "RaftConnectionPool \<Rightarrow> RaftConnectionPool" where
  "pool_start p = (if cp_running p then p else p\<lparr>cp_running := True\<rparr>)"

fun stop_queues :: "(string, ConnectionInfo list) umap \<Rightarrow> net_os \<Rightarrow> net_os" where
  "stop_queues [] os = os"
| "stop_queues ((peerId, queue) # pools) os =
     stop_queues pools
       (fold (\<lambda>conn os. if ci_fd conn \<ge> 0 then sys_close (ci_fd conn) os else os) queue os)"

definition pool_stop :: "RaftConnectionPool \<times> net_os \<Rightarrow> RaftConnectionPool \<times> net_os" where
  "pool_stop = (\<lambda>(p, os).
     (if \<not> cp_running p then (p, os)
      else (p\<lparr>cp_running := False, m_connectionPools := [], m_fdToPeerMap := []\<rparr>,
            stop_queues (m_connectionPools p) os)))"

text \<open>The destructor.\<close>

definition RaftConnectionPool_destroy :: "RaftConnectionPool \<times> net_os \<Rightarrow> RaftConnectionPool \<times> net_os" where
  "RaftConnectionPool_destroy st = pool_stop st"

text \<open>
  One round of \<open>cleanupLoop\<close> after its wait has timed out, while the pool is running: the
  loop over one queue, which moves what it keeps to \<open>newQueue\<close>, and the loop over all queues.
\<close>

fun cleanup_queue ::
  "int \<Rightarrow> ConnectionInfo list \<Rightarrow> ConnectionInfo list \<Rightarrow> (int, string) umap \<times> net_os \<Rightarrow>
   ConnectionInfo list \<times> (int, string) umap \<times> net_os" where
  "cleanup_queue now [] newQueue st = (newQueue, st)"
| "cleanup_queue now (conn # queue) newQueue (fds, os) =
     (let elapsed = (now - ci_lastUsed conn) div 1000000000;
          (valid, os1) = (if elapsed > CONNECTION_TIMEOUT then (False, os)
                          else isConnectionValid (ci_fd conn) os) in
      if elapsed > CONNECTION_TIMEOUT \<or> \<not> valid
      then cleanup_queue now queue newQueue (AList.delete (ci_fd conn) fds, sys_close (ci_fd conn) os1)
      else cleanup_queue now queue (newQueue @ [conn]) (fds, os1))"

fun cleanup_pools ::
  "int \<Rightarrow> (string, ConnectionInfo list) umap \<Rightarrow> (int, string) umap \<times> net_os \<Rightarrow>
   (string, ConnectionInfo list) umap \<times> (int, string) umap \<times> net_os" where
  "cleanup_pools now [] st = ([], st)"
| "cleanup_pools now ((peerId, queue) # pools) st =
     (let (newQueue, st1) = cleanup_queue now queue [] st;
          (pools', st2) = cleanup_pools now pools st1 in
      ((peerId, newQueue) # pools', st2))"

definition cleanup_round :: "int \<Rightarrow> RaftConnectionPool \<times> net_os \<Rightarrow> RaftConnectionPool \<times> net_os" where
  "cleanup_round now = (\<lambda>(p, os).
     (if \<not> cp_running p then (p, os)
      else
        (let (pools, fds, os') = cleanup_pools now (m_connectionPools p) (m_fdToPeerMap p, os) in
         (p\<lparr>m_connectionPools := pools, m_fdToPeerMap := fds\<rparr>, os'))))"

end
