(* ===== verification/RaftConnectionPool_Inv.thy ===== *)
theory RaftConnectionPool_Inv
  imports RaftConnectionPool "HOL-Library.Multiset"
begin

text \<open>
  Who owns which descriptor: every descriptor the pool has opened is either in one queue or lent
  to one caller, is open, and is closed once. The invariant is stated on the list of owned
  descriptors; the loops of the pool move elements out of it one at a time.
\<close>

section \<open>Ownership\<close>

definition tag :: "string \<Rightarrow> ConnectionInfo list \<Rightarrow> (string \<times> int) list" where
  "tag peerId queue = map (\<lambda>conn. (peerId, ci_fd conn)) queue"

definition pooled :: "(string, ConnectionInfo list) umap \<Rightarrow> (string \<times> int) list" where
  "pooled pools = concat (map (\<lambda>(peerId, queue). tag peerId queue) pools)"

text \<open>
  \<open>owns B e own reg fds os\<close>: the open descriptors are those of the rest of the program
  (\<open>B\<close>) and the owned ones, all different; the pairs in \<open>reg\<close> are registered, nothing but
  owned descriptors is registered, and \<open>close\<close> has failed \<open>e\<close> times.
\<close>

definition owns :: "int set \<Rightarrow> nat \<Rightarrow> (string \<times> int) list \<Rightarrow> (string \<times> int) set \<Rightarrow> (int, string) umap \<Rightarrow> net_os \<Rightarrow> bool" where
  "owns B e own reg fds os \<longleftrightarrow>
     distinct (map snd own) \<and> open_fds os = B \<union> snd ` set own \<and> B \<inter> snd ` set own = {}
     \<and> (\<forall>x \<in> set own. 0 \<le> snd x) \<and> os_ebadf os = e \<and> reg \<subseteq> set own
     \<and> (\<forall>x \<in> reg. map_of fds (snd x) = Some (fst x))
     \<and> (\<forall>fd peerId. map_of fds fd = Some peerId \<longrightarrow> (peerId, fd) \<in> set own)"

text \<open>The invariant of the pool with the loans \<open>L\<close>.\<close>

definition pool_ok :: "int set \<Rightarrow> nat \<Rightarrow> RaftConnectionPool \<Rightarrow> net_os \<Rightarrow> (string \<times> int) list \<Rightarrow> bool" where
  "pool_ok B e p os L \<longleftrightarrow>
     owns B e (pooled (m_connectionPools p) @ L) (set (pooled (m_connectionPools p))) (m_fdToPeerMap p) os
     \<and> distinct (map fst (m_connectionPools p))
     \<and> (\<forall>x \<in> set (m_connectionPools p). length (snd x) \<le> MAX_CONNECTIONS_PER_PEER)"

lemma owns_perm:
  assumes "owns B e own reg fds os" and "mset own' = mset own" and "reg' \<subseteq> reg"
  shows "owns B e own' reg' fds os"
proof -
  have "set own' = set own" using assms(2) by (rule mset_eq_setD)
  moreover have "distinct (map snd own') = distinct (map snd own)"
    by (rule mset_eq_imp_distinct_iff) (simp add: assms(2) mset_map)
  ultimately show ?thesis using assms(1,3) unfolding owns_def by auto
qed

lemma owns_head: "owns B e ((k, fd) # own) reg fds os \<Longrightarrow> (k', fd) \<notin> set own"
  by (auto simp: owns_def rev_image_eqI)

lemma owns_nonneg: "owns B e ((k, fd) # own) reg fds os \<Longrightarrow> 0 \<le> fd"
  by (simp add: owns_def)

lemma owns_register:
  "owns B e own reg fds os \<Longrightarrow> map_of fds fd = Some peerId \<Longrightarrow> owns B e own (insert (peerId, fd) reg) fds os"
  unfolding owns_def by auto

lemma owns_close:
  assumes "owns B e ((peerId, fd) # own) reg fds os" and "fds' = AList.delete fd fds"
  shows "owns B e own (reg - {(peerId, fd)}) fds' (sys_close fd os)"
proof -
  from assms(1) have fd: "fd \<in> open_fds os" "fd \<notin> snd ` set own" "fd \<notin> B" by (auto simp: owns_def)
  then have "snd x \<noteq> fd" if "x \<in> set own" for x using that by blast
  with assms fd show ?thesis by (auto simp: owns_def pool_simps)
qed

lemma owns_close_unregistered:
  assumes "owns B e ((peerId, fd) # own) reg fds os" and "map_of fds fd \<noteq> Some peerId"
  shows "owns B e own reg fds (sys_close fd os)"
proof -
  from assms(1) have fd: "fd \<in> open_fds os" "fd \<notin> snd ` set own" "fd \<notin> B" by (auto simp: owns_def)
  then have "snd x \<noteq> fd" if "x \<in> set own" for x using that by blast
  with assms fd show ?thesis by (fastforce simp: owns_def pool_simps)
qed

lemma owns_frame:
  "owns B e own reg fds os \<Longrightarrow> open_fds os' = open_fds os \<and> os_ebadf os' = os_ebadf os \<Longrightarrow>
   owns B e own reg fds os'"
  unfolding owns_def by simp

lemma isConnectionValid_frame:
  "isConnectionValid fd os = (v, os') \<Longrightarrow> open_fds os' = open_fds os \<and> os_ebadf os' = os_ebadf os"
  using sys_peek_frame [of fd os] unfolding isConnectionValid_def
  by (cases "sys_peek fd os") (auto split: if_splits peek.splits)

lemma owns_valid:
  "owns B e own reg fds os \<Longrightarrow> isConnectionValid fd os = (v, os') \<Longrightarrow> owns B e own reg fds os'"
  using owns_frame isConnectionValid_frame by metis

lemma connect_attempts_frame:
  "connect_attempts n fd a os = (r, os') \<Longrightarrow> fd \<in> open_fds os \<Longrightarrow>
   open_fds os' = open_fds os \<and> os_ebadf os' = os_ebadf os"
proof (induction n fd a os rule: connect_attempts.induct)
  case (2 n fd a os)
  obtain ok os1 where c: "sys_connect fd a os = (ok, os1)" by fastforce
  with 2 sys_connect_frame [OF c] show ?case by (cases ok) auto
qed simp

lemma createConnection_cases:
  assumes "createConnection host port os = (fd, os')"
  shows "fd = -1 \<and> open_fds os' = open_fds os \<and> os_ebadf os' = os_ebadf os
    \<or> 3 \<le> fd \<and> fd \<notin> open_fds os \<and> open_fds os' = insert fd (open_fds os) \<and> os_ebadf os' = os_ebadf os"
proof -
  obtain f os1 where s: "sys_socket os = (f, os1)" by fastforce
  show ?thesis
  proof (cases "f < 0")
    case True
    with assms s sys_socket_cases [OF s] show ?thesis by (simp add: createConnection_def)
  next
    case False
    with sys_socket_cases [OF s] have f: "3 \<le> f" "f \<notin> open_fds os" "open_fds os1 = insert f (open_fds os)"
      "os_ebadf os1 = os_ebadf os" by auto
    obtain c os2 where a: "connect_attempts 3 f (host, of_int port) os1 = (c, os2)" by fastforce
    from connect_attempts_frame [OF this] f
    have "open_fds os2 = insert f (open_fds os)" "os_ebadf os2 = os_ebadf os" by auto
    with assms s a f False show ?thesis
      by (auto simp: createConnection_def pool_simps split: if_splits)
  qed
qed

lemma owns_new:
  assumes "owns B e own reg fds os" and "createConnection host port os = (fd, os')" and "fd \<ge> 0"
  shows "owns B e ((peerId, fd) # own) reg (AList.update fd peerId fds) os'"
proof -
  from createConnection_cases [OF assms(2)] assms(3) have fd: "fd \<notin> open_fds os"
    "open_fds os' = insert fd (open_fds os)" "os_ebadf os' = os_ebadf os" by auto
  then have "snd x \<noteq> fd" if "x \<in> set own" for x using that assms(1) by (auto simp: owns_def)
  with assms(1,3) fd show ?thesis by (auto simp: owns_def)
qed

lemma owns_fail:
  "owns B e own reg fds os \<Longrightarrow> createConnection host port os = (fd, os') \<Longrightarrow> fd < 0 \<Longrightarrow> owns B e own reg fds os'"
  by (drule (1) createConnection_cases [THEN disjE]) (auto intro: owns_frame)

section \<open>Queues\<close>

abbreviation queue_of :: "string \<Rightarrow> (string, ConnectionInfo list) umap \<Rightarrow> ConnectionInfo list" where
  "queue_of peerId pools \<equiv> (case map_of pools peerId of Some q \<Rightarrow> q | None \<Rightarrow> [])"

lemma pooled_Nil [simp]: "pooled [] = []"
  by (simp add: pooled_def)

lemma pooled_Cons [simp]: "pooled ((k, q) # pools) = tag k q @ pooled pools"
  by (simp add: pooled_def)

lemma tag_simps [simp]: "tag k [] = []" "tag k (c # q) = (k, ci_fd c) # tag k q" "tag k (q @ q') = tag k q @ tag k q'"
  by (simp_all add: tag_def)

lemma delete_absent: "k \<notin> fst ` set m \<Longrightarrow> AList.delete k m = m"
  by (induction m) auto

lemma delete_mem: "x \<in> set (AList.delete k m) \<Longrightarrow> x \<in> set m"
  by (induction m) (auto split: if_splits)

lemma pooled_split:
  "distinct (map fst pools) \<Longrightarrow> mset (pooled pools) = mset (tag k (queue_of k pools)) + mset (pooled (AList.delete k pools))"
proof (induction pools)
  case (Cons x pools)
  obtain k' q where x: "x = (k', q)" by fastforce
  show ?case
  proof (cases "k' = k")
    case True
    with Cons.prems x have "AList.delete k pools = pools" by (intro delete_absent) auto
    with True x show ?thesis by simp
  next
    case False
    with Cons x show ?thesis by simp
  qed
qed simp

lemma pooled_update:
  "distinct (map fst pools) \<Longrightarrow> mset (pooled (AList.update k q pools)) = mset (tag k q) + mset (pooled (AList.delete k pools))"
proof (induction pools)
  case (Cons x pools)
  obtain k' q' where x: "x = (k', q')" by fastforce
  show ?case
  proof (cases "k' = k")
    case True
    with Cons.prems x have "AList.delete k pools = pools" by (intro delete_absent) auto
    with True x show ?thesis by simp
  next
    case False
    with Cons x show ?thesis by simp
  qed
qed simp

lemma pool_keys_update: "distinct (map fst pools) \<Longrightarrow> distinct (map fst (AList.update k q pools))"
  by (rule distinct_update)

lemma queue_of_bound:
  "\<forall>x \<in> set pools. length (snd x) \<le> n \<Longrightarrow> length (queue_of k pools) \<le> n"
  by (auto split: option.splits dest!: map_of_SomeD)

lemma um_index_queue:
  assumes "distinct (map fst pools)" and "\<forall>x \<in> set pools. length (snd x) \<le> n"
  shows "\<exists>pools1. um_index [] k pools = (queue_of k pools, pools1) \<and> map_of pools1 k = Some (queue_of k pools)
    \<and> distinct (map fst pools1) \<and> mset (pooled pools1) = mset (pooled pools)
    \<and> (\<forall>x \<in> set pools1. length (snd x) \<le> n)"
proof (cases "map_of pools k")
  case None
  with assms pooled_split [of pools k] pooled_update [of pools k "[]"] um_set_mem [of _ k "[]" pools]
  show ?thesis by (fastforce simp: um_index_def distinct_update)
qed (use assms in \<open>simp add: um_index_def\<close>)

lemma pool_okI:
  assumes "owns B e own reg fds os" and "m_fdToPeerMap p = fds"
    and "mset (pooled (m_connectionPools p)) + mset L = mset own"
    and "set (pooled (m_connectionPools p)) \<subseteq> reg"
    and "distinct (map fst (m_connectionPools p))"
    and "\<And>x. x \<in> set (m_connectionPools p) \<Longrightarrow> length (snd x) \<le> MAX_CONNECTIONS_PER_PEER"
  shows "pool_ok B e p os L"
proof -
  have "mset (pooled (m_connectionPools p) @ L) = mset own" using assms(3) by simp
  from owns_perm [OF assms(1) this assms(4)] assms(2,5,6) show ?thesis by (simp add: pool_ok_def)
qed

lemma pool_okD:
  assumes "pool_ok B e p os L"
  shows "owns B e (pooled (m_connectionPools p) @ L) (set (pooled (m_connectionPools p))) (m_fdToPeerMap p) os"
    and "distinct (map fst (m_connectionPools p))"
    and "x \<in> set (m_connectionPools p) \<Longrightarrow> length (snd x) \<le> MAX_CONNECTIONS_PER_PEER"
  using assms by (auto simp: pool_ok_def)

text \<open>What the invariant says about one queue and the rest.\<close>

lemma pool_ok_split:
  assumes "pool_ok B e p os L"
  shows "owns B e (tag k (queue_of k (m_connectionPools p)) @ pooled (AList.delete k (m_connectionPools p)) @ L)
      (set (tag k (queue_of k (m_connectionPools p))) \<union> set (pooled (AList.delete k (m_connectionPools p))))
      (m_fdToPeerMap p) os"
proof (rule owns_perm [OF pool_okD(1) [OF assms]])
  note split = pooled_split [OF pool_okD(2) [OF assms], of k]
  then show "mset (tag k (queue_of k (m_connectionPools p)) @ pooled (AList.delete k (m_connectionPools p)) @ L)
    = mset (pooled (m_connectionPools p) @ L)" by simp
  show "set (tag k (queue_of k (m_connectionPools p))) \<union> set (pooled (AList.delete k (m_connectionPools p)))
    \<subseteq> set (pooled (m_connectionPools p))"
    using arg_cong [OF split, of set_mset] by simp
qed

section \<open>Preservation\<close>

text \<open>What a call that asks for a connection hands out: a loan, or nothing.\<close>

definition lend :: "string \<Rightarrow> int \<Rightarrow> (string \<times> int) list \<Rightarrow> (string \<times> int) list" where
  "lend peerId fd L = (if fd \<ge> 0 then (peerId, fd) # L else L)"

lemma new_connection_ok:
  assumes "pool_ok B e p os L" and "new_connection peerId host port (p, os) = (fd, p', os')"
  shows "pool_ok B e p' os' (lend peerId fd L)"
proof -
  obtain f os1 where c: "createConnection host port os = (f, os1)" by fastforce
  note ok = assms(1) [unfolded pool_ok_def]
  show ?thesis
  proof (cases "f \<ge> 0")
    case True
    with assms(2) c have r: "fd = f" "os' = os1"
      "p' = p\<lparr>m_fdToPeerMap := AList.update f peerId (m_fdToPeerMap p)\<rparr>" by (auto simp: new_connection_def)
    show ?thesis unfolding r
      by (rule pool_okI [OF owns_new [OF pool_okD(1) [OF assms(1)] c True, of peerId]])
        (use ok True in \<open>auto simp: lend_def\<close>)
  next
    case False
    with assms(2) c have r: "fd = -1" "os' = os1" "p' = p" by (auto simp: new_connection_def)
    from ok owns_fail [OF _ c] False r show ?thesis by (auto simp: pool_ok_def lend_def)
  qed
qed

lemma getConnection_ok:
  assumes "pool_ok B e p os L" and "getConnection peerId host port (p, os) = (fd, p', os')"
  shows "pool_ok B e p' os' (lend peerId fd L)"
proof (cases "queue_of peerId (m_connectionPools p)")
  case Nil
  with assms(2) have "new_connection peerId host port (p, os) = (fd, p', os')"
    by (auto simp: getConnection_def split: option.splits list.splits)
  with assms(1) show ?thesis by (rule new_connection_ok)
next
  case (Cons conn queue)
  note D = pool_ok_split [OF assms(1), of peerId, unfolded Cons] and keys = pool_okD(2) [OF assms(1)]
  let ?pools = "AList.update peerId queue (m_connectionPools p)" and ?f = "ci_fd conn"
  let ?p1 = "p\<lparr>m_connectionPools := ?pools\<rparr>"
  have m: "map_of (m_connectionPools p) peerId = Some (conn # queue)"
    using Cons by (auto split: option.splits)
  have shorter: "length (snd x) \<le> MAX_CONNECTIONS_PER_PEER" if "x \<in> set ?pools" for x
    using um_set_mem [OF that] pool_okD(3) [OF assms(1), of x] pool_okD(3) [OF assms(1) map_of_SomeD [OF m]] by auto
  have pools: "mset (pooled ?pools) = mset (tag peerId queue @ pooled (AList.delete peerId (m_connectionPools p)))"
    by (simp add: pooled_update [OF keys])
  obtain v os1 where v: "isConnectionValid ?f os = (v, os1)" by fastforce
  have own: "owns B e ((peerId, ?f) # pooled ?pools @ L) (set (pooled ?pools)) (m_fdToPeerMap p) os1"
  proof (rule owns_perm [OF owns_valid [OF D v]])
    show "set (pooled ?pools) \<subseteq> set (tag peerId (conn # queue)) \<union> set (pooled (AList.delete peerId (m_connectionPools p)))"
      unfolding mset_eq_setD [OF pools] by auto
  qed (simp add: pools)
  have "?f \<ge> 0" using own by (rule owns_nonneg)
  show ?thesis
  proof (cases v)
    case True
    with assms(2) m v have r: "fd = ?f" "os' = os1" "p' = ?p1" by (auto simp: getConnection_def)
    show ?thesis unfolding r
      by (rule pool_okI [OF own]) (use \<open>?f \<ge> 0\<close> shorter keys in \<open>auto simp: lend_def distinct_update\<close>)
  next
    case False
    let ?p2 = "?p1\<lparr>m_fdToPeerMap := AList.delete ?f (m_fdToPeerMap p)\<rparr>"
    from False assms(2) m v have g: "new_connection peerId host port (?p2, sys_close ?f os1) = (fd, p', os')"
      by (auto simp: getConnection_def)
    have "(peerId, ?f) \<notin> set (pooled ?pools)" using owns_head [OF own, of peerId] by simp
    then have "pool_ok B e ?p2 (sys_close ?f os1) L"
      by (intro pool_okI [OF owns_close [OF own refl]])
        (use shorter keys in \<open>auto simp: distinct_update\<close>)
    then show ?thesis using g by (rule new_connection_ok)
  qed
qed

lemma lent_owned:
  assumes "pool_ok B e p os ((peerId, fd) # L)"
  shows "owns B e ((peerId, fd) # pooled (m_connectionPools p) @ L) (set (pooled (m_connectionPools p))) (m_fdToPeerMap p) os"
  by (rule owns_perm [OF pool_okD(1) [OF assms]]) simp_all

lemma release_registered_ok:
  assumes "pool_ok B e p os ((peerId, fd) # L)" and "releaseConnection now peerId fd (p, os) = (p', os')"
    and reg: "map_of (m_fdToPeerMap p) fd = Some peerId"
  shows "pool_ok B e p' os' L"
proof -
  note ok = assms(1) [unfolded pool_ok_def] and own = lent_owned [OF assms(1)]
  let ?pools = "m_connectionPools p" and ?q = "queue_of peerId (m_connectionPools p)"
  have out: "(peerId, fd) \<notin> set (pooled ?pools)" using owns_head [OF own, of peerId] by simp
  obtain v os1 where v: "isConnectionValid fd os = (v, os1)" by fastforce
  note own1 = owns_valid [OF own v]
  obtain pools1 where idx: "um_index [] peerId ?pools = (?q, pools1)" and q1: "map_of pools1 peerId = Some ?q"
    and d1: "distinct (map fst pools1)" and same: "mset (pooled pools1) = mset (pooled ?pools)"
    and bound1: "\<And>x. x \<in> set pools1 \<Longrightarrow> length (snd x) \<le> MAX_CONNECTIONS_PER_PEER"
    using um_index_queue [of ?pools MAX_CONNECTIONS_PER_PEER peerId] ok by blast
  have closed: "pool_ok B e (p\<lparr>m_fdToPeerMap := AList.delete fd (m_fdToPeerMap p), m_connectionPools := pools\<rparr>)
      (sys_close fd os1) L" if "pools = ?pools \<or> pools = pools1" for pools
    by (rule pool_okI [OF owns_close [OF own1 refl]])
      (use that ok out d1 bound1 same mset_eq_setD [OF same] in auto)
  show ?thesis
  proof (cases "v \<and> length ?q < MAX_CONNECTIONS_PER_PEER")
    case False
    with assms(2) reg v idx closed [of ?pools] closed [of pools1] show ?thesis
      by (auto simp: releaseConnection_def Let_def split: if_splits)
  next
    case True
    let ?conn = "\<lparr>ci_fd = fd, ci_host = [], ci_port = 0, ci_lastUsed = now, ci_inUse = False\<rparr>"
    let ?pools2 = "AList.update peerId (?q @ [?conn]) pools1"
    from True assms(2) reg v idx have r: "p' = p\<lparr>m_connectionPools := ?pools2\<rparr>" "os' = os1"
      by (auto simp: releaseConnection_def)
    from q1 have m2: "mset (pooled ?pools2) = mset ((peerId, fd) # pooled ?pools)"
      using pooled_split [OF d1, of peerId] pooled_update [OF d1, of peerId "?q @ [?conn]"] same by simp
    have "length (snd x) \<le> MAX_CONNECTIONS_PER_PEER" if "x \<in> set ?pools2" for x
      using um_set_mem [OF that] bound1 [of x] True by auto
    with m2 d1 mset_eq_setD [OF m2] show ?thesis unfolding r
      by (intro pool_okI [OF owns_register [OF own1 reg]]) (simp_all add: distinct_update)
  qed
qed

lemma releaseConnection_ok:
  assumes "pool_ok B e p os ((peerId, fd) # L)" and "releaseConnection now peerId fd (p, os) = (p', os')"
  shows "pool_ok B e p' os' L"
proof (cases "map_of (m_fdToPeerMap p) fd = Some peerId")
  case False
  with assms(2) have r: "p' = p" "os' = sys_close fd os" by (auto simp: releaseConnection_def)
  from owns_close_unregistered [OF lent_owned [OF assms(1)] False] assms(1) r show ?thesis by (auto simp: pool_ok_def)
qed (rule release_registered_ok [OF assms])

lemma close_queue_owns:
  "close_queue q (fds, os) = (fds', os') \<Longrightarrow> owns B e (tag k q @ own) reg fds os \<Longrightarrow>
   owns B e own (reg - set (tag k q)) fds' os'"
proof (induction q "(fds, os)" arbitrary: reg fds os rule: close_queue.induct)
  case (2 conn q fds os)
  then have "ci_fd conn \<ge> 0" using owns_nonneg [of B e k "ci_fd conn"] by simp
  moreover from 2(3) have "owns B e (tag k q @ own) (reg - {(k, ci_fd conn)}) (AList.delete (ci_fd conn) fds) (sys_close (ci_fd conn) os)"
    by (intro owns_close) simp_all
  ultimately have "owns B e own (reg - {(k, ci_fd conn)} - set (tag k q)) fds' os'" using 2(1,2) by auto
  moreover have "reg - {(k, ci_fd conn)} - set (tag k q) = reg - set (tag k (conn # q))" by auto
  ultimately show ?case by metis
qed simp

lemma closePeerConnections_ok:
  assumes "pool_ok B e p os L" and "closePeerConnections peerId (p, os) = (p', os')"
  shows "pool_ok B e p' os' L"
proof (cases "map_of (m_connectionPools p) peerId")
  case None
  with assms show ?thesis by (simp add: closePeerConnections_def)
next
  case (Some q)
  let ?rest = "AList.delete peerId (m_connectionPools p)"
  obtain fds os1 where c: "close_queue q (m_fdToPeerMap p, os) = (fds, os1)" by fastforce
  from pool_ok_split [OF assms(1), of peerId] Some
  have own: "owns B e (tag peerId q @ pooled ?rest @ L) (set (tag peerId q) \<union> set (pooled ?rest)) (m_fdToPeerMap p) os"
    by simp
  from own have "set (tag peerId q) \<inter> set (pooled ?rest) = {}" by (auto simp: owns_def rev_image_eqI)
  moreover have r: "p' = p\<lparr>m_connectionPools := ?rest, m_fdToPeerMap := fds\<rparr>" "os' = os1"
    using assms(2) Some c by (simp_all add: closePeerConnections_def)
  ultimately show ?thesis
    unfolding r using pool_okD(2,3) [OF assms(1)] delete_mem [of _ peerId "m_connectionPools p"]
    by (intro pool_okI [OF close_queue_owns [OF c own]]) (auto simp: distinct_delete)
qed

lemma owns_forget: "owns B e own reg fds os \<Longrightarrow> owns B e own {} [] os"
  by (auto simp: owns_def)

lemma stop_queue_owns:
  "owns B e (tag k q @ own) {} [] os \<Longrightarrow>
   owns B e own {} [] (fold (\<lambda>conn os. if ci_fd conn \<ge> 0 then sys_close (ci_fd conn) os else os) q os)"
proof (induction q arbitrary: os)
  case (Cons conn q)
  then have "ci_fd conn \<ge> 0" using owns_nonneg [of B e k "ci_fd conn"] by simp
  moreover have "owns B e (tag k q @ own) ({} - {(k, ci_fd conn)}) [] (sys_close (ci_fd conn) os)"
    using Cons.prems owns_close [of B e k "ci_fd conn" "tag k q @ own" "{}" "[]" os "[]"] by simp
  ultimately show ?case using Cons.IH by simp
qed simp

lemma stop_queues_owns:
  "owns B e (pooled pools @ own) {} [] os \<Longrightarrow> owns B e own {} [] (stop_queues pools os)"
proof (induction pools os rule: stop_queues.induct)
  case (2 k q pools os)
  then show ?case using stop_queue_owns [of B e k q "pooled pools @ own" os] by simp
qed simp

lemma pool_stop_ok:
  assumes "pool_ok B e p os L" and "pool_stop (p, os) = (p', os')"
  shows "pool_ok B e p' os' L"
  using assms stop_queues_owns [OF owns_forget [OF pool_okD(1) [OF assms(1)]]]
  by (auto simp: pool_stop_def pool_ok_def split: if_splits)

lemma cleanup_queue_owns:
  "cleanup_queue now q nq (fds, os) = (nq', fds', os') \<Longrightarrow> reg \<subseteq> set own \<Longrightarrow>
   owns B e (tag k q @ tag k nq @ own) (set (tag k q) \<union> set (tag k nq) \<union> reg) fds os \<Longrightarrow>
   owns B e (tag k nq' @ own) (set (tag k nq') \<union> reg) fds' os' \<and> length nq' \<le> length q + length nq"
proof (induction now q nq "(fds, os)" arbitrary: fds os rule: cleanup_queue.induct)
  case (2 now conn q nq fds os)
  define late where "late \<longleftrightarrow> (now - ci_lastUsed conn) div 1000000000 > CONNECTION_TIMEOUT"
  obtain v os1 where v: "(if late then (False, os) else isConnectionValid (ci_fd conn) os) = (v, os1)"
    by fastforce
  have own: "owns B e (tag k (conn # q) @ tag k nq @ own) (set (tag k (conn # q)) \<union> set (tag k nq) \<union> reg) fds os1"
    using v 2(5) owns_valid by (auto split: if_splits)
  let ?x = "(k, ci_fd conn)"
  show ?case
  proof (cases "late \<or> \<not> v")
    case True
    have "?x \<notin> set (tag k q @ tag k nq @ own)" using own by (intro owns_head) simp
    then have "set (tag k q) \<union> set (tag k nq) \<union> reg \<subseteq> set (tag k (conn # q)) \<union> set (tag k nq) \<union> reg - {?x}"
      using 2(4) by auto
    moreover have "owns B e (tag k q @ tag k nq @ own) (set (tag k (conn # q)) \<union> set (tag k nq) \<union> reg - {?x})
      (AList.delete (ci_fd conn) fds) (sys_close (ci_fd conn) os1)"
      using own by (intro owns_close) simp_all
    ultimately show ?thesis
      using True v 2(1) [OF refl v [symmetric, unfolded late_def]] 2(3,4) owns_perm
      by (auto simp: late_def Let_def)
  next
    case False
    have "owns B e (tag k q @ tag k (nq @ [conn]) @ own) (set (tag k q) \<union> set (tag k (nq @ [conn])) \<union> reg) fds os1"
      by (rule owns_perm [OF own]) auto
    then show ?thesis
      using False v 2(2) [OF refl v [symmetric, unfolded late_def]] 2(3,4) by (auto simp: late_def Let_def)
  qed
qed auto

lemma cleanup_pools_owns:
  "cleanup_pools now pools (fds, os) = (pools', fds', os') \<Longrightarrow> reg \<subseteq> set own \<Longrightarrow>
   owns B e (pooled pools @ own) (set (pooled pools) \<union> reg) fds os \<Longrightarrow>
   \<forall>x \<in> set pools. length (snd x) \<le> n \<Longrightarrow>
   owns B e (pooled pools' @ own) (set (pooled pools') \<union> reg) fds' os' \<and> map fst pools' = map fst pools
     \<and> (\<forall>x \<in> set pools'. length (snd x) \<le> n)"
proof (induction now pools "(fds, os)" arbitrary: fds os pools' own reg rule: cleanup_pools.induct)
  case (2 now k q pools fds os)
  obtain nq fds1 os1 where q: "cleanup_queue now q [] (fds, os) = (nq, fds1, os1)" by (metis prod_cases3)
  obtain rest fds2 os2 where r: "cleanup_pools now pools (fds1, os1) = (rest, fds2, os2)" by (metis prod_cases3)
  from 2(2) q r have res: "pools' = (k, nq) # rest" "fds' = fds2" "os' = os2" by simp_all
  have "owns B e (tag k q @ tag k [] @ pooled pools @ own)
      (set (tag k q) \<union> set (tag k []) \<union> (set (pooled pools) \<union> reg)) fds os"
    by (rule owns_perm [OF 2(4)]) auto
  from cleanup_queue_owns [OF q _ this] 2(3)
  have one: "owns B e (tag k nq @ pooled pools @ own) (set (tag k nq) \<union> (set (pooled pools) \<union> reg)) fds1 os1"
    and len: "length nq \<le> length q" by auto
  have two: "owns B e (pooled pools @ tag k nq @ own) (set (pooled pools) \<union> (set (tag k nq) \<union> reg)) fds1 os1"
    by (rule owns_perm [OF one]) auto
  have sub: "set (tag k nq) \<union> reg \<subseteq> set (tag k nq @ own)" using 2(3) by auto
  have rest: "owns B e (pooled rest @ tag k nq @ own) (set (pooled rest) \<union> (set (tag k nq) \<union> reg)) fds' os'"
      "map fst rest = map fst pools" "\<forall>x \<in> set rest. length (snd x) \<le> n"
    using 2(1) [OF q [symmetric] refl r [folded res(2,3)] sub two] 2(5) by simp_all
  have "owns B e (pooled pools' @ own) (set (pooled pools') \<union> reg) fds' os'"
    by (rule owns_perm [OF rest(1)]) (auto simp: res(1))
  then show ?case using rest(2,3) len 2(5) res(1) by auto
qed simp

lemma cleanup_round_ok:
  assumes "pool_ok B e p os L" and "cleanup_round now (p, os) = (p', os')"
  shows "pool_ok B e p' os' L"
proof (cases "cp_running p")
  case False
  with assms show ?thesis by (simp add: cleanup_round_def)
next
  case True
  obtain pools fds os1 where c: "cleanup_pools now (m_connectionPools p) (m_fdToPeerMap p, os) = (pools, fds, os1)"
    by (metis prod_cases3)
  with True assms(2) have r: "p' = p\<lparr>m_connectionPools := pools, m_fdToPeerMap := fds\<rparr>" "os' = os1"
    by (simp_all add: cleanup_round_def)
  have "owns B e (pooled pools @ L) (set (pooled pools) \<union> {}) fds os1" "map fst pools = map fst (m_connectionPools p)"
    "\<forall>x \<in> set pools. length (snd x) \<le> MAX_CONNECTIONS_PER_PEER"
    using cleanup_pools_owns [OF c, of "{}" L B e MAX_CONNECTIONS_PER_PEER] assms(1) by (auto simp: pool_ok_def)
  with assms(1) r show ?thesis by (auto simp: pool_ok_def)
qed

lemma pool_init_ok:
  "pool_ok (open_fds os) (os_ebadf os) RaftConnectionPool_init os []"
  by (simp add: pool_ok_def owns_def RaftConnectionPool_init_def)

end
