(* ===== verification/Raft_Pool_Properties.thy ===== *)
theory Raft_Pool_Properties
  imports RaftConnectionPool_Inv
begin

text \<open>
  The contract of a source of connections as a locale, the pool as an instance of it, and what
  every sequence of calls on the pool guarantees.
\<close>

section \<open>The contract\<close>

text \<open>
  \<open>inv s L\<close> is the provider's invariant with the loans \<open>L\<close>; \<open>use\<close> is what a borrower may do
  with a descriptor.
\<close>

locale connection_source =
  fixes acquire :: "string \<Rightarrow> string \<Rightarrow> int \<Rightarrow> 's \<Rightarrow> int \<times> 's"
    and return :: "int \<Rightarrow> string \<Rightarrow> int \<Rightarrow> 's \<Rightarrow> 's"
    and use :: "int \<Rightarrow> 's \<Rightarrow> 's \<Rightarrow> bool"
    and inv :: "'s \<Rightarrow> (string \<times> int) list \<Rightarrow> bool"
  assumes acquire_inv: "inv s L \<Longrightarrow> acquire k h p s = (fd, s') \<Longrightarrow> inv s' (lend k fd L)"
    and use_inv: "inv s L \<Longrightarrow> (k, fd) \<in> set L \<Longrightarrow> use fd s s' \<Longrightarrow> inv s' L"
    and return_inv: "inv s ((k, fd) # L) \<Longrightarrow> inv (return t k fd s) L"
begin

text \<open>A borrower that uses the connection and gives it back leaves the provider's books as they were.\<close>

lemma session_inv:
  assumes "inv s L" and "acquire k h p s = (fd, s1)" and "0 \<le> fd" and "use fd s1 s2"
  shows "inv (return t k fd s2) L"
  using acquire_inv [OF assms(1,2)] assms(3) use_inv [OF _ _ assms(4), of "(k, fd) # L" k] return_inv
  by (simp add: lend_def)

lemma failed_session_inv: "inv s L \<Longrightarrow> acquire k h p s = (fd, s') \<Longrightarrow> fd < 0 \<Longrightarrow> inv s' L"
  using acquire_inv by (fastforce simp: lend_def)

end

text \<open>Sending and receiving change what a connection carries, not which descriptors are open.\<close>

definition traffic :: "int \<Rightarrow> RaftConnectionPool \<times> net_os \<Rightarrow> RaftConnectionPool \<times> net_os \<Rightarrow> bool" where
  "traffic fd s s' \<longleftrightarrow> fst s' = fst s \<and> open_fds (snd s') = open_fds (snd s) \<and> os_ebadf (snd s') = os_ebadf (snd s)"

lemma pool_ok_traffic:
  "pool_ok B e p os L \<Longrightarrow> open_fds os' = open_fds os \<Longrightarrow> os_ebadf os' = os_ebadf os \<Longrightarrow> pool_ok B e p os' L"
  by (auto simp: pool_ok_def intro: owns_frame)

interpretation pool: connection_source getConnection releaseConnection traffic "\<lambda>s. pool_ok B e (fst s) (snd s)"
proof (unfold_locales, goal_cases)
  case (1 s L k h p fd s')
  then show ?case using getConnection_ok [of B e "fst s" "snd s"] by (cases s') simp
next
  case (2 s L k fd s')
  then show ?case by (auto simp: traffic_def intro: pool_ok_traffic)
next
  case (3 s k fd L t)
  then show ?case
    using releaseConnection_ok [of B e "fst s" "snd s"] by (metis prod.collapse)
qed

section \<open>Reachable states\<close>

text \<open>
  The states of a pool, its operating system and its loans after any sequence of calls, of
  traffic on the connections and of rounds of the cleanup thread.
\<close>

inductive pool_reach :: "net_os \<Rightarrow> RaftConnectionPool \<times> net_os \<Rightarrow> (string \<times> int) list \<Rightarrow> bool" for os0 where
  init: "pool_reach os0 (RaftConnectionPool_init, os0) []"
| get: "pool_reach os0 s L \<Longrightarrow> getConnection k h port s = (fd, s') \<Longrightarrow> pool_reach os0 s' (lend k fd L)"
| release: "pool_reach os0 s ((k, fd) # L) \<Longrightarrow> pool_reach os0 (releaseConnection now k fd s) L"
| exchange: "pool_reach os0 s L \<Longrightarrow> mset L' = mset L \<Longrightarrow> pool_reach os0 s L'"
| close_peer: "pool_reach os0 s L \<Longrightarrow> pool_reach os0 (closePeerConnections k s) L"
| start: "pool_reach os0 (p, os) L \<Longrightarrow> pool_reach os0 (pool_start p, os) L"
| stop: "pool_reach os0 s L \<Longrightarrow> pool_reach os0 (pool_stop s) L"
| cleanup: "pool_reach os0 s L \<Longrightarrow> pool_reach os0 (cleanup_round now s) L"
| io: "pool_reach os0 s L \<Longrightarrow> traffic fd s s' \<Longrightarrow> pool_reach os0 s' L"

lemma pool_ok_perm: "pool_ok B e p os L \<Longrightarrow> mset L' = mset L \<Longrightarrow> pool_ok B e p os L'"
  unfolding pool_ok_def by (auto elim!: owns_perm)

lemma pool_reach_ok: "pool_reach os0 s L \<Longrightarrow> pool_ok (open_fds os0) (os_ebadf os0) (fst s) (snd s) L"
proof (induction rule: pool_reach.induct)
  case init
  show ?case using pool_init_ok by simp
next
  case (get s L k h port fd s')
  then show ?case using pool.acquire_inv by blast
next
  case (release s k fd L now)
  then show ?case using pool.return_inv by blast
next
  case (exchange s L L')
  then show ?case using pool_ok_perm by blast
next
  case (close_peer s L k)
  then show ?case using closePeerConnections_ok [of _ _ "fst s" "snd s" L] by (metis prod.collapse)
next
  case (start p os L)
  then show ?case by (simp add: pool_ok_def pool_start_def)
next
  case (stop s L)
  then show ?case using pool_stop_ok [of _ _ "fst s" "snd s" L] by (metis prod.collapse)
next
  case (cleanup s L now)
  then show ?case using cleanup_round_ok [of _ _ "fst s" "snd s" L] by (metis prod.collapse)
next
  case (io s L fd s')
  then show ?case by (auto simp: traffic_def intro: pool_ok_traffic)
qed

section \<open>Properties\<close>

text \<open>
  C18. After any sequence of calls on the connection pool, of traffic and of cleanup rounds: the
  open descriptors are those that were open before plus, each once, the pooled and the lent ones;
  no call of \<open>close\<close> has hit a descriptor that was not open; a pooled descriptor is registered
  for its peer; and no queue holds more than five connections.
\<close>

theorem pool_descriptors_accounted:
  assumes "pool_reach os0 (p, os) L"
  shows "open_fds os = open_fds os0 \<union> snd ` set (pooled (m_connectionPools p) @ L)
    \<and> open_fds os0 \<inter> snd ` set (pooled (m_connectionPools p) @ L) = {}
    \<and> distinct (map snd (pooled (m_connectionPools p) @ L))
    \<and> os_ebadf os = os_ebadf os0
    \<and> (\<forall>x \<in> set (pooled (m_connectionPools p)). map_of (m_fdToPeerMap p) (snd x) = Some (fst x))
    \<and> (\<forall>x \<in> set (m_connectionPools p). length (snd x) \<le> MAX_CONNECTIONS_PER_PEER)"
  using pool_reach_ok [OF assms] by (simp add: pool_ok_def owns_def)

text \<open>A network on which one call of \<open>connect\<close> after a failed one succeeds.\<close>

definition one_dial :: net_os where
  "one_dial = \<lparr>os_desc = [], os_limit = 8, os_pton = (\<lambda>_. True),
     os_dial = [None, Some \<lparr>rx_buf = [], rx_next = [Arrives [], Arrives []], tx_out = [], tx_room = []\<rparr>], os_ebadf = 0, os_gone = []\<rparr>"

definition one_pooled :: "RaftConnectionPool \<times> net_os" where
  "one_pooled = releaseConnection 7 ''b'' 3
     (snd (getConnection ''b'' ''10.0.0.2'' 8081 (pool_start RaftConnectionPool_init, one_dial)))"

lemmas pool_eval = getConnection_def new_connection_def createConnection_def sys_socket_def lowest_free_def
  sys_connect_def releaseConnection_def isConnectionValid_def sys_peek_def on_sock_def peek_sock_def um_index_def
  MAX_CONNECTIONS_PER_PEER_def RaftConnectionPool_init_def pool_start_def one_dial_def numeral_3_eq_3

lemma one_get:
  "getConnection ''b'' ''10.0.0.2'' 8081 (pool_start RaftConnectionPool_init, one_dial)
   = (3, snd (getConnection ''b'' ''10.0.0.2'' 8081 (pool_start RaftConnectionPool_init, one_dial)))"
  by (simp add: pool_eval)

lemma one_pooled_reach: "pool_reach one_dial one_pooled []"
proof -
  have "pool_reach one_dial (pool_start RaftConnectionPool_init, one_dial) []"
    by (rule pool_reach.start [OF pool_reach.init])
  from pool_reach.get [OF this one_get]
  show ?thesis unfolding one_pooled_def by (intro pool_reach.release) (simp add: lend_def)
qed

lemma one_pooled_pools:
  "pooled (m_connectionPools (fst one_pooled)) = [(''b'', 3)]" "cp_running (fst one_pooled)"
  by (simp_all add: one_pooled_def pool_eval pooled_def tag_def)

theorem pool_descriptors_accounted_witness:
  "open_fds (snd one_pooled) = {3} \<and> os_ebadf (snd one_pooled) = 0"
  using pool_descriptors_accounted [of one_dial "fst one_pooled" "snd one_pooled" "[]"] one_pooled_reach
    one_pooled_pools by (simp add: open_fds_def one_dial_def)

lemma pool_stop_balanced:
  assumes "pool_reach os0 (p, os) []" and "cp_running p" and "pool_stop (p, os) = (p', os')"
  shows "open_fds os' = open_fds os0 \<and> os_ebadf os' = os_ebadf os0
    \<and> m_connectionPools p' = [] \<and> m_fdToPeerMap p' = [] \<and> \<not> cp_running p'"
proof -
  from assms(2,3) have r: "p' = p\<lparr>cp_running := False, m_connectionPools := [], m_fdToPeerMap := []\<rparr>"
    by (simp add: pool_stop_def)
  from pool_reach.stop [OF assms(1)] assms(3) have "pool_reach os0 (p', os') []" by simp
  from pool_reach_ok [OF this] r show ?thesis by (simp add: pool_ok_def owns_def)
qed

text \<open>
  Stopping a running pool whose loans have all been given back closes every connection it
  opened: the open descriptors are again those from before, and the pool is empty.
\<close>

theorem pool_stop_closes_all:
  assumes "pool_reach os0 (p, os) []" and "cp_running p" and "pool_stop (p, os) = (p', os')"
  shows "open_fds os' = open_fds os0 \<and> os_ebadf os' = os_ebadf os0
    \<and> m_connectionPools p' = [] \<and> m_fdToPeerMap p' = [] \<and> \<not> cp_running p'"
  using assms by (rule pool_stop_balanced)

theorem pool_stop_closes_all_witness:
  "open_fds (snd (pool_stop one_pooled)) = {} \<and> m_connectionPools (fst (pool_stop one_pooled)) = []"
  using pool_stop_closes_all [of one_dial "fst one_pooled" "snd one_pooled" "fst (pool_stop one_pooled)"
      "snd (pool_stop one_pooled)"] one_pooled_reach one_pooled_pools
  by (simp add: open_fds_def one_dial_def)

lemma connect_attempts_result:
  "connect_attempts n fd a os = (r, os') \<Longrightarrow> length (os_dial os) \<le> length (os_dial os') + n
   \<and> (r \<longrightarrow> (\<exists>s. Some s \<in> set (take n (os_dial os)) \<and> map_of (os_desc os') fd = Some \<lparr>d_addr = Some a, d_sock = s\<rparr>))"
proof (induction n fd a os rule: connect_attempts.induct)
  case (2 n fd a os)
  then show ?case
    by (auto simp: sys_connect_def split: list.splits option.splits) fastforce+
qed simp

text \<open>
  \<open>createConnection\<close> either returns a descriptor that was not open before and is now
  connected to the host and the low 16 bits of the port, or it returns -1 and leaves the table of
  descriptors as it was; it calls \<open>connect\<close> at most three times, and a host text that
  \<open>inet_pton\<close> refuses is an error without any call of \<open>connect\<close>.
\<close>

theorem createConnection_result:
  assumes "createConnection host port os = (fd, os')"
  shows "(fd = -1 \<and> open_fds os' = open_fds os
      \<or> 3 \<le> fd \<and> fd \<notin> open_fds os \<and> open_fds os' = insert fd (open_fds os)
        \<and> (\<exists>s. map_of (os_desc os') fd = Some \<lparr>d_addr = Some (host, of_int port), d_sock = s\<rparr>))
    \<and> os_ebadf os' = os_ebadf os \<and> length (os_dial os) \<le> length (os_dial os') + 3
    \<and> (os_pton os host \<or> fd = -1 \<and> os_dial os' = os_dial os)"
proof -
  obtain f os1 where s: "sys_socket os = (f, os1)" by fastforce
  then have dial: "os_dial os1 = os_dial os" and pton: "os_pton os1 = os_pton os"
    by (auto simp: sys_socket_def Let_def split: if_splits)
  obtain c os2 where a: "connect_attempts 3 f (host, of_int port) os1 = (c, os2)" by fastforce
  note att = connect_attempts_result [OF a] and cases = createConnection_cases [OF assms]
  have close: "os_dial (sys_close x os) = os_dial os" for x os by (simp add: sys_close_def)
  show ?thesis
  proof (cases "f < 0 \<or> \<not> os_pton os1 host \<or> \<not> c")
    case True
    then have "fd = -1" "length (os_dial os) \<le> length (os_dial os') + 3"
      "os_pton os host \<or> os_dial os' = os_dial os"
      using assms s a att dial pton by (auto simp: createConnection_def close split: if_splits)
    with cases show ?thesis by auto
  next
    case False
    then have "fd = f" "os' = os2" using assms s a by (auto simp: createConnection_def)
    with False cases att dial pton show ?thesis by auto
  qed
qed

theorem createConnection_result_witness:
  "open_fds (snd (createConnection ''10.0.0.2'' 8081 one_dial)) = {3}
   \<and> d_addr (the (map_of (os_desc (snd (createConnection ''10.0.0.2'' 8081 one_dial))) 3)) = Some (''10.0.0.2'', 8081)"
proof -
  have "createConnection ''10.0.0.2'' 8081 one_dial = (3, snd (createConnection ''10.0.0.2'' 8081 one_dial))"
    by (simp add: pool_eval)
  from createConnection_result [OF this] show ?thesis by (auto simp: open_fds_def one_dial_def)
qed

end
