(* ===== verification/Raft_Rpc.thy ===== *)
theory Raft_Rpc
  imports Raft_Wire YoloCodec Raft_Cluster Raft_Pool_Properties
begin

text \<open>
  The calling side of the Raft messages: \<open>RaftNode::sendRequestVote\<close> and
  \<open>RaftNode::sendAppendEntries\<close> on the connection pool, the operating system and the JSON library,
  and the start and stop of a node.
\<close>

section \<open>Operations\<close>

text \<open>
  The two functions are the same text up to the message and the fields of the reply. \<open>Ret None\<close>
  is the result false. The connection is borrowed before the message is built, and an exception of
  \<open>dump\<close> leaves the function with it.
\<close>

type_synonym pool_os = "RaftConnectionPool \<times> net_os"

definition read_reply :: "'f json_lib \<Rightarrow> ('f json \<Rightarrow> 'r outcome) \<Rightarrow> string \<Rightarrow> 'r option outcome" where
  "read_reply js of_json response =
     (case payload_of response of
        None \<Rightarrow> Ret None
      | Some payload \<Rightarrow>
          catching (obind (obind (opt_throw (js_parse js payload)) of_json) (\<lambda>r. Ret (Some r))) (Ret None))"

definition sendRpc ::
  "'f json_lib \<Rightarrow> int \<Rightarrow> RaftNode \<Rightarrow> string \<Rightarrow> string outcome \<Rightarrow> ('f json \<Rightarrow> 'r outcome) \<Rightarrow> pool_os
   \<Rightarrow> 'r option outcome \<times> pool_os" where
  "sendRpc js now node peerId msg of_json st =
     (case map_of (m_peerAddresses node) peerId of
        None \<Rightarrow> (Ret None, st)
      | Some (host, port) \<Rightarrow>
          (let (fd, p, os) = getConnection peerId host port st in
           if fd < 0 then (Ret None, p, os)
           else
             (case msg of
                Throws \<Rightarrow> (Throws, p, os)
              | Undef \<Rightarrow> (Undef, p, os)
              | Ret text \<Rightarrow>
                  (let (sent, os1) = send_on fd text os in
                   if \<not> sent then (Ret None, releaseConnection now peerId fd (p, os1))
                   else
                     (let ((received, response), os2) = recv_on fd [] os1 in
                      if \<not> received then (Ret None, releaseConnection now peerId fd (p, os2))
                      else (read_reply js of_json response, releaseConnection now peerId fd (p, os2)))))))"

definition sendRequestVote ::
  "'f json_lib \<Rightarrow> int \<Rightarrow> RaftNode \<Rightarrow> string \<Rightarrow> RequestVoteArgs \<Rightarrow> pool_os \<Rightarrow> RequestVoteReply option outcome \<times> pool_os" where
  "sendRequestVote js now node peerId args =
     sendRpc js now node peerId (message js ''RAFT_REQUEST_VOTE'' (rv_json args)) (rvr_of_json js)"

definition sendAppendEntries ::
  "'f json_lib \<Rightarrow> int \<Rightarrow> RaftNode \<Rightarrow> string \<Rightarrow> AppendEntriesArgs \<Rightarrow> pool_os \<Rightarrow> AppendEntriesReply option outcome \<times> pool_os" where
  "sendAppendEntries js now node peerId args =
     sendRpc js now node peerId (message js ''RAFT_APPEND_ENTRIES'' (ae_json args)) (aer_of_json js)"

section \<open>The network of a node\<close>

text \<open>
  The calls as the transport of \<open>startElection\<close> and \<open>heartbeatLoop\<close>. Nothing in the two threads
  catches an exception: after one the program is gone, which is the world \<open>Throws\<close>.
\<close>

fun transport :: "(pool_os \<Rightarrow> 'r option outcome \<times> pool_os) \<Rightarrow> pool_os outcome \<Rightarrow> 'r option \<times> pool_os outcome" where
  "transport call (Ret st) = (case call st of
     (Ret r, st') \<Rightarrow> (r, Ret st') | (Throws, st') \<Rightarrow> (None, Throws) | (Undef, st') \<Rightarrow> (None, Undef))"
| "transport call w = (None, w)"

definition rv_network :: "'f json_lib \<Rightarrow> int \<Rightarrow> RaftNode \<Rightarrow> pool_os outcome rv_send" where
  "rv_network js now node peerId args = transport (sendRequestVote js now node peerId args)"

definition ae_network :: "'f json_lib \<Rightarrow> int \<Rightarrow> RaftNode \<Rightarrow> pool_os outcome ae_send" where
  "ae_network js now node peerId args = transport (sendAppendEntries js now node peerId args)"

section \<open>Start and stop\<close>

text \<open>The flag \<open>m_running\<close> and the threads of a node, beside its pool.\<close>

record raft_threads =
  rn_running :: bool
  rn_electionThread :: bool
  rn_heartbeatThread :: bool

definition raft_threads_init :: raft_threads where
  "raft_threads_init = \<lparr>rn_running = False, rn_electionThread = False, rn_heartbeatThread = False\<rparr>"

definition raft_start :: "raft_threads \<times> pool_os \<Rightarrow> raft_threads \<times> pool_os" where
  "raft_start = (\<lambda>(th, p, os).
     if rn_running th then (th, p, os)
     else (th\<lparr>rn_running := True, rn_electionThread := True, rn_heartbeatThread := True\<rparr>, pool_start p, os))"

text \<open>\<open>join\<close> returns: both loops test \<open>m_running\<close> in every round.\<close>

definition raft_stop :: "raft_threads \<times> pool_os \<Rightarrow> raft_threads \<times> pool_os" where
  "raft_stop = (\<lambda>(th, p, os).
     if \<not> rn_running th then (th, p, os)
     else (th\<lparr>rn_running := False, rn_electionThread := False, rn_heartbeatThread := False\<rparr>, pool_stop (p, os)))"

text \<open>The destructor: \<open>stop\<close>, and then the destructor of the pool, which the node alone owns.\<close>

definition RaftNode_destroy :: "raft_threads \<times> pool_os \<Rightarrow> raft_threads \<times> pool_os" where
  "RaftNode_destroy st = (let (th, p_os) = raft_stop st in (th, RaftConnectionPool_destroy p_os))"

section \<open>Lemmas\<close>

lemma send_on_traffic: "send_on fd m os = (r, os') \<Longrightarrow> traffic fd (p, os) (p, os')"
  using send_on_frame by (auto simp: traffic_def)

lemma recv_on_traffic: "recv_on fd b os = (r, os') \<Longrightarrow> traffic fd (p, os) (p, os')"
  using recv_on_frame by (auto simp: traffic_def)

text \<open>Whatever a call does, it has given its connection back unless building the message failed.\<close>

lemma sendRpc_books:
  assumes "pool_reach os0 st L" and "sendRpc js now node peerId msg of_json st = (r, st')" and "msg \<noteq> Undef"
  shows "pool_reach os0 st' L \<or> msg = Throws \<and> r = Throws \<and> (\<exists>fd \<ge> 0. pool_reach os0 st' ((peerId, fd) # L))"
proof (cases "map_of (m_peerAddresses node) peerId")
  case (Some a)
  obtain host port where a: "a = (host, port)" by fastforce
  obtain fd p os where g: "getConnection peerId host port st = (fd, p, os)" by (metis prod_cases3)
  from pool_reach.get [OF assms(1) g] have lent: "pool_reach os0 (p, os) (lend peerId fd L)" .
  show ?thesis
  proof (cases "fd < 0")
    case True
    with assms(2) Some a g lent show ?thesis by (simp add: sendRpc_def lend_def)
  next
    case False
    with lent have lent: "pool_reach os0 (p, os) ((peerId, fd) # L)" by (simp add: lend_def)
    show ?thesis
    proof (cases msg)
      case (Ret body)
      obtain sent os1 where s: "send_on fd body os = (sent, os1)" by fastforce
      obtain received response os2 where rc: "recv_on fd [] os1 = ((received, response), os2)"
        by (metis prod.collapse)
      have "pool_reach os0 (p, os1) ((peerId, fd) # L)"
        using pool_reach.io [OF lent send_on_traffic [OF s]] .
      note after = this pool_reach.io [OF this recv_on_traffic [OF rc]]
      from after [THEN pool_reach.release] assms(2) Some a g False Ret s rc show ?thesis
        by (auto simp: sendRpc_def split: if_splits)
    qed (use assms(2,3) Some a g False lent in \<open>auto simp: sendRpc_def\<close>)
  qed
qed (use assms in \<open>simp add: sendRpc_def\<close>)

lemma message_not_Undef [simp]: "message js word j \<noteq> Undef"
  by (simp add: message_cases split: option.splits)

lemma sendRpc_Ret_books:
  assumes "pool_reach os0 st L" and "sendRpc js now node peerId (message js word j) of_json st = (Ret r, st')"
  shows "pool_reach os0 st' L"
  using sendRpc_books [OF assms] by simp

text \<open>A started node owns a running pool; stopping it closes what the pool has opened.\<close>

lemma raft_start_reach: "pool_reach os (snd (raft_start (raft_threads_init, RaftConnectionPool_init, os))) []"
  using pool_reach.start [OF pool_reach.init] by (simp add: raft_start_def raft_threads_init_def)

lemma raft_stop_balanced:
  assumes "rn_running th" and "pool_reach os0 (p, os) []" and "cp_running p" and "raft_stop (th, p, os) = (th', p', os')"
  shows "open_fds os' = open_fds os0 \<and> os_ebadf os' = os_ebadf os0 \<and> \<not> rn_running th'"
proof -
  from assms(1,4) have "pool_stop (p, os) = (p', os')" and "\<not> rn_running th'" by (auto simp: raft_stop_def)
  with pool_stop_balanced [OF assms(2,3)] show ?thesis by blast
qed

text \<open>The destructor of a node that has been stopped does nothing more.\<close>

lemma RaftNode_destroy_stopped:
  assumes "rn_running th" and "cp_running p"
  shows "RaftNode_destroy (raft_stop (th, p, os)) = raft_stop (th, p, os)"
  using assms by (simp add: RaftNode_destroy_def raft_stop_def RaftConnectionPool_destroy_def pool_stop_def)

text \<open>An invariant of the connections is kept by an election and a round of heartbeats.\<close>

lemma election_loop_world:
  assumes "\<And>p w r w'. P w \<Longrightarrow> send p args w = (r, w') \<Longrightarrow> P w'"
  shows "P w \<Longrightarrow> election_loop send args peers votes s w = (res, w') \<Longrightarrow> P w'"
proof (induction peers arbitrary: votes s w)
  case (Cons p peers)
  obtain r w1 where r: "send p args w = (r, w1)" by fastforce
  from assms [OF Cons.prems(1) r] Cons.IH [of w1] Cons.prems(2) r show ?case
    by (auto split: option.splits if_splits)
qed simp

lemma startElection_world:
  assumes "\<And>p a w r w'. P w \<Longrightarrow> send p a w = (r, w') \<Longrightarrow> P w'"
    and "P w" and "startElection send t s w = Some (s', w')"
  shows "P w'"
  using assms(3) election_loop_world [of P send, OF assms(1) assms(2)]
  by (auto simp: startElection_def Let_def split: option.splits prod.splits if_splits)

lemma heartbeat_peer_world:
  assumes "\<And>a r w'. P w \<Longrightarrow> send p a w = (r, w') \<Longrightarrow> P w'"
    and "P w" and "heartbeat_peer send put p s w d = Some (b, s', w', d')"
  shows "P w'"
  using assms(3) assms(1) [OF assms(2)]
  by (auto simp: heartbeat_peer_def Let_def split: option.splits prod.splits if_splits)

lemma heartbeat_peers_world:
  assumes "\<And>p a w r w'. P w \<Longrightarrow> send p a w = (r, w') \<Longrightarrow> P w'"
  shows "P w \<Longrightarrow> heartbeat_peers send put peers s w d = Some (s', w', d') \<Longrightarrow> P w'"
proof (induction peers arbitrary: s w d)
  case (Cons p peers)
  from Cons.prems(2) obtain b s1 w1 d1 where h: "heartbeat_peer send put p s w d = Some (b, s1, w1, d1)"
    by (auto split: option.splits)
  have "P w1" using heartbeat_peer_world [of P w send p, OF assms Cons.prems(1) h] .
  with Cons.IH [OF this] Cons.prems(2) h show ?case by (cases b) auto
qed simp

text \<open>Reading a message that is there, while more may be arriving.\<close>

lemma recv_sys_segments:
  assumes "rx_buf s \<noteq> []" and "rx_next s = map Arrives segs"
  shows "\<exists>more segs'. recv_sys n s = (int (length (take n (rx_buf s @ more))), take n (rx_buf s @ more),
    s\<lparr>rx_buf := drop n (rx_buf s @ more), rx_next := map Arrives segs'\<rparr>)"
proof (cases segs)
  case Nil
  then show ?thesis using assms by (intro exI [of _ "[]"]) (simp add: recv_sys_def)
next
  case (Cons bs segs')
  then show ?thesis using assms by (intro exI [of _ bs] exI [of _ segs']) (simp add: recv_sys_def Let_def)
qed

lemma recvMessage_segments:
  assumes "m \<noteq> []" and "length m \<le> 1048576" and "rx_buf s = frame_bytes m @ rest" and "rx_next s = map Arrives segs"
  shows "\<exists>s'. recvMessage s out = (True, m, s')"
proof -
  have len: "take 4 (frame_header (of_nat (length m)) @ m @ x) = frame_header (of_nat (length m))"
    "drop 4 (frame_header (of_nat (length m)) @ m @ x) = m @ x" for x by simp_all
  obtain more segs1 where r1: "recv_sys 4 s = (4, frame_header (of_nat (length m)),
      s\<lparr>rx_buf := m @ rest @ more, rx_next := map Arrives segs1\<rparr>)"
    using recv_sys_segments [of s segs 4] assms(3,4) by (auto simp: frame_bytes_def len)
  define s1 where "s1 = s\<lparr>rx_buf := m @ rest @ more, rx_next := map Arrives segs1\<rparr>"
  obtain s2 where r2: "recv_sys (length m) s1 = (int (length m), m, s2)"
    using recv_sys_segments [of s1 segs1 "length m"] assms(1) by (auto simp: s1_def)
  show ?thesis
    using r1 r2 message_length_ok [OF assms(1,2)] assms(1)
    by (auto simp: recvMessage_def Let_def vec_resize_def simp flip: s1_def)
qed

text \<open>The connection behind a descriptor.\<close>

definition conn_is :: "net_os \<Rightarrow> int \<Rightarrow> socket \<Rightarrow> bool" where
  "conn_is os fd s \<longleftrightarrow> (\<exists>d. map_of (os_desc os) fd = Some d \<and> d_sock d = s)"

lemma on_sock_conn:
  assumes "conn_is os fd s" and "f s = (r, s')"
  shows "\<exists>os'. on_sock fd f bad os = (r, os') \<and> conn_is os' fd s'"
  using assms by (auto simp: conn_is_def on_sock_def)

lemma send_on_conn:
  assumes "conn_is os fd s" and "tx_room s = []"
  shows "\<exists>os'. send_on fd m os = (True, os') \<and> conn_is os' fd (s\<lparr>tx_out := tx_out s @ frame_bytes m\<rparr>)"
  unfolding send_on_def by (rule on_sock_conn [OF assms(1)]) (simp add: sendMessage_room assms(2))

lemma recv_on_conn:
  assumes "conn_is os fd s" and "recvMessage s out = (ok, m, s')"
  shows "\<exists>os'. recv_on fd out os = ((ok, m), os') \<and> conn_is os' fd s'"
  unfolding recv_on_def by (rule on_sock_conn [OF assms(1)]) (simp add: assms(2))

lemma valid_conn:
  assumes "conn_is os fd s" and "0 \<le> fd" and "rx_next s = Arrives bs # evs"
  shows "\<exists>os'. isConnectionValid fd os = (True, os') \<and> conn_is os' fd (s\<lparr>rx_buf := rx_buf s @ bs, rx_next := evs\<rparr>)"
  using on_sock_conn [OF assms(1), of peek_sock _ _ PeekError] assms(2,3)
  by (force simp: isConnectionValid_def sys_peek_def peek_sock_def split: if_splits)

lemma createConnection_dials:
  assumes "length (os_desc os) < os_limit os" and "os_pton os host" and "os_dial os = Some s # ds"
  shows "\<exists>fd os'. createConnection host port os = (fd, os') \<and> 0 \<le> fd \<and> conn_is os' fd s"
  using assms lowest_free_pos [of "map fst (os_desc os)"]
  by (simp add: createConnection_def sys_socket_def sys_connect_def Let_def eval_nat_numeral conn_is_def)


text \<open>
  A call that finds no reply yet puts its connection in the queue; a call on a queued connection
  returns the first message it finds there.
\<close>

lemma sendRpc_no_reply_yet:
  assumes "map_of (m_peerAddresses node) peerId = Some (host, port)"
    and "map_of (m_connectionPools p0) peerId = None" and "createConnection host port os0 = (fd, os)" and "0 \<le> fd"
    and "conn_is os fd s" and "tx_room s = []" and "rx_buf s = []" and "rx_next s = Arrives [] # Arrives [] # evs"
  shows "\<exists>p' os' conn s'. sendRpc js now node peerId (Ret m) of_json (p0, os0) = (Ret None, p', os')
    \<and> map_of (m_connectionPools p') peerId = Some [conn] \<and> ci_fd conn = fd \<and> conn_is os' fd s'
    \<and> tx_room s' = [] \<and> rx_buf s' = [] \<and> rx_next s' = evs"
proof -
  let ?p = "p0\<lparr>m_fdToPeerMap := AList.update fd peerId (m_fdToPeerMap p0)\<rparr>"
  have g: "getConnection peerId host port (p0, os0) = (fd, ?p, os)"
    using assms(2-4) by (simp add: getConnection_def new_connection_def)
  obtain os1 where s1: "send_on fd m os = (True, os1)" "conn_is os1 fd (s\<lparr>tx_out := tx_out s @ frame_bytes m\<rparr>)"
    using send_on_conn [OF assms(5,6)] by blast
  let ?s2 = "s\<lparr>tx_out := tx_out s @ frame_bytes m, rx_next := Arrives [] # evs\<rparr>"
  obtain os2 where s2: "recv_on fd [] os1 = ((False, []), os2)" "conn_is os2 fd ?s2"
    using recv_on_conn [OF s1(2), of "[]" False "[]" ?s2] assms(7,8)
    by (auto simp: recvMessage_def recv_sys_def)
  obtain os3 where s3: "isConnectionValid fd os2 = (True, os3)" "conn_is os3 fd (?s2\<lparr>rx_buf := [], rx_next := evs\<rparr>)"
    using valid_conn [OF s2(2) assms(4), of "[]" evs] assms(7) by auto
  let ?c = "\<lparr>ci_fd = fd, ci_host = [], ci_port = 0, ci_lastUsed = now, ci_inUse = False\<rparr>"
  have "\<exists>p'. releaseConnection now peerId fd (?p, os2) = (p', os3) \<and> map_of (m_connectionPools p') peerId = Some [?c]"
    using s3(1) assms(2) by (simp add: releaseConnection_def MAX_CONNECTIONS_PER_PEER_def um_index_def Let_def)
  then obtain p' where "releaseConnection now peerId fd (?p, os2) = (p', os3)"
    and "map_of (m_connectionPools p') peerId = Some [?c]" by blast
  moreover from this have "sendRpc js now node peerId (Ret m) of_json (p0, os0) = (Ret None, p', os3)"
    using assms(1,4) g s1(1) s2(1) by (simp add: sendRpc_def)
  ultimately show ?thesis using s3(2) assms(6)
    by (intro exI [of _ p'] exI [of _ os3] exI [of _ ?c] exI [of _ "?s2\<lparr>rx_buf := [], rx_next := evs\<rparr>"]) simp
qed

lemma sendRpc_checked:
  assumes "map_of (m_peerAddresses node) peerId = Some (host, port)"
    and "map_of (m_connectionPools p) peerId = Some (conn # queue)" and "0 \<le> ci_fd conn"
    and "isConnectionValid (ci_fd conn) os = (True, os1)" and "conn_is os1 (ci_fd conn) s"
    and "tx_room s = []" and "\<exists>s'. recvMessage (s\<lparr>tx_out := tx_out s @ frame_bytes m\<rparr>) [] = (True, reply, s')"
  shows "\<exists>st'. sendRpc js now node peerId (Ret m) of_json (p, os) = (read_reply js of_json reply, st')"
proof -
  let ?p = "p\<lparr>m_connectionPools := AList.update peerId queue (m_connectionPools p)\<rparr>"
  have g: "getConnection peerId host port (p, os) = (ci_fd conn, ?p, os1)"
    using assms(2,4) by (simp add: getConnection_def Let_def)
  obtain os2 where s: "send_on (ci_fd conn) m os1 = (True, os2)"
    "conn_is os2 (ci_fd conn) (s\<lparr>tx_out := tx_out s @ frame_bytes m\<rparr>)"
    using send_on_conn [OF assms(5,6)] by auto
  with assms(7) recv_on_conn [OF s(2)] obtain os3 where "recv_on (ci_fd conn) [] os2 = ((True, reply), os3)" by blast
  with assms(1,3) g s(1) show ?thesis by (simp add: sendRpc_def)
qed

lemma sendRpc_reads_first:
  assumes "map_of (m_peerAddresses node) peerId = Some (host, port)"
    and "map_of (m_connectionPools p) peerId = Some (conn # queue)" and "0 \<le> ci_fd conn"
    and "conn_is os (ci_fd conn) s" and "tx_room s = []" and "rx_next s = Arrives bs # map Arrives segs"
    and "rx_buf s @ bs = frame_bytes reply @ rest" and "reply \<noteq> []" and "length reply \<le> 1048576"
  shows "\<exists>st'. sendRpc js now node peerId (Ret m) of_json (p, os) = (read_reply js of_json reply, st')"
proof -
  let ?s1 = "s\<lparr>rx_buf := rx_buf s @ bs, rx_next := map Arrives segs\<rparr>"
  obtain os1 where v: "isConnectionValid (ci_fd conn) os = (True, os1)" "conn_is os1 (ci_fd conn) ?s1"
    using valid_conn [OF assms(4,3,6)] by blast
  have "\<exists>s'. recvMessage (?s1\<lparr>tx_out := tx_out ?s1 @ frame_bytes m\<rparr>) [] = (True, reply, s')"
    by (rule recvMessage_segments [OF assms(8,9)]) (simp_all add: assms(7))
  with assms(5) show ?thesis by (intro sendRpc_checked [OF assms(1-3) v]) simp_all
qed

text \<open>
  What a call writes. The line it used is back in the pool or has been closed; \<open>line_wrote\<close>: since the
  state \<open>os\<close>, in which it was as \<open>d\<close>, exactly the given bytes were written on it.
\<close>

definition line_wrote :: "net_os \<Rightarrow> net_os \<Rightarrow> int \<Rightarrow> desc \<Rightarrow> bytes \<Rightarrow> bool" where
  "line_wrote os os' fd d bs \<longleftrightarrow>
     (\<exists>d'. (map_of (os_desc os') fd = Some d' \<or> os_gone os' = os_gone os @ [d'])
       \<and> d_addr d' = d_addr d \<and> tx_out (d_sock d') = tx_out (d_sock d) @ bs)"

lemma recvMessage_tx: "recvMessage s out = (ok, m, s') \<Longrightarrow> tx_out s' = tx_out s \<and> tx_room s' = tx_room s"
proof -
  have tx: "recv_sys n s = (k, b, s') \<Longrightarrow> tx_out s' = tx_out s \<and> tx_room s' = tx_room s" for n k b s s'
    by (auto simp: recv_sys_def Let_def split: list.splits arrival.splits if_splits)
  show "recvMessage s out = (ok, m, s') \<Longrightarrow> ?thesis"
    using tx by (auto simp: recvMessage_def Let_def split: prod.splits if_splits)
qed

lemma peek_line:
  assumes "isConnectionValid fd os = (ok, os')" and "map_of (os_desc os) fd = Some d"
  shows "os_gone os' = os_gone os
    \<and> (\<exists>d'. map_of (os_desc os') fd = Some d' \<and> d_addr d' = d_addr d \<and> tx_out (d_sock d') = tx_out (d_sock d))"
proof (cases "fd < 0")
  case False
  obtain r s where p: "peek_sock (d_sock d) = (r, s)" by fastforce
  then have "tx_out s = tx_out (d_sock d)" by (auto simp: peek_sock_def split: list.splits arrival.splits)
  moreover have "sys_peek fd os = (r, os\<lparr>os_desc := AList.update fd (d\<lparr>d_sock := s\<rparr>) (os_desc os)\<rparr>)"
    unfolding sys_peek_def by (rule on_sock_this [of os fd d peek_sock r s, OF assms(2) p])
  ultimately show ?thesis
    using assms(1) False by (auto simp: isConnectionValid_def split: peek.splits)
qed (use assms in \<open>auto simp: isConnectionValid_def\<close>)

lemma release_line:
  assumes "releaseConnection now peerId fd (p, os) = (p', os')" and "map_of (os_desc os) fd = Some d"
    and "os_gone os = os_gone os0" and "d_addr d = d_addr d0" and "tx_out (d_sock d) = tx_out (d_sock d0) @ bs"
  shows "line_wrote os0 os' fd d0 bs"
proof -
  obtain ok os1 where v: "isConnectionValid fd os = (ok, os1)" by fastforce
  from peek_line [OF v assms(2)] obtain d1 where
    d1: "os_gone os1 = os_gone os" "map_of (os_desc os1) fd = Some d1" "d_addr d1 = d_addr d" "tx_out (d_sock d1) = tx_out (d_sock d)"
    by blast
  from assms(1) v consider "os' = os1" | "os' = sys_close fd os1" | "os' = sys_close fd os"
    by (auto simp: releaseConnection_def Let_def split: if_splits prod.splits)
  then show ?thesis
    using d1 assms(2-5) sys_close_gone [OF assms(2)] sys_close_gone [OF d1(2)]
    by cases (auto simp: line_wrote_def)
qed

lemma sendRpc_line:
  assumes "map_of (m_peerAddresses node) peerId = Some (host, port)"
    and "getConnection peerId host port (p, os) = (fd, p1, os1)" and "0 \<le> fd"
    and "map_of (os_desc os1) fd = Some d" and "tx_room (d_sock d) = []"
    and "reply \<noteq> []" and "length reply \<le> 1048576"
    and "take_frame reply (rx_buf (d_sock d), rx_next (d_sock d)) = Some x"
  shows "\<exists>p' os'. sendRpc js now node peerId (Ret m) of_json (p, os) = (read_reply js of_json reply, p', os')
    \<and> line_wrote os1 os' fd d (frame_bytes m)"
proof -
  let ?s = "(d_sock d)\<lparr>tx_out := tx_out (d_sock d) @ frame_bytes m\<rparr>"
  obtain s' where r: "recvMessage ?s [] = (True, reply, s')"
    using recvMessage_in_time [OF assms(6,7), of ?s] assms(8) by (cases x) auto
  let ?os2 = "os1\<lparr>os_desc := AList.update fd (d\<lparr>d_sock := ?s\<rparr>) (os_desc os1)\<rparr>"
  let ?os3 = "os1\<lparr>os_desc := AList.update fd (d\<lparr>d_sock := s'\<rparr>) (AList.update fd (d\<lparr>d_sock := ?s\<rparr>) (os_desc os1))\<rparr>"
  have send: "send_on fd m os1 = (True, ?os2)" using assms(4,5) by (simp add: send_on_def on_sock_def sendMessage_room)
  have recv: "recv_on fd [] ?os2 = ((True, reply), ?os3)" using r by (simp add: recv_on_def on_sock_def)
  obtain p' os' where rel: "releaseConnection now peerId fd (p1, ?os3) = (p', os')" by fastforce
  have "line_wrote os1 os' fd d (frame_bytes m)"
    by (rule release_line [OF rel, where d = "d\<lparr>d_sock := s'\<rparr>"]) (use recvMessage_tx [OF r] in simp_all)
  moreover have "sendRpc js now node peerId (Ret m) of_json (p, os) = (read_reply js of_json reply, p', os')"
    using assms(1-3) send recv rel by (simp add: sendRpc_def)
  ultimately show ?thesis by blast
qed

text \<open>A new connection goes to the address that the node has for its peer.\<close>

lemma connect_attempts_True:
  "connect_attempts n fd a os = (True, os') \<Longrightarrow> \<exists>s. map_of (os_desc os') fd = Some \<lparr>d_addr = Some a, d_sock = s\<rparr>"
proof (induction n arbitrary: os)
  case (Suc n)
  obtain ok os1 where c: "sys_connect fd a os = (ok, os1)" by fastforce
  with Suc sys_connect_True [of fd a os os'] show ?case by (cases ok) auto
qed simp

lemma getConnection_new:
  assumes "map_of (m_connectionPools p) peerId = None" and "getConnection peerId host port (p, os) = (fd, p1, os1)"
    and "0 \<le> fd" and "map_of (os_desc os1) fd = Some d"
  shows "d_addr d = Some (host, of_int port)"
proof -
  have "createConnection host port os = (fd, os1)"
    using assms(1-3) by (auto simp: getConnection_def new_connection_def split: prod.splits if_splits)
  then obtain os0 where "connect_attempts 3 fd (host, of_int port) os0 = (True, os1)"
    using assms(3) by (auto simp: createConnection_def split: prod.splits if_splits)
  from connect_attempts_True [OF this] assms(4) show ?thesis by auto
qed

context wire_codec
begin

lemma reply_read:
  assumes "json_lib_ok js" and "message js word (to_json r) = Ret reply" and "CHR '' '' \<notin> set word"
  shows "read_reply js (of_json js) reply = Ret (Some r)"
  using received [OF assms] by (auto simp: read_reply_def)

end

section \<open>Properties\<close>

text \<open>
  C19. The Raft threads give their connections back. Whatever the network delivers, an election and
  a round of heartbeats over the real calls leave the loans of the connection pool as they found
  them, so that its books (\<open>pool_descriptors_accounted\<close>) still hold, as long as no exception ends
  the program.
\<close>

theorem raft_rounds_return_connections:
  assumes "pool_reach os0 st L"
  shows "(startElection (rv_network js now node) t s (Ret st) = Some (s', Ret st') \<longrightarrow> pool_reach os0 st' L)
    \<and> (heartbeatLoop_round (ae_network js now node) put s (Ret st) d = Some (s', Ret st', d') \<longrightarrow> pool_reach os0 st' L)"
proof -
  define P where "P w \<longleftrightarrow> (\<forall>st. w = Ret st \<longrightarrow> pool_reach os0 st L)" for w :: "pool_os outcome"
  have call: "P w'" if "P w" and "transport (sendRpc js now node p (message js word j) of_json) w = (r, w')"
    for w w' p word j r and of_json :: "'a json \<Rightarrow> 'r outcome"
    using that sendRpc_Ret_books
    by (cases w) (auto simp: P_def split: outcome.splits prod.splits)
  have rv: "P w'" if "P w" and "rv_network js now node p a w = (r, w')" for p a w r w'
    using that call unfolding rv_network_def sendRequestVote_def by blast
  have ae: "P w'" if "P w" and "ae_network js now node p a w = (r, w')" for p a w r w'
    using that call unfolding ae_network_def sendAppendEntries_def by blast
  have init: "P (Ret st)" using assms by (simp add: P_def)
  have "pool_reach os0 st' L" if "startElection (rv_network js now node) t s (Ret st) = Some (s', Ret st')"
    using startElection_world [of P, OF rv init that] by (simp add: P_def)
  moreover have "pool_reach os0 st' L"
    if "heartbeatLoop_round (ae_network js now node) put s (Ret st) d = Some (s', Ret st', d')"
  proof (cases "m_state s = Leader")
    case True
    with that have "heartbeat_peers (ae_network js now node) put (m_peers s) s (Ret st) d = Some (s', Ret st', d')"
      by (simp add: heartbeatLoop_round_def)
    from heartbeat_peers_world [of P, OF ae init this] show ?thesis by (simp add: P_def)
  qed (use that assms in \<open>simp add: heartbeatLoop_round_def\<close>)
  ultimately show ?thesis by blast
qed

text \<open>A candidate with one peer, and a network on which its calls of \<open>connect\<close> fail.\<close>

definition rpc_node :: RaftNode where
  "rpc_node = setPeerAddress ''b'' ''10.0.0.2'' 8081 (RaftNode_init tick ''a'' [''b''])"

definition dead_os :: net_os where
  "dead_os = \<lparr>os_desc = [], os_limit = 8, os_pton = (\<lambda>_. True), os_dial = [], os_ebadf = 0, os_gone = []\<rparr>"

theorem raft_rounds_return_connections_witness:
  "\<exists>s' st'. startElection (rv_network sample_js 0 rpc_node) tick rpc_node
       (Ret (RaftConnectionPool_init, dead_os)) = Some (s', Ret st') \<and> m_state s' = Candidate \<and> pool_reach dead_os st' []"
proof -
  have "\<exists>s' st'. startElection (rv_network sample_js 0 rpc_node) tick rpc_node
       (Ret (RaftConnectionPool_init, dead_os)) = Some (s', Ret st') \<and> m_state s' = Candidate"
    by (simp add: startElection_def rpc_node_def setPeerAddress_def RaftNode_init_def resetElectionTimer_def dummy_entry_def tick_def
        rv_network_def sendRequestVote_def sendRpc_def getConnection_def new_connection_def createConnection_def
        sys_socket_def sys_connect_def sys_close_def dead_os_def RaftConnectionPool_init_def eval_nat_numeral majority_def
        Let_def)
  then obtain s' st' where run: "startElection (rv_network sample_js 0 rpc_node) tick rpc_node
       (Ret (RaftConnectionPool_init, dead_os)) = Some (s', Ret st')" "m_state s' = Candidate" by blast
  from mp [OF conjunct1 [OF raft_rounds_return_connections [OF pool_reach.init]] run(1)]
  have "pool_reach dead_os st' []" .
  with run show ?thesis by blast
qed

text \<open>
  C39. Replies are not matched to requests. When the reply to a call has not arrived at the moment
  the non-blocking socket is read, the call returns false and the connection goes back to the pool
  with the reply still under way; the next call on it, whatever it asks, returns that old reply.
\<close>

theorem late_reply_answers_next_call:
  assumes "json_lib_ok js" and "map_of (m_peerAddresses node) peerId = Some (host, port)"
    and "map_of (m_connectionPools p) peerId = None"
    and "length (os_desc os) < os_limit os" and "os_pton os host" and "os_dial os = Some s # ds"
    and "tx_room s = []" and "rx_buf s = []"
    and "rx_next s = Arrives [] # Arrives [] # Arrives (frame_bytes reply) # map Arrives segs"
    and "message js ''RAFT_REQUEST_VOTE_REPLY'' (rvr_json r) = Ret reply" and "length reply \<le> 1048576"
    and "message js ''RAFT_REQUEST_VOTE'' (rv_json a1) = Ret m1" and "message js ''RAFT_REQUEST_VOTE'' (rv_json a2) = Ret m2"
  shows "\<exists>st1 st2. sendRequestVote js now node peerId a1 (p, os) = (Ret None, st1)
    \<and> sendRequestVote js now' node peerId a2 st1 = (Ret (Some r), st2)"
proof -
  obtain fd os1 where c: "createConnection host port os = (fd, os1)" "0 \<le> fd" "conn_is os1 fd s"
    using createConnection_dials [OF assms(4-6)] by blast
  obtain p' os' conn s' where first: "sendRpc js now node peerId (Ret m1) (rvr_of_json js) (p, os) = (Ret None, p', os')"
    and q: "map_of (m_connectionPools p') peerId = Some [conn]" "ci_fd conn = fd" "conn_is os' fd s'"
    "tx_room s' = []" "rx_buf s' = []" "rx_next s' = Arrives (frame_bytes reply) # map Arrives segs"
    using sendRpc_no_reply_yet [OF assms(2,3) c assms(7-9)] by blast
  have "reply \<noteq> []" using message_RetD [OF assms(10)] by auto
  then obtain st2 where "sendRpc js now' node peerId (Ret m2) (rvr_of_json js) (p', os')
      = (read_reply js (rvr_of_json js) reply, st2)"
    using sendRpc_reads_first [OF assms(2) q(1), of os' s' "frame_bytes reply" segs reply "[]" js now' m2 "rvr_of_json js"]
      c(2) q assms(11) by auto
  moreover have "read_reply js (rvr_of_json js) reply = Ret (Some r)"
    by (rule rvr.reply_read [OF assms(1,10)]) simp
  ultimately show ?thesis using first assms(12,13) by (auto simp: sendRequestVote_def)
qed


text \<open>Two requests of different terms, and the reply to the first one.\<close>

definition granted :: "u64 \<Rightarrow> RequestVoteReply" where
  "granted t = \<lparr>rvr_term = t, rvr_voteGranted = True\<rparr>"

definition vote_js :: "int json_lib" where
  "vote_js = table_js [(rv_json (vote_from ''a'' 1), ''q1''), (rv_json (vote_from ''a'' 2), ''q2''), (rvr_json (granted 1), ''r1'')]"

definition slow_peer :: socket where
  "slow_peer = mk_socket [] [Arrives [], Arrives [], Arrives (frame_bytes ''RAFT_REQUEST_VOTE_REPLY r1'')]"

theorem late_reply_answers_next_call_witness:
  "\<exists>st1 st2. sendRequestVote vote_js 0 rpc_node ''b'' (vote_from ''a'' 1) (RaftConnectionPool_init, dead_os\<lparr>os_dial := [Some slow_peer]\<rparr>)
       = (Ret None, st1)
     \<and> sendRequestVote vote_js 0 rpc_node ''b'' (vote_from ''a'' 2) st1 = (Ret (Some (granted 1)), st2)"
proof (rule late_reply_answers_next_call)
  show "json_lib_ok vote_js" unfolding vote_js_def by (rule table_js_ok) simp
  show "message vote_js ''RAFT_REQUEST_VOTE_REPLY'' (rvr_json (granted 1)) = Ret ''RAFT_REQUEST_VOTE_REPLY r1''"
    "message vote_js ''RAFT_REQUEST_VOTE'' (rv_json (vote_from ''a'' 1)) = Ret ''RAFT_REQUEST_VOTE q1''"
    "message vote_js ''RAFT_REQUEST_VOTE'' (rv_json (vote_from ''a'' 2)) = Ret ''RAFT_REQUEST_VOTE q2''"
    by (simp_all add: message_cases vote_js_def table_js_def rv_json_def rvr_json_def vote_from_def)
  show "rx_next slow_peer = Arrives [] # Arrives [] # Arrives (frame_bytes ''RAFT_REQUEST_VOTE_REPLY r1'') # map Arrives []"
    by (simp add: slow_peer_def mk_socket_def)
qed (simp_all add: rpc_node_def setPeerAddress_def RaftNode_init_def resetElectionTimer_def RaftConnectionPool_init_def
    dead_os_def slow_peer_def mk_socket_def)


end
