(* ===== verification/Command.thy ===== *)
theory Command
  imports Config
begin

text \<open>
  Commands and error codes: \<open>server/Command.h\<close>, \<open>server/Command.cpp\<close>,
  \<open>common/error/ErrorCode.h\<close>, and the token reader of \<open>server/Connection.cpp\<close>.
\<close>

section \<open>Commands\<close>

datatype CommandType = PING | STORE | GET | RAFT_REQUEST_VOTE | RAFT_APPEND_ENTRIES | UNKNOWN

definition parseCommand :: "string \<Rightarrow> CommandType" where
  "parseCommand cmd =
     (if cmd = ''PING'' then PING
      else if cmd = ''STORE'' then STORE
      else if cmd = ''GET'' then GET
      else if cmd = ''RAFT_REQUEST_VOTE'' then RAFT_REQUEST_VOTE
      else if cmd = ''RAFT_APPEND_ENTRIES'' then RAFT_APPEND_ENTRIES
      else UNKNOWN)"

text \<open>
  \<open>iss >> token\<close>: white space is skipped and the characters up to the next white space are
  read. The second component is what the stream still holds.
\<close>

definition read_token :: "string \<Rightarrow> string \<times> string" where
  "read_token s = (let t = dropWhile is_space s in
     (takeWhile (\<lambda>c. \<not> is_space c) t, dropWhile (\<lambda>c. \<not> is_space c) t))"

definition getFirstToken :: "string \<Rightarrow> string" where
  "getFirstToken s = fst (read_token s)"

section \<open>Error codes\<close>

datatype ErrorCode =
    OK | INVALID_REQUEST | INTERNAL_ERROR | TIMEOUT
  | CONNECT_FAILED | CONNECT_TIMEOUT | SEND_FAILED | RECV_FAILED | NODE_UNAVAILABLE | FD_FIALED
  | NOT_FOUND | ALREADY_EXISTS | NOT_LEADER | SHARD_MISMATCH

primrec error_value :: "ErrorCode \<Rightarrow> int" where
  "error_value OK = 0"
| "error_value INVALID_REQUEST = 1000"
| "error_value INTERNAL_ERROR = 1001"
| "error_value TIMEOUT = 1002"
| "error_value CONNECT_FAILED = 2000"
| "error_value CONNECT_TIMEOUT = 2001"
| "error_value SEND_FAILED = 2002"
| "error_value RECV_FAILED = 2003"
| "error_value NODE_UNAVAILABLE = 2004"
| "error_value FD_FIALED = 2005"
| "error_value NOT_FOUND = 3000"
| "error_value ALREADY_EXISTS = 3001"
| "error_value NOT_LEADER = 4000"
| "error_value SHARD_MISMATCH = 4001"

section \<open>Lemmas\<close>

primrec command_name :: "CommandType \<Rightarrow> string" where
  "command_name PING = ''PING''"
| "command_name STORE = ''STORE''"
| "command_name GET = ''GET''"
| "command_name RAFT_REQUEST_VOTE = ''RAFT_REQUEST_VOTE''"
| "command_name RAFT_APPEND_ENTRIES = ''RAFT_APPEND_ENTRIES''"
| "command_name UNKNOWN = []"

lemma parseCommand_name: "c \<noteq> UNKNOWN \<Longrightarrow> parseCommand s = c \<longleftrightarrow> s = command_name c"
  by (cases c) (auto simp: parseCommand_def)

lemma read_token_exact:
  assumes "set ws \<subseteq> {c. is_space c}" and "list_all (\<lambda>c. \<not> is_space c) tok" and "tok \<noteq> []"
    and "rest = [] \<or> is_space (hd rest)"
  shows "read_token (ws @ tok @ rest) = (tok, rest)"
proof -
  have "dropWhile is_space (ws @ tok @ rest) = tok @ rest"
    using assms(1-3) by (induction ws) (cases tok, auto)
  moreover have "takeWhile (\<lambda>c. \<not> is_space c) (tok @ rest) = tok"
    and "dropWhile (\<lambda>c. \<not> is_space c) (tok @ rest) = rest"
    using assms(2,4) by (induction tok) (cases rest, auto)+
  ultimately show ?thesis by (simp add: read_token_def)
qed

lemma read_token_split:
  "\<exists>ws. s = ws @ fst (read_token s) @ snd (read_token s) \<and> set ws \<subseteq> {c. is_space c}
     \<and> list_all (\<lambda>c. \<not> is_space c) (fst (read_token s))
     \<and> (snd (read_token s) = [] \<or> is_space (hd (snd (read_token s))))"
proof (intro exI conjI)
  let ?t = "dropWhile is_space s"
  show "s = takeWhile is_space s @ fst (read_token s) @ snd (read_token s)"
    by (simp add: read_token_def Let_def)
  show "snd (read_token s) = [] \<or> is_space (hd (snd (read_token s)))"
    using hd_dropWhile [of "\<lambda>c. \<not> is_space c" ?t] by (auto simp: read_token_def Let_def)
qed (auto simp: read_token_def Let_def list_all_iff dest: set_takeWhileD)

section \<open>Properties\<close>

text \<open>
  The command of a message is decided by its first word: a message is dispatched as one of the
  five commands exactly when it consists of white space, the command's name and then nothing or
  more white space and anything.
\<close>

theorem command_of_message:
  assumes "c \<noteq> UNKNOWN"
  shows "parseCommand (getFirstToken msg) = c \<longleftrightarrow>
    (\<exists>ws rest. msg = ws @ command_name c @ rest \<and> set ws \<subseteq> {c. is_space c} \<and> (rest = [] \<or> is_space (hd rest)))"
proof -
  have "list_all (\<lambda>x. \<not> is_space x) (command_name c)" and "command_name c \<noteq> []"
    using assms by (cases c; simp add: is_space_def)+
  then have "getFirstToken (ws @ command_name c @ rest) = command_name c"
    if "set ws \<subseteq> {c. is_space c}" and "rest = [] \<or> is_space (hd rest)" for ws rest
    using that by (simp add: getFirstToken_def read_token_exact)
  moreover have "\<exists>ws rest. msg = ws @ getFirstToken msg @ rest \<and> set ws \<subseteq> {c. is_space c}
      \<and> (rest = [] \<or> is_space (hd rest))"
    using read_token_split [of msg] unfolding getFirstToken_def by blast
  ultimately show ?thesis unfolding parseCommand_name [OF assms] by metis
qed

theorem command_of_message_witness:
  "parseCommand (getFirstToken ''GET img1'') = GET"
proof -
  have "''GET img1'' = [] @ command_name GET @ '' img1'' \<and> set [] \<subseteq> {c. is_space c}
      \<and> ('' img1'' = [] \<or> is_space (hd '' img1''))"
    by (simp add: is_space_def)
  then show ?thesis using command_of_message [of GET "''GET img1''"] by blast
qed

end
