(* ===== verification/ShardRouter.thy ===== *)
theory ShardRouter
  imports Protocol
begin

text \<open>
  The cluster's routing table, \<open>cluster/NodeInfo.h\<close> and \<open>cluster/ShardRouter.cpp\<close>:
  rendezvous hashing (highest random weight) of a key over the healthy nodes, the insertion
  of nodes, and the health probe. \<open>std::hash<std::string>\<close> is not specified by the language
  and is an argument \<open>h\<close>; the theorems hold for every hash function.

  The locale \<open>shard_picker\<close> is what the clients of \<open>pickNode\<close> rely on; agreement between
  servers and minimal disruption are proved in it once and reach the model's \<open>pickNode\<close>
  through its interpretation.
\<close>

section \<open>NodeInfo.h\<close>

record NodeInfo =
  ni_id :: string
  ni_host :: string
  ni_port :: int
  ni_healthy :: bool

section \<open>ShardRouter.h, ShardRouter.cpp\<close>

record ShardRouter =
  m_nodes :: "NodeInfo list"

definition ShardRouter_init :: "NodeInfo list \<Rightarrow> ShardRouter" where
  "ShardRouter_init nodes = \<lparr>m_nodes = nodes\<rparr>"

definition getNodeCount :: "ShardRouter \<Rightarrow> int" where
  "getNodeCount r = int (length (m_nodes r))"

definition getAllNodes :: "ShardRouter \<Rightarrow> NodeInfo list" where
  "getAllNodes r = m_nodes r"

definition isNodeHealthy :: "NodeInfo \<Rightarrow> bool" where
  "isNodeHealthy node = ni_healthy node"

definition hrw_score :: "(string \<Rightarrow> u64) \<Rightarrow> string \<Rightarrow> NodeInfo \<Rightarrow> u64" where
  "hrw_score h key node = h (key @ ''#'' @ ni_id node)"

text \<open>The loop of \<open>pickNode\<close>, with \<open>best_score\<close> and the pointer \<open>best_node\<close>.\<close>

fun pickNode_loop ::
  "(string \<Rightarrow> u64) \<Rightarrow> string \<Rightarrow> NodeInfo list \<Rightarrow> u64 \<Rightarrow> NodeInfo option \<Rightarrow> NodeInfo option" where
  "pickNode_loop h key [] best_score best_node = best_node"
| "pickNode_loop h key (node # nodes) best_score best_node =
     (if \<not> isNodeHealthy node then pickNode_loop h key nodes best_score best_node
      else
        let score = hrw_score h key node in
        if best_node = None \<or> score > best_score
        then pickNode_loop h key nodes score (Some node)
        else pickNode_loop h key nodes best_score best_node)"

text \<open>\<open>None\<close>: the null pointer is dereferenced.\<close>

definition pickNode :: "(string \<Rightarrow> u64) \<Rightarrow> ShardRouter \<Rightarrow> string \<Rightarrow> NodeInfo option" where
  "pickNode h r key = pickNode_loop h key (m_nodes r) 0 None"

definition insertNode :: "ShardRouter \<Rightarrow> NodeInfo \<Rightarrow> bool \<times> ShardRouter" where
  "insertNode r node =
     (if \<exists>n \<in> set (m_nodes r). ni_id n = ni_id node then (False, r)
      else (True, r\<lparr>m_nodes := m_nodes r @ [node]\<rparr>))"

text \<open>
  The health probe. The operating system is the argument: the descriptor \<open>socket\<close> returns,
  which addresses \<open>inet_pton\<close> accepts, which connections succeed, and the connected socket.
  The probe's socket is blocking with a timeout of one second: \<open>Arrives []\<close> is a timeout.
\<close>

record health_os =
  hs_socket :: int
  hs_pton :: "string \<Rightarrow> bool"
  hs_connect :: "string \<Rightarrow> int \<Rightarrow> bool"
  hs_conn :: socket

text \<open>\<open>std::string(buffer)\<close> reads up to the first zero byte; without one it runs off the array.\<close>

definition c_str :: "bytes \<Rightarrow> string option" where
  "c_str buf = (if char_of (0 :: nat) \<in> set buf
     then Some (takeWhile (\<lambda>c. c \<noteq> char_of (0 :: nat)) buf) else None)"

definition checkNodeHealth :: "health_os \<Rightarrow> NodeInfo \<Rightarrow> bool option \<times> socket" where
  "checkNodeHealth os node =
     (if hs_socket os < 0 then (Some False, hs_conn os)
      else if \<not> hs_pton os (ni_host node) then (Some False, hs_conn os)
      else if \<not> hs_connect os (ni_host node) (ni_port node) then (Some False, hs_conn os)
      else
        let ping = ''PING'';
            (k, s1) = send_sys ping (hs_conn os) in
        if k < 0 then (Some False, s1)
        else
          let (n, bs, s2) = recv_sys 16 s1 in
          if n \<le> 0 then (Some False, s2)
          else
            case c_str (bs @ replicate (16 - length bs) (char_of (0 :: nat))) of
              None \<Rightarrow> (None, s2)
            | Some response \<Rightarrow> (Some (response = ''PONG''), s2))"

section \<open>The contract of a picker\<close>

text \<open>
  A picker chooses, for a key, an eligible candidate of greatest score, and fails only when
  there is none.
\<close>

locale shard_picker =
  fixes pick :: "'n list \<Rightarrow> 'k \<Rightarrow> 'n option"
    and score :: "'k \<Rightarrow> 'n \<Rightarrow> 'v::linorder"
    and eligible :: "'n \<Rightarrow> bool"
  assumes pick_None_iff: "pick ns k = None \<longleftrightarrow> (\<forall>n \<in> set ns. \<not> eligible n)"
    and pick_SomeD: "pick ns k = Some n \<Longrightarrow>
      n \<in> set ns \<and> eligible n \<and> (\<forall>m \<in> set ns. eligible m \<longrightarrow> score k m \<le> score k n)"
begin

lemma pick_unique:
  assumes "inj_on (score k) {n \<in> set ns. eligible n}" and "n \<in> set ns" and "eligible n"
    and "\<And>m. m \<in> set ns \<Longrightarrow> eligible m \<Longrightarrow> score k m \<le> score k n"
  shows "pick ns k = Some n"
proof (cases "pick ns k")
  case None
  with assms(2,3) show ?thesis by (simp add: pick_None_iff)
next
  case (Some p)
  note p = pick_SomeD [OF this]
  with assms(2-4) have "score k p = score k n" by (blast intro: antisym)
  with p assms(1-3) have "p = n" by (auto simp: inj_on_def)
  with Some show ?thesis by simp
qed

lemma pick_agree:
  assumes "inj_on (score k) {n \<in> set ns. eligible n}" and same: "{n \<in> set ns. eligible n} = {n \<in> set ms. eligible n}"
  shows "pick ns k = pick ms k"
proof (cases "pick ms k")
  case None
  with same have "pick ns k = None" unfolding pick_None_iff by blast
  with None show ?thesis by simp
next
  case (Some n)
  from pick_SomeD [OF this] same have "pick ns k = Some n"
    by (intro pick_unique [OF assms(1)]) blast+
  with Some show ?thesis by simp
qed

lemma pick_insert:
  assumes "inj_on (score k) {n \<in> set ms. eligible n}" and "set ms = insert m (set ns)"
  shows "pick ms k = pick ns k \<or> pick ms k = Some m"
proof (cases "pick ms k")
  case None
  with assms(2) have "pick ns k = None" unfolding pick_None_iff by blast
  with None show ?thesis by simp
next
  case (Some p)
  note p = pick_SomeD [OF this]
  show ?thesis
  proof (cases "p = m")
    case False
    from assms have "inj_on (score k) {n \<in> set ns. eligible n}" by (auto intro: inj_on_subset)
    then have "pick ns k = Some p"
      using p False assms(2) by (intro pick_unique) auto
    with Some show ?thesis by simp
  qed (simp add: Some)
qed

lemma pick_remove:
  assumes "inj_on (score k) {n \<in> set ns. eligible n}" and "set ms \<subseteq> set ns" and "pick ns k = Some p" and "p \<in> set ms"
  shows "pick ms k = Some p"
proof -
  from assms(1,2) have "inj_on (score k) {n \<in> set ms. eligible n}" by (auto intro: inj_on_subset)
  then show ?thesis
    using pick_SomeD [OF assms(3)] assms(2,4) by (intro pick_unique) auto
qed

end

section \<open>pickNode meets the contract\<close>

text \<open>
  What the loop returns: a healthy node of the list or the candidate it started with, of
  greatest score among both.
\<close>

lemma pickNode_loop_None:
  "pickNode_loop h key ns s b = None \<longleftrightarrow> b = None \<and> (\<forall>n \<in> set ns. \<not> isNodeHealthy n)"
  by (induction ns arbitrary: s b) (auto simp: Let_def)

lemma pickNode_loop_Some:
  assumes "pickNode_loop h key ns s b = Some p" and "\<And>q. b = Some q \<Longrightarrow> s = hrw_score h key q"
  shows "(p \<in> set ns \<and> isNodeHealthy p \<or> b = Some p)
    \<and> (\<forall>m \<in> set ns. isNodeHealthy m \<longrightarrow> hrw_score h key m \<le> hrw_score h key p)
    \<and> (\<forall>q. b = Some q \<longrightarrow> hrw_score h key q \<le> hrw_score h key p)"
  using assms
proof (induction ns arbitrary: s b)
  case Nil
  then show ?case by auto
next
  case (Cons n ns)
  show ?case
  proof (cases "isNodeHealthy n \<and> (b = None \<or> hrw_score h key n > s)")
    case True
    with Cons.prems(1) have "pickNode_loop h key ns (hrw_score h key n) (Some n) = Some p"
      by (simp add: Let_def)
    from Cons.IH [OF this] True Cons.prems(2) show ?thesis by fastforce
  next
    case False
    with Cons.prems(1) have "pickNode_loop h key ns s b = Some p"
      by (auto simp: Let_def split: if_splits)
    from Cons.IH [OF this Cons.prems(2)] False Cons.prems(2) show ?thesis
      by (cases b) (auto simp: not_less intro: order_trans)
  qed
qed

interpretation hrw: shard_picker "\<lambda>ns. pickNode h \<lparr>m_nodes = ns\<rparr>" "hrw_score h" isNodeHealthy
  for h
proof
  fix ns k
  show "(pickNode h \<lparr>m_nodes = ns\<rparr> k = None) = (\<forall>n \<in> set ns. \<not> isNodeHealthy n)"
    by (simp add: pickNode_def pickNode_loop_None)
next
  fix ns k n
  assume "pickNode h \<lparr>m_nodes = ns\<rparr> k = Some n"
  then show "n \<in> set ns \<and> isNodeHealthy n
    \<and> (\<forall>m \<in> set ns. isNodeHealthy m \<longrightarrow> hrw_score h k m \<le> hrw_score h k n)"
    using pickNode_loop_Some [of h k ns 0 None n] by (simp add: pickNode_def)
qed

section \<open>Ties and insertion\<close>

text \<open>
  A node appended to the list takes over only with a strictly greater score: the loop keeps
  the first of several nodes with the greatest score.
\<close>

lemma pickNode_loop_append:
  "b = None \<or> (\<exists>q. b = Some q \<and> s = hrw_score h key q) \<Longrightarrow>
   pickNode_loop h key (ns @ [n]) s b =
    (case pickNode_loop h key ns s b of
       None \<Rightarrow> if isNodeHealthy n then Some n else None
     | Some p \<Rightarrow> if isNodeHealthy n \<and> hrw_score h key n > hrw_score h key p then Some n else Some p)"
proof (induction ns arbitrary: s b)
  case Nil
  then show ?case by (auto simp: Let_def)
next
  case (Cons a ns)
  then show ?case by (simp add: Let_def)
qed

lemma pickNode_append:
  "pickNode h \<lparr>m_nodes = ns @ [n]\<rparr> key =
    (case pickNode h \<lparr>m_nodes = ns\<rparr> key of
       None \<Rightarrow> if isNodeHealthy n then Some n else None
     | Some p \<Rightarrow> if isNodeHealthy n \<and> hrw_score h key n > hrw_score h key p then Some n else Some p)"
  unfolding pickNode_def by (simp add: pickNode_loop_append del: if_split)

text \<open>The first of the healthy nodes with the greatest score.\<close>

definition first_best :: "(string \<Rightarrow> u64) \<Rightarrow> string \<Rightarrow> NodeInfo list \<Rightarrow> NodeInfo \<Rightarrow> bool" where
  "first_best h key ns p \<longleftrightarrow> (\<exists>xs ys. ns = xs @ p # ys \<and> isNodeHealthy p
     \<and> (\<forall>m \<in> set xs. isNodeHealthy m \<longrightarrow> hrw_score h key m < hrw_score h key p)
     \<and> (\<forall>m \<in> set ys. isNodeHealthy m \<longrightarrow> hrw_score h key m \<le> hrw_score h key p))"

lemma first_best_snoc_new:
  assumes "isNodeHealthy n" and "\<forall>m \<in> set ns. isNodeHealthy m \<longrightarrow> hrw_score h key m < hrw_score h key n"
  shows "first_best h key (ns @ [n]) n"
  unfolding first_best_def using assms by (intro exI [of _ ns] exI [of _ "[]"]) simp

lemma first_best_snoc_old:
  assumes "first_best h key ns p" and "isNodeHealthy n \<Longrightarrow> hrw_score h key n \<le> hrw_score h key p"
  shows "first_best h key (ns @ [n]) p"
proof -
  from assms(1) obtain xs ys where "ns = xs @ p # ys" "isNodeHealthy p"
    "\<forall>m \<in> set xs. isNodeHealthy m \<longrightarrow> hrw_score h key m < hrw_score h key p"
    "\<forall>m \<in> set ys. isNodeHealthy m \<longrightarrow> hrw_score h key m \<le> hrw_score h key p"
    by (auto simp: first_best_def)
  with assms(2) show ?thesis
    unfolding first_best_def by (intro exI [of _ xs] exI [of _ "ys @ [n]"]) auto
qed

lemma pickNode_first_best_imp:
  "pickNode h \<lparr>m_nodes = ns\<rparr> key = Some p \<Longrightarrow> first_best h key ns p"
proof (induction ns arbitrary: p rule: rev_induct)
  case Nil
  then show ?case by (simp add: pickNode_def)
next
  case (snoc n ns)
  show ?case
  proof (cases "pickNode h \<lparr>m_nodes = ns\<rparr> key")
    case None
    with snoc.prems have "p = n" "isNodeHealthy n" by (auto simp: pickNode_append split: if_splits)
    moreover from None have "\<forall>m \<in> set ns. \<not> isNodeHealthy m" by (simp add: hrw.pick_None_iff)
    ultimately show ?thesis by (auto intro: first_best_snoc_new)
  next
    case (Some q)
    note q = hrw.pick_SomeD [OF Some]
    show ?thesis
    proof (cases "isNodeHealthy n \<and> hrw_score h key n > hrw_score h key q")
      case True
      with snoc.prems Some have "p = n" by (simp add: pickNode_append)
      with True q show ?thesis by (auto intro!: first_best_snoc_new intro: le_less_trans)
    next
      case False
      with snoc.prems Some have "p = q" by (auto simp: pickNode_append split: if_splits)
      with False snoc.IH [OF Some] show ?thesis by (auto intro!: first_best_snoc_old simp: not_less)
    qed
  qed
qed

lemma first_best_unique:
  assumes "first_best h key ns p" and "first_best h key ns q"
  shows "p = q"
proof -
  from assms(1) obtain xs ys where p: "ns = xs @ p # ys" "isNodeHealthy p"
      "\<forall>m \<in> set xs. isNodeHealthy m \<longrightarrow> hrw_score h key m < hrw_score h key p"
      "\<forall>m \<in> set ys. isNodeHealthy m \<longrightarrow> hrw_score h key m \<le> hrw_score h key p"
    unfolding first_best_def by blast
  from assms(2) obtain us vs where q: "ns = us @ q # vs" "isNodeHealthy q"
      "\<forall>m \<in> set us. isNodeHealthy m \<longrightarrow> hrw_score h key m < hrw_score h key q"
      "\<forall>m \<in> set vs. isNodeHealthy m \<longrightarrow> hrw_score h key m \<le> hrw_score h key q"
    unfolding first_best_def by blast
  with p(1) have "xs @ p # ys = us @ q # vs" by simp
  then consider "xs = us" "p = q" | zs where "us = xs @ p # zs" | zs where "xs = us @ q # zs"
    by (auto simp: append_eq_append_conv2 Cons_eq_append_conv append_eq_Cons_conv)
  then show ?thesis
  proof cases
    case (2 zs)
    with p(1) q(1) have "q \<in> set ys" by auto
    with 2 p(2,4) q(2,3) show ?thesis by fastforce
  next
    case (3 zs)
    with p(1) q(1) have "p \<in> set vs" by auto
    with 3 p(2,3) q(2,4) show ?thesis by fastforce
  qed simp
qed

lemma m_nodes_insertNode:
  "m_nodes (snd (insertNode r node)) =
     (if ni_id node \<in> ni_id ` set (m_nodes r) then m_nodes r else m_nodes r @ [node])"
  by (auto simp: insertNode_def) (metis image_eqI)

lemma pickNode_cong: "m_nodes r = m_nodes r' \<Longrightarrow> pickNode h r = pickNode h r'"
  by (simp add: pickNode_def fun_eq_iff)

lemma pickNode_nodes: "pickNode h r = pickNode h \<lparr>m_nodes = m_nodes r\<rparr>"
  by (rule pickNode_cong) simp

section \<open>The health probe against the server\<close>

text \<open>The zero byte with which every framed message below 16 MB starts.\<close>

lemma frame_bytes_head:
  assumes "length m < 2 ^ 24"
  shows "\<exists>t. frame_bytes m = char_of (0 :: nat) # t"
proof -
  have "unat (of_nat (length m) :: u32) = length m" using assms by (intro unat_of_nat_32) simp
  with assms have "length m div 256 div 256 div 256 = 0" by simp
  then show ?thesis
    using \<open>unat (of_nat (length m)) = length m\<close>
    by (simp add: frame_bytes_def frame_header_def le_bytes_digits Let_def)
qed

lemma c_str_zero_head [simp]: "c_str (char_of (0 :: nat) # bs) = Some []"
  by (simp add: c_str_def)

lemma checkNodeHealth_zero_head:
  assumes "rx_next (hs_conn os) = []" and "rx_buf (hs_conn os) = char_of (0 :: nat) # bs"
  shows "fst (checkNodeHealth os node) = Some False"
  using assms
  by (auto simp: checkNodeHealth_def send_sys_def recv_sys_def Let_def split: list.splits)

lemma recvMessage_raw_PING:
  "rx_next s = [] \<Longrightarrow> rx_buf s = ''PING'' \<Longrightarrow> recvMessage s out = (False, out, s\<lparr>rx_buf := []\<rparr>)"
  by (simp add: recvMessage_def recv_sys_def ntohl_def le_word_def le_bytes_digits Let_def
      MAX_MESSAGE_SIZE_def)

section \<open>Properties\<close>

text \<open>
  C29. \<open>pickNode\<close> is rendezvous hashing: it returns a node exactly when that node is the first
  of the healthy nodes with the greatest hash of key and node id, and it dereferences a null
  pointer exactly when no node of the table is healthy.
\<close>

theorem pickNode_first_best:
  "(pickNode h r key = Some p \<longleftrightarrow> first_best h key (m_nodes r) p)
   \<and> (pickNode h r key = None \<longleftrightarrow> (\<forall>n \<in> set (m_nodes r). \<not> isNodeHealthy n))"
proof
  have imp: "pickNode h r key = Some q \<Longrightarrow> first_best h key (m_nodes r) q" for q
    using pickNode_first_best_imp [of h "m_nodes r" key q] by (simp add: pickNode_nodes [of h r])
  show none: "pickNode h r key = None \<longleftrightarrow> (\<forall>n \<in> set (m_nodes r). \<not> isNodeHealthy n)"
    using hrw.pick_None_iff [of h "m_nodes r" key] by (simp add: pickNode_nodes [of h r])
  show "pickNode h r key = Some p \<longleftrightarrow> first_best h key (m_nodes r) p"
  proof
    assume fb: "first_best h key (m_nodes r) p"
    then have "p \<in> set (m_nodes r)" and "isNodeHealthy p" by (auto simp: first_best_def)
    with none obtain q where q: "pickNode h r key = Some q" by (cases "pickNode h r key") auto
    with imp fb show "pickNode h r key = Some p" by (blast dest: first_best_unique)
  qed (rule imp)
qed

text \<open>Nodes for the concrete instances.\<close>

definition mk_node :: "string \<Rightarrow> bool \<Rightarrow> NodeInfo" where
  "mk_node i ok = \<lparr>ni_id = i, ni_host = ''127.0.0.1'', ni_port = 8080, ni_healthy = ok\<rparr>"

definition length_hash :: "string \<Rightarrow> u64" where
  "length_hash s = of_nat (length s)"

theorem pickNode_first_best_witness:
  "pickNode length_hash \<lparr>m_nodes = [mk_node ''n1'' True, mk_node ''n20'' True]\<rparr> ''k''
     = Some (mk_node ''n20'' True)
   \<and> pickNode length_hash \<lparr>m_nodes = [mk_node ''n1'' False]\<rparr> ''k'' = None"
proof -
  have "first_best length_hash ''k'' [mk_node ''n1'' True, mk_node ''n20'' True] (mk_node ''n20'' True)"
    unfolding first_best_def
    by (rule exI [of _ "[mk_node ''n1'' True]"], rule exI [of _ "[]"])
      (simp add: isNodeHealthy_def hrw_score_def length_hash_def mk_node_def)
  then show ?thesis
    using pickNode_first_best [of length_hash "\<lparr>m_nodes = [mk_node ''n1'' True, mk_node ''n20'' True]\<rparr>"
        "''k''" "mk_node ''n20'' True"]
      pickNode_first_best [of length_hash "\<lparr>m_nodes = [mk_node ''n1'' False]\<rparr>" "''k''"]
    by (simp add: isNodeHealthy_def mk_node_def)
qed

text \<open>
  Minimal disruption: adding a node to the table with \<open>insertNode\<close> moves a key only to
  the new node; every other key keeps the node it had.
\<close>

theorem insertNode_minimal_disruption:
  "pickNode h (snd (insertNode r node)) key = pickNode h r key
   \<or> pickNode h (snd (insertNode r node)) key = Some node"
proof (cases "ni_id node \<in> ni_id ` set (m_nodes r)")
  case True
  then have "m_nodes (snd (insertNode r node)) = m_nodes r" by (simp add: m_nodes_insertNode)
  then show ?thesis by (metis pickNode_cong)
next
  case False
  then have "pickNode h (snd (insertNode r node)) = pickNode h \<lparr>m_nodes = m_nodes r @ [node]\<rparr>"
    by (intro pickNode_cong) (simp add: m_nodes_insertNode)
  then show ?thesis
    by (auto simp: pickNode_append pickNode_nodes [of h r] split: option.splits)
qed

text \<open>
  C30. Agreement: for a key on which no two healthy nodes of a table have the same hash, a server
  whose table holds the same healthy nodes, in whatever order, routes the key to the same node, and a
  table that lost nodes (crashed or unreachable) still routes the key to the same node as long as that
  node is in it. (On a tie the order of the tables decides, \<open>pickNode_first_best\<close>.)
\<close>

theorem pickNode_agreement:
  assumes "inj_on (hrw_score h key) {n \<in> set (m_nodes r). isNodeHealthy n}"
  shows "({n \<in> set (m_nodes r). isNodeHealthy n} = {n \<in> set (m_nodes r'). isNodeHealthy n}
           \<longrightarrow> pickNode h r key = pickNode h r' key)
    \<and> (set (m_nodes r') \<subseteq> set (m_nodes r) \<and> pickNode h r key = Some p \<and> p \<in> set (m_nodes r')
           \<longrightarrow> pickNode h r' key = Some p)"
  using hrw.pick_agree [OF assms, of "m_nodes r'"] hrw.pick_remove [OF assms, of "m_nodes r'" p]
  by (simp add: pickNode_nodes [of h r] pickNode_nodes [of h r'])

theorem pickNode_agreement_witness:
  "pickNode length_hash \<lparr>m_nodes = [mk_node ''n1'' True, mk_node ''n20'' True]\<rparr> ''k''
   = pickNode length_hash \<lparr>m_nodes = [mk_node ''n20'' True, mk_node ''n1'' True]\<rparr> ''k''"
proof -
  have inj: "inj_on (hrw_score length_hash ''k'')
      {n \<in> set (m_nodes \<lparr>m_nodes = [mk_node ''n1'' True, mk_node ''n20'' True]\<rparr>). isNodeHealthy n}"
    by (auto simp: inj_on_def hrw_score_def length_hash_def mk_node_def)
  show ?thesis
    using pickNode_agreement [OF inj, of "\<lparr>m_nodes = [mk_node ''n20'' True, mk_node ''n1'' True]\<rparr>"]
    by auto
qed

text \<open>
  \<open>insertNode\<close> keeps the ids of the table distinct, makes the id present, reports whether
  it added the node, and inserting again changes nothing.
\<close>

theorem insertNode_distinct_ids:
  assumes "distinct (map ni_id (m_nodes r))"
  shows "distinct (map ni_id (m_nodes (snd (insertNode r node))))
    \<and> ni_id ` set (m_nodes (snd (insertNode r node))) = insert (ni_id node) (ni_id ` set (m_nodes r))
    \<and> (fst (insertNode r node) \<longleftrightarrow> ni_id node \<notin> ni_id ` set (m_nodes r))
    \<and> insertNode (snd (insertNode r node)) node = (False, snd (insertNode r node))"
proof (cases "ni_id node \<in> ni_id ` set (m_nodes r)")
  case True
  then have "insertNode r node = (False, r)" by (auto simp: insertNode_def)
  with True assms show ?thesis by (simp add: insert_absorb)
next
  case False
  then have "insertNode r node = (True, r\<lparr>m_nodes := m_nodes r @ [node]\<rparr>)"
    by (auto simp: insertNode_def) (metis image_eqI)
  with False assms show ?thesis by (simp add: insertNode_def)
qed

theorem insertNode_distinct_ids_witness:
  "distinct (map ni_id (m_nodes (snd (insertNode (ShardRouter_init [mk_node ''n1'' True]) (mk_node ''n2'' True)))))"
  using insertNode_distinct_ids [of "ShardRouter_init [mk_node ''n1'' True]" "mk_node ''n2'' True"]
  by (simp add: ShardRouter_init_def)

lemma checkNodeHealth_framed:
  assumes "tx_room (hs_conn os) = []" and "rx_next (hs_conn os) = []"
    and "rx_buf (hs_conn os) = [] \<or>
      (\<exists>m rest. length m < 2 ^ 24 \<and> rx_buf (hs_conn os) = frame_bytes m @ rest)"
  shows "fst (checkNodeHealth os node) = Some False"
proof (cases "rx_buf (hs_conn os) = []")
  case True
  with assms(1,2) show ?thesis
    by (simp add: checkNodeHealth_def send_sys_def recv_sys_def Let_def)
next
  case False
  with assms(3) obtain m rest where "length m < 2 ^ 24" and "rx_buf (hs_conn os) = frame_bytes m @ rest"
    by blast
  with frame_bytes_head [of m] obtain bs where "rx_buf (hs_conn os) = char_of (0 :: nat) # bs" by auto
  with assms(2) show ?thesis by (rule checkNodeHealth_zero_head)
qed

text \<open>
  The health probe never finds another server of this program healthy. It sends the four
  bytes \<open>PING\<close> without a length, which the server's \<open>recvMessage\<close> refuses, so that the
  server closes the connection without an answer; and whatever framed message below 16 MB the
  server might send, the probe reads it as the empty string and not as \<open>PONG\<close>. Hence
  \<open>Server::Server\<close> leaves every other node out of the routing table.
\<close>

theorem health_probe_always_fails:
  assumes "tx_room (hs_conn os) = []" and "tx_out (hs_conn os) = []"
    and "rx_next (hs_conn os) = []"
    and "rx_buf (hs_conn os) = [] \<or>
      (\<exists>m rest. length m < 2 ^ 24 \<and> rx_buf (hs_conn os) = frame_bytes m @ rest)"
    and "rx_next srv = []" and "rx_buf srv = tx_out (snd (checkNodeHealth os node))"
  shows "fst (checkNodeHealth os node) = Some False \<and> \<not> fst (recvMessage srv out)"
proof
  show "fst (checkNodeHealth os node) = Some False"
    using assms(1,3,4) by (rule checkNodeHealth_framed)
  have "tx_out (snd (checkNodeHealth os node)) \<in> {[], ''PING''}"
    using assms(1-3) by (auto simp: checkNodeHealth_def send_sys_def recv_sys_def Let_def
        split: option.splits)
  with assms(5,6) consider "rx_buf srv = []" | "rx_buf srv = ''PING''" by auto
  then show "\<not> fst (recvMessage srv out)"
  proof cases
    case 1
    with assms(5) show ?thesis by (simp add: recvMessage_def recv_sys_def)
  next
    case 2
    with assms(5) show ?thesis by (simp add: recvMessage_raw_PING)
  qed
qed

theorem health_probe_always_fails_witness:
  "fst (checkNodeHealth \<lparr>hs_socket = 3, hs_pton = \<lambda>_. True, hs_connect = \<lambda>_ _. True,
          hs_conn = mk_socket (frame_bytes ''PONG'') []\<rparr> (mk_node ''n1'' True)) = Some False
   \<and> \<not> fst (recvMessage (mk_socket ''PING'' []) [])"
proof -
  let ?os = "\<lparr>hs_socket = 3, hs_pton = \<lambda>_. True, hs_connect = \<lambda>_ _. True,
          hs_conn = mk_socket (frame_bytes ''PONG'') []\<rparr>"
  have sent: "tx_out (snd (checkNodeHealth ?os (mk_node ''n1'' True))) = ''PING''"
    by (auto simp: checkNodeHealth_def send_sys_def recv_sys_def mk_socket_def Let_def split: option.splits)
  have "\<exists>m rest. length m < 2 ^ 24 \<and> frame_bytes ''PONG'' = frame_bytes m @ rest"
    by (rule exI [of _ "''PONG''"], rule exI [of _ "[]"]) simp
  then show ?thesis
    using health_probe_always_fails [of ?os "mk_socket ''PING'' []" "mk_node ''n1'' True" "[]"] sent
    by (simp add: mk_socket_def)
qed

end
