(* ===== verification/Forward.thy ===== *)
theory Forward
  imports Command ShardRouter RaftConnectionPool_Inv
begin

text \<open>
  Forwarding a request to the node that owns its key: \<open>Connection::forwardToNode\<close> and
  \<open>Connection::connectWithRetry\<close> of \<open>server/Connection.cpp\<close>. The socket is switched to
  non-blocking mode before \<open>connect\<close> and stays so, hence \<open>recvMessage\<close> sees only what has
  arrived at the moment of the call.
\<close>

section \<open>Operations\<close>

fun connect_loop :: "nat \<Rightarrow> int \<Rightarrow> address \<Rightarrow> net_os \<Rightarrow> bool \<times> net_os" where
  "connect_loop 0 fd addr os = (False, os)"
| "connect_loop (Suc k) fd addr os =
     (let (ok, os') = sys_connect fd addr os in if ok then (True, os') else connect_loop k fd addr os')"

text \<open>\<open>for (attempt = 1; attempt <= maxRetries; ++attempt)\<close>; the pauses are left out.\<close>

definition connectWithRetry :: "int \<Rightarrow> address \<Rightarrow> int \<Rightarrow> net_os \<Rightarrow> bool \<times> net_os" where
  "connectWithRetry fd addr maxRetries os = connect_loop (nat maxRetries) fd addr os"

definition forwardToNode :: "int \<Rightarrow> NodeInfo \<Rightarrow> string \<Rightarrow> net_os \<Rightarrow> ErrorCode \<times> net_os" where
  "forwardToNode m_fd node msg os =
     (let (fd, os1) = sys_socket os in
      if fd < 0 then (FD_FIALED, os1)
      else if \<not> os_pton os1 (ni_host node) then (FD_FIALED, sys_close fd os1)
      else
        (let (ret, os2) = connectWithRetry fd (ni_host node, of_int (ni_port node)) 5 os1 in
         if \<not> ret then (CONNECT_FAILED, sys_close fd os2)
         else
           (let (sent, os3) = send_on fd msg os2;
                ((received, reply), os4) = recv_on fd [] os3 in
            if \<not> received then (RECV_FAILED, sys_close fd os4)
            else
              (let os5 = sys_close fd os4;
                   (sent_back, os6) = send_on m_fd reply os5
               in (OK, os6)))))"

section \<open>Lemmas\<close>

lemma connect_loop_attempts: "connect_loop n fd a os = connect_attempts n fd a os"
  by (induction n arbitrary: os) (simp_all split: prod.splits)

lemma connectWithRetry_frame:
  "connectWithRetry fd a n os = (r, os') \<Longrightarrow> fd \<in> open_fds os \<Longrightarrow>
   open_fds os' = open_fds os \<and> os_ebadf os' = os_ebadf os"
  unfolding connectWithRetry_def connect_loop_attempts by (rule connect_attempts_frame)

lemma connect_loop_other:
  "connect_loop n fd a os = (r, os') \<Longrightarrow> fd' \<noteq> fd \<Longrightarrow> map_of (os_desc os') fd' = map_of (os_desc os) fd'"
proof (induction n arbitrary: os)
  case (Suc n)
  obtain ok os1 where c: "sys_connect fd a os = (ok, os1)" by fastforce
  with Suc sys_connect_other [OF c] show ?case by (cases ok) auto
qed simp

lemma recv_on_message:
  "recv_on fd out os = ((True, reply), os') \<Longrightarrow> reply \<noteq> [] \<and> length reply \<le> 1048576"
  using recvMessage_TrueD
  by (fastforce simp: recv_on_def on_sock_def split: option.splits prod.splits)

text \<open>The part after a successful \<open>connect\<close>.\<close>

definition relay :: "int \<Rightarrow> int \<Rightarrow> string \<Rightarrow> net_os \<Rightarrow> ErrorCode \<times> net_os" where
  "relay m_fd fd msg os =
     (let (sent, os3) = send_on fd msg os;
          ((received, reply), os4) = recv_on fd [] os3 in
      if \<not> received then (RECV_FAILED, sys_close fd os4)
      else (OK, snd (send_on m_fd reply (sys_close fd os4))))"

lemma forwardToNode_relay:
  "forwardToNode m_fd node msg os =
     (let (fd, os1) = sys_socket os in
      if fd < 0 then (FD_FIALED, os1)
      else if \<not> os_pton os1 (ni_host node) then (FD_FIALED, sys_close fd os1)
      else
        (let (ret, os2) = connectWithRetry fd (ni_host node, of_int (ni_port node)) 5 os1 in
         if \<not> ret then (CONNECT_FAILED, sys_close fd os2) else relay m_fd fd msg os2))"
  by (simp add: forwardToNode_def relay_def Let_def split: prod.splits)

lemma relay_outcome:
  assumes "relay m_fd fd msg os = (code, os')" and "fd \<in> open_fds os" and "m_fd \<noteq> fd"
  shows "open_fds os' = open_fds os - {fd} \<and> os_ebadf os' = os_ebadf os
    \<and> (code = RECV_FAILED \<and> map_of (os_desc os') m_fd = map_of (os_desc os) m_fd
       \<or> code = OK \<and> (\<exists>reply os4. reply \<noteq> [] \<and> length reply \<le> 1048576
            \<and> map_of (os_desc os4) m_fd = map_of (os_desc os) m_fd \<and> os' = snd (send_on m_fd reply os4)))"
proof -
  obtain sent os3 where s: "send_on fd msg os = (sent, os3)" by fastforce
  obtain received reply os4 where r: "recv_on fd [] os3 = ((received, reply), os4)" by (metis prod.collapse)
  have fr: "open_fds os4 = open_fds os" "os_ebadf os4 = os_ebadf os"
    using send_on_frame [OF s] recv_on_frame [OF r] by simp_all
  have keep: "map_of (os_desc (sys_close fd os4)) m_fd = map_of (os_desc os) m_fd"
    using on_sock_other [OF s [unfolded send_on_def] assms(3)] on_sock_other [OF r [unfolded recv_on_def] assms(3)]
      sys_close_other [OF assms(3)] by simp
  have closed: "open_fds (sys_close fd os4) = open_fds os - {fd}" "os_ebadf (sys_close fd os4) = os_ebadf os"
    using fr assms(2) by (simp_all add: pool_simps)
  show ?thesis
  proof (cases received)
    case True
    with assms(1) s r have res: "code = OK" "os' = snd (send_on m_fd reply (sys_close fd os4))"
      by (simp_all add: relay_def)
    moreover have "open_fds os' = open_fds (sys_close fd os4)" "os_ebadf os' = os_ebadf (sys_close fd os4)"
      using send_on_frame [of m_fd reply "sys_close fd os4"] res(2) by (metis prod.collapse)+
    ultimately show ?thesis using recv_on_message r True keep closed by metis
  next
    case False
    with assms(1) s r keep closed show ?thesis by (simp add: relay_def)
  qed
qed

lemma forwardToNode_outcomes_imp:
  assumes "m_fd \<in> open_fds os" and "forwardToNode m_fd node msg os = (code, os')"
  shows "open_fds os' = open_fds os \<and> os_ebadf os' = os_ebadf os
    \<and> (code \<in> {FD_FIALED, CONNECT_FAILED, RECV_FAILED} \<and> map_of (os_desc os') m_fd = map_of (os_desc os) m_fd
       \<or> code = OK \<and> (\<exists>reply os4. reply \<noteq> [] \<and> length reply \<le> 1048576
            \<and> map_of (os_desc os4) m_fd = map_of (os_desc os) m_fd \<and> os' = snd (send_on m_fd reply os4)))"
proof -
  obtain fd os1 where s: "sys_socket os = (fd, os1)" by fastforce
  show ?thesis
  proof (cases "fd < 0")
    case True
    with assms(2) s sys_socket_cases [OF s] show ?thesis by (simp add: forwardToNode_def)
  next
    case False
    with sys_socket_cases [OF s] have fd: "fd \<notin> open_fds os" "open_fds os1 = insert fd (open_fds os)"
      "os_ebadf os1 = os_ebadf os" by auto
    with assms(1) have ne: "m_fd \<noteq> fd" by blast
    obtain ret os2 where c: "connectWithRetry fd (ni_host node, of_int (ni_port node)) 5 os1 = (ret, os2)" by fastforce
    from connectWithRetry_frame [OF c] fd have f2: "open_fds os2 = insert fd (open_fds os)" "os_ebadf os2 = os_ebadf os"
      by auto
    have k1: "map_of (os_desc os1) m_fd = map_of (os_desc os) m_fd" using sys_socket_other [OF s ne] .
    have k2: "map_of (os_desc os2) m_fd = map_of (os_desc os) m_fd"
      using connect_loop_other [OF c [unfolded connectWithRetry_def] ne] k1 by simp
    show ?thesis
    proof (cases "os_pton os1 (ni_host node) \<and> ret")
      case True
      with assms(2) s c False have "relay m_fd fd msg os2 = (code, os')" by (simp add: forwardToNode_relay)
      from relay_outcome [OF this _ ne] f2 fd(1) k2 show ?thesis by auto
    next
      case no: False
      have "code \<in> {FD_FIALED, CONNECT_FAILED}" "os' = sys_close fd os1 \<or> os' = sys_close fd os2"
        using assms(2) s c no False by (auto simp: forwardToNode_relay split: if_splits)
      with fd f2 k1 k2 show ?thesis by (auto simp: pool_simps sys_close_other [OF ne])
    qed
  qed
qed

text \<open>The line to the other node: what is written on it, what comes back, and where it goes.\<close>

lemma connect_loop_True:
  "connect_loop n fd a os = (True, os') \<Longrightarrow>
   \<exists>s. Some s \<in> set (os_dial os) \<and> map_of (os_desc os') fd = Some \<lparr>d_addr = Some a, d_sock = s\<rparr>"
proof (induction n arbitrary: os)
  case (Suc n)
  obtain ok os1 where c: "sys_connect fd a os = (ok, os1)" by fastforce
  show ?case
  proof (cases ok)
    case True
    with c Suc.prems sys_connect_True [of fd a os os'] show ?thesis by simp
  next
    case False
    with c Suc sys_connect_dial [OF c] show ?thesis by fastforce
  qed
qed simp

lemma connect_loop_gone: "connect_loop n fd a os = (ok, os') \<Longrightarrow> os_gone os' = os_gone os"
proof (induction n arbitrary: os)
  case (Suc n)
  obtain ok1 os1 where c: "sys_connect fd a os = (ok1, os1)" by fastforce
  with Suc sys_connect_gone [OF c] show ?case by (cases ok1) auto
qed simp

lemma relay_line:
  assumes "map_of (os_desc os) fd = Some d" and "map_of (os_desc os) m_fd = Some c" and "m_fd \<noteq> fd"
    and "sendMessage (d_sock d) msg = (sent, s1)" and "recvMessage s1 [] = (received, reply, s2)"
  shows "\<exists>os'. relay m_fd fd msg os = (if received then OK else RECV_FAILED, os')
    \<and> os_gone os' = os_gone os @ [d\<lparr>d_sock := s2\<rparr>]
    \<and> map_of (os_desc os') m_fd = Some (if received then c\<lparr>d_sock := snd (sendMessage (d_sock c) reply)\<rparr> else c)"
proof -
  let ?os3 = "os\<lparr>os_desc := AList.update fd (d\<lparr>d_sock := s1\<rparr>) (os_desc os)\<rparr>"
  let ?os4 = "os\<lparr>os_desc := AList.update fd (d\<lparr>d_sock := s2\<rparr>) (AList.update fd (d\<lparr>d_sock := s1\<rparr>) (os_desc os))\<rparr>"
  let ?os5 = "sys_close fd ?os4"
  have send: "send_on fd msg os = (sent, ?os3)" using assms(1,4) by (simp add: send_on_def on_sock_def)
  have recv: "recv_on fd [] ?os3 = ((received, reply), ?os4)" using assms(5) by (simp add: recv_on_def on_sock_def)
  have gone: "os_gone ?os5 = os_gone os @ [d\<lparr>d_sock := s2\<rparr>]" using sys_close_gone [of ?os4 fd] by simp
  have c: "map_of (os_desc ?os5) m_fd = Some c" using sys_close_other [OF assms(3)] assms(2,3) by simp
  show ?thesis
  proof (cases received)
    case True
    obtain r os6 where relayed: "send_on m_fd reply ?os5 = (r, os6)" by fastforce
    then have "os_gone os6 = os_gone ?os5" unfolding send_on_def by (rule on_sock_gone)
    moreover have "map_of (os_desc os6) m_fd = Some (c\<lparr>d_sock := snd (sendMessage (d_sock c) reply)\<rparr>)"
      using relayed c by (auto simp: send_on_def on_sock_def split: prod.splits)
    moreover have "relay m_fd fd msg os = (OK, os6)" using send recv True relayed by (simp add: relay_def)
    ultimately show ?thesis using gone True by (intro exI [of _ os6]) simp
  next
    case False
    then have "relay m_fd fd msg os = (RECV_FAILED, ?os5)" using send recv by (simp add: relay_def)
    with gone c False show ?thesis by (intro exI [of _ ?os5]) simp
  qed
qed

lemma forwardToNode_line:
  assumes "map_of (os_desc os) m_fd = Some c" and "forwardToNode m_fd node msg os = (code, os')"
  shows "code \<in> {FD_FIALED, CONNECT_FAILED} \<and> map_of (os_desc os') m_fd = Some c
    \<or> (\<exists>s sent s1 received reply s2. Some s \<in> set (os_dial os) \<and> sendMessage s msg = (sent, s1)
        \<and> recvMessage s1 [] = (received, reply, s2) \<and> code = (if received then OK else RECV_FAILED)
        \<and> os_gone os' = os_gone os @ [\<lparr>d_addr = Some (ni_host node, of_int (ni_port node)), d_sock = s2\<rparr>]
        \<and> map_of (os_desc os') m_fd = Some (if received then c\<lparr>d_sock := snd (sendMessage (d_sock c) reply)\<rparr> else c))"
proof -
  let ?a = "(ni_host node, of_int (ni_port node) :: 16 word)"
  obtain fd os1 where s: "sys_socket os = (fd, os1)" by fastforce
  obtain ret os2 where k: "connectWithRetry fd ?a 5 os1 = (ret, os2)" by fastforce
  note con = k [unfolded connectWithRetry_def]
  have op: "m_fd \<in> open_fds os" using assms(1) map_of_open by blast
  show ?thesis
  proof (cases "fd \<ge> 0 \<and> os_pton os1 (ni_host node) \<and> ret")
    case True
    with sys_socket_cases [OF s] op have ne: "m_fd \<noteq> fd" by auto
    have c: "map_of (os_desc os2) m_fd = Some c"
      using connect_loop_other [OF con ne] sys_socket_other [OF s ne] assms(1) by simp
    obtain t where t: "Some t \<in> set (os_dial os1)" "map_of (os_desc os2) fd = Some \<lparr>d_addr = Some ?a, d_sock = t\<rparr>"
      using connect_loop_True [of "nat 5" fd ?a os1 os2] con True by auto
    obtain sent s1 where snd: "sendMessage t msg = (sent, s1)" by fastforce
    obtain received reply s2 where rcv: "recvMessage s1 [] = (received, reply, s2)" by (metis prod_cases3)
    have gone: "os_gone os2 = os_gone os" using connect_loop_gone [OF con] sys_socket_gone [OF s] by simp
    have "os_dial os1 = os_dial os" using s by (auto simp: sys_socket_def Let_def split: if_splits)
    moreover have "relay m_fd fd msg os2 = (code, os')" using assms(2) s k True by (simp add: forwardToNode_relay)
    ultimately show ?thesis using relay_line [OF t(2) c ne _ rcv, of msg sent] t(1) snd rcv gone by fastforce
  next
    case False
    then have "code \<in> {FD_FIALED, CONNECT_FAILED}" using assms(2) s k by (auto simp: forwardToNode_relay split: if_splits)
    with forwardToNode_outcomes_imp [OF op assms(2)] assms(1) show ?thesis by auto
  qed
qed

section \<open>Properties\<close>

text \<open>
  C36. \<open>forwardToNode\<close> ends in one of four ways and closes its socket in each of them: the open
  descriptors are the same before and after. With \<open>FD_FIALED\<close> or \<open>CONNECT_FAILED\<close> the client's
  connection is untouched. Otherwise the line that was opened and closed goes to the address of the
  node, the request was handed to \<open>sendMessage\<close> on it and the reply is what \<open>recvMessage\<close> reads there
  next; exactly this reply is sent to the client when one was received (\<open>OK\<close>), and nothing when
  none was (\<open>RECV_FAILED\<close>).
\<close>

theorem forwardToNode_outcomes:
  assumes "map_of (os_desc os) m_fd = Some c" and "forwardToNode m_fd node msg os = (code, os')"
  shows "open_fds os' = open_fds os \<and> os_ebadf os' = os_ebadf os
    \<and> (code \<in> {FD_FIALED, CONNECT_FAILED} \<and> map_of (os_desc os') m_fd = Some c
       \<or> (\<exists>s sent s1 received reply s2. Some s \<in> set (os_dial os) \<and> sendMessage s msg = (sent, s1)
            \<and> recvMessage s1 [] = (received, reply, s2) \<and> code = (if received then OK else RECV_FAILED)
            \<and> os_gone os' = os_gone os @ [\<lparr>d_addr = Some (ni_host node, of_int (ni_port node)), d_sock = s2\<rparr>]
            \<and> map_of (os_desc os') m_fd = Some (if received then c\<lparr>d_sock := snd (sendMessage (d_sock c) reply)\<rparr> else c)))"
proof -
  have "m_fd \<in> open_fds os" using assms(1) map_of_open by blast
  from forwardToNode_outcomes_imp [OF this assms(2)] forwardToNode_line [OF assms] show ?thesis by simp
qed

text \<open>A client on descriptor 3 and a network on which one \<open>connect\<close> succeeds.\<close>

definition forward_os :: "arrival list \<Rightarrow> net_os" where
  "forward_os evs = \<lparr>os_desc = [(3, \<lparr>d_addr = None, d_sock = mk_socket [] []\<rparr>)], os_limit = 8, os_pton = (\<lambda>_. True),
     os_dial = [Some \<lparr>rx_buf = [], rx_next = evs, tx_out = [], tx_room = []\<rparr>], os_ebadf = 0, os_gone = []\<rparr>"

lemmas forward_eval = forwardToNode_def forward_os_def sys_socket_def lowest_free_def connectWithRetry_def
  sys_connect_def send_on_def recv_on_def on_sock_def sys_close_def open_fds_def mk_socket_def mk_node_def

lemma forward_reply:
  "recvMessage \<lparr>rx_buf = [], rx_next = [Arrives (frame_bytes ''PONG''), Arrives []], tx_out = t, tx_room = r\<rparr> []
   = (True, ''PONG'', \<lparr>rx_buf = [], rx_next = [], tx_out = t, tx_room = r\<rparr>)"
  by (simp add: recvMessage_def recv_sys_def frame_bytes_def MAX_MESSAGE_SIZE_def vec_resize_def Let_def)

theorem forwardToNode_outcomes_witness:
  "\<exists>d. map_of (os_desc (snd (forwardToNode 3 (mk_node ''b'' True) ''PING''
         (forward_os [Arrives (frame_bytes ''PONG''), Arrives []])))) 3 = Some d
     \<and> tx_out (d_sock d) = frame_bytes ''PONG''"
proof -
  let ?os = "forward_os [Arrives (frame_bytes ''PONG''), Arrives []]"
  let ?r = "forwardToNode 3 (mk_node ''b'' True) ''PING'' ?os"
  let ?s = "\<lparr>rx_buf = [], rx_next = [Arrives (frame_bytes ''PONG''), Arrives []], tx_out = [], tx_room = []\<rparr>"
  have c: "map_of (os_desc ?os) 3 = Some \<lparr>d_addr = None, d_sock = mk_socket [] []\<rparr>" by (simp add: forward_os_def)
  have ok: "fst ?r = OK" by (simp add: forward_eval eval_nat_numeral sendMessage_room forward_reply)
  have dial: "s = ?s" if "Some s \<in> set (os_dial ?os)" for s using that by (simp add: forward_os_def)
  have recv: "recvMessage s1 [] = (True, ''PONG'', \<lparr>rx_buf = [], rx_next = [], tx_out = frame_bytes ''PING'', tx_room = []\<rparr>)"
    if "sendMessage ?s ''PING'' = (sent, s1)" for sent s1
    using that by (auto simp: sendMessage_room forward_reply)
  from forwardToNode_outcomes [OF c prod.collapse [symmetric], of "mk_node ''b'' True" "''PING''"] ok obtain s sent s1 received reply s2
    where "Some s \<in> set (os_dial ?os)" "sendMessage s ''PING'' = (sent, s1)" "recvMessage s1 [] = (received, reply, s2)"
      "map_of (os_desc (snd ?r)) 3 = Some (if received then
         \<lparr>d_addr = None, d_sock = snd (sendMessage (mk_socket [] []) reply)\<rparr> else \<lparr>d_addr = None, d_sock = mk_socket [] []\<rparr>)"
    by auto
  with dial recv show ?thesis by (auto simp: mk_socket_def sendMessage_room)
qed

text \<open>
  The reply has to be there already: when the connection is made at the first attempt and the
  other node's reply has not arrived by the time \<open>recvMessage\<close> is called, \<open>forwardToNode\<close>
  returns \<open>RECV_FAILED\<close> and closes the socket, however soon the reply would have come, and the
  client is sent nothing.
\<close>

theorem forwardToNode_late_reply:
  assumes "length (os_desc os) < os_limit os" and "os_pton os (ni_host node)" and "m_fd \<in> open_fds os"
    and "os_dial os = Some s # ds" and "rx_buf s = []" and "rx_next s = Arrives [] # evs"
  shows "fst (forwardToNode m_fd node msg os) = RECV_FAILED
    \<and> map_of (os_desc (snd (forwardToNode m_fd node msg os))) m_fd = map_of (os_desc os) m_fd"
proof -
  obtain fd os1 where so: "sys_socket os = (fd, os1)" by fastforce
  with assms(1) have pos: "\<not> fd < 0" and os1: "os_pton os1 = os_pton os" "os_dial os1 = os_dial os"
    using lowest_free_pos [of "map fst (os_desc os)"] by (auto simp: sys_socket_def Let_def)
  let ?d = "\<lparr>d_addr = Some (ni_host node, of_int (ni_port node)), d_sock = s\<rparr>"
  let ?os2 = "os1\<lparr>os_dial := ds, os_desc := AList.update fd ?d (os_desc os1)\<rparr>"
  have c: "connectWithRetry fd (ni_host node, of_int (ni_port node)) 5 os1 = (True, ?os2)"
    using assms(4) os1 by (simp add: connectWithRetry_def sys_connect_def eval_nat_numeral)
  obtain ok s1 where send: "sendMessage s msg = (ok, s1)" by fastforce
  have s1: "rx_buf s1 = []" "rx_next s1 = Arrives [] # evs"
    using send assms(5,6) by (auto simp: sendMessage_def send_sys_def Let_def split: list.splits if_splits)
  have "fst (relay m_fd fd msg ?os2) = RECV_FAILED"
    using send s1 by (simp add: relay_def send_on_def recv_on_def on_sock_def recvMessage_def recv_sys_def)
  then have "fst (forwardToNode m_fd node msg os) = RECV_FAILED"
    using so pos c assms(2) os1(1) by (simp add: forwardToNode_relay)
  with forwardToNode_outcomes_imp [OF assms(3) prod.collapse [symmetric]] show ?thesis by force
qed

theorem forwardToNode_late_reply_witness:
  "fst (forwardToNode 3 (mk_node ''b'' True) ''PING'' (forward_os [Arrives [], Arrives (frame_bytes ''PONG'')])) = RECV_FAILED
   \<and> fst (forwardToNode 3 (mk_node ''b'' True) ''PING'' (forward_os [Arrives (frame_bytes ''PONG''), Arrives []])) = OK"
proof -
  have "fst (forwardToNode 3 (mk_node ''b'' True) ''PING'' (forward_os [Arrives [], Arrives (frame_bytes ''PONG'')])) = RECV_FAILED"
    using forwardToNode_late_reply [of "forward_os [Arrives [], Arrives (frame_bytes ''PONG'')]" "mk_node ''b'' True" 3]
    by (simp add: forward_os_def open_fds_def)
  moreover have "fst (forwardToNode 3 (mk_node ''b'' True) ''PING'' (forward_os [Arrives (frame_bytes ''PONG''), Arrives []])) = OK"
    by (simp add: forward_eval eval_nat_numeral sendMessage_room forward_reply)
  ultimately show ?thesis by blast
qed

end
