(* ===== verification/Raft_Properties.thy ===== *)
theory Raft_Properties
  imports Raft_Cluster
begin

text \<open>
  The properties of the Raft component beyond votes: memory safety and monotonicity over runs, the
  log handling of followers, what the database sees, the commit rule of the leader, and the
  places where the code departs from Raft.
\<close>

section \<open>Runs keep a node well-formed\<close>

text \<open>How many log entries the events of a run bring to a node, at most.\<close>

fun event_entries :: "raft_event \<Rightarrow> nat" where
  "event_entries (EvAppend args r) = length (ae_entries args)"
| "event_entries (EvSubmit k v ok) = 1"
| "event_entries _ = 0"

definition run_entries :: "raft_event list \<Rightarrow> nat" where
  "run_entries evs = sum_list (map event_entries evs)"

lemma run_entries_snoc [simp]: "run_entries (evs @ [ev]) = run_entries evs + event_entries ev"
  by (simp add: run_entries_def)

lemma ae_spec_length:
  "length (m_logs (fst (snd (ae_spec put t args s d)))) \<le> length (m_logs s) + length (ae_entries args)"
  using length_ae_merge [of "unat (ae_prevLogIndex args)" "m_logs s" "ae_entries args"]
  by (auto simp: ae_spec_def ae_accepts_def Let_def)

lemma raft_step_wf:
  assumes "raft_step rvs aes put (s, d) ev (s', d')" and "raft_wf s" and "event_ok ev"
    and "length (m_logs s) + event_entries ev < 2 ^ 64"
  shows "raft_wf s' \<and> length (m_logs s') \<le> length (m_logs s) + event_entries ev"
  using assms(1)
proof cases
  case (vote t args r)
  then show ?thesis
    using handleRequestVote_wf [OF assms(2) vote(3)] handleRequestVote_fields(1) [OF vote(3)]
    by (simp add: same_log_def)
next
  case (append t args r)
  with assms(3) have ok: "ae_ok args" by simp
  with append assms(2) have "ae_spec put t args s d = (r, s', d')"
    using handleAppendEntries_spec [of s args put t d] by (simp add: raft_wf_def)
  with append show ?thesis
    using handleAppendEntries_wf [OF assms(2) ok, of put t d] ae_spec_length [of put t args s d] by simp
next
  case (submit k v ok)
  with assms(4) have "length (m_logs s) + 1 < 2 ^ 64" by simp
  from submitLog_wf [OF assms(2) this, of k v] submit show ?thesis by auto
next
  case (election t w w')
  then show ?thesis using startElection_wf [OF assms(2), of rvs t w] by (auto simp: same_log_def)
next
  case (heartbeat w w')
  then show ?thesis using heartbeatLoop_round_wf [OF assms(2), of aes put w d] by (auto simp: same_log_def)
qed

lemma raft_run_wf:
  assumes "raft_run rvs aes put x evs y" and "x = (RaftNode_init t i ps, d)"
    and "\<forall>ev \<in> set evs. event_ok ev" and "1 + run_entries evs < 2 ^ 64"
  shows "raft_wf (fst y) \<and> length (m_logs (fst y)) \<le> 1 + run_entries evs"
  using assms
proof (induction rule: raft_run.induct)
  case start
  then show ?case using RaftNode_init_wf [of t i ps] by (simp add: RaftNode_init_def)
next
  case (step evs y ev z)
  obtain s d1 s' d2 where yz: "y = (s, d1)" "z = (s', d2)" by fastforce
  from step yz have "raft_wf s" and "length (m_logs s) \<le> 1 + run_entries evs" by auto
  with raft_step_wf [of rvs aes put s d1 ev s' d2] step yz show ?case by fastforce
qed

lemma raft_step_term:
  assumes "raft_step rvs aes put (s, d) ev (s', d')" and "event_ok ev"
  shows "m_currentTerm s \<le> m_currentTerm s'"
  using assms(1)
proof cases
  case (vote t args r)
  then show ?thesis using handleRequestVote_fields(8) [OF vote(3)] by simp
next
  case (append t args r)
  then show ?thesis using handleAppendEntries_fields [OF append(2)] by simp
next
  case (submit k v ok)
  then show ?thesis using submitLog_frame [OF submit(3)] by (auto simp: vote_frame_def)
next
  case (election t w w')
  with startElection_frame [OF election(4)] assms(2) show ?thesis
    using word_plus_one_greater [of "m_currentTerm s"] by (auto simp: vote_frame_def)
next
  case (heartbeat w w')
  then have "vote_frame s s'"
    by (auto simp: heartbeatLoop_round_def dest: heartbeat_peers_frame split: if_splits)
  then show ?thesis by (auto simp: vote_frame_def)
qed

text \<open>
  C9. Memory safety: after any run of operations in any order, with numbered entries and fewer
  than $2^{64}$ of them, no operation of the node reads its log out of range: every handler, an
  election and a heartbeat round return a result, and the node stays well-formed.
\<close>

theorem raft_no_undefined_behaviour:
  assumes "raft_run rvs aes put (RaftNode_init t i ps, d0) evs (s, d)"
    and "\<forall>ev \<in> set evs. event_ok ev" and "2 + run_entries evs < 2 ^ 64"
  shows "raft_wf s
    \<and> (\<forall>tm args. \<exists>r. handleRequestVote tm args s = Some r)
    \<and> (\<forall>tm args. ae_ok args \<longrightarrow> (\<exists>r. handleAppendEntries put tm args s d = Some r))
    \<and> (\<forall>k v. \<exists>r. submitLog k v s = Some r)
    \<and> (\<forall>tm w. \<exists>r. electionLoop_round rvs tm s w = Some r)
    \<and> (\<forall>w. \<exists>r. heartbeatLoop_round aes put s w d = Some r)"
proof -
  from raft_run_wf [OF assms(1) refl assms(2)] assms(3)
  have wf: "raft_wf s" and len: "length (m_logs s) + 1 < 2 ^ 64" by auto
  from wf have ne: "m_logs s \<noteq> []" by (simp add: raft_wf_def)
  show ?thesis
    using wf handleRequestVote_defined [OF ne] handleAppendEntries_wf [OF wf] submitLog_wf [OF wf len]
      electionLoop_round_wf [OF wf] heartbeatLoop_round_wf [OF wf]
    by fast
qed

theorem raft_no_undefined_behaviour_witness:
  "\<exists>s. raft_run script_send no_append list_put (RaftNode_init tick ''a'' [''b'', ''c''], [])
      [EvElection 1 [''b'', ''c''] True] (s, [])
    \<and> (\<exists>r. submitLog ''k'' ''v'' s = Some r)"
proof -
  from elect_a obtain s where run: "raft_run script_send no_append list_put
      (RaftNode_init tick ''a'' [''b'', ''c''], []) [EvElection 1 [''b'', ''c''] True] (s, [])" by blast
  with raft_no_undefined_behaviour [OF run] show ?thesis by (auto simp: run_entries_def)
qed

text \<open>
  A node's term never decreases, over every run in which its own counter does not wrap.
\<close>

theorem raft_term_monotone:
  "raft_run rvs aes put x evs y \<Longrightarrow> \<forall>ev \<in> set evs. event_ok ev \<Longrightarrow>
   m_currentTerm (fst x) \<le> m_currentTerm (fst y)"
proof (induction rule: raft_run.induct)
  case (step evs y ev z)
  have "m_currentTerm (fst y) \<le> m_currentTerm (fst z)"
    using raft_step_term [of rvs aes put "fst y" "snd y" ev "fst z" "snd z"] step by simp
  with step show ?case by fastforce
qed simp

theorem raft_term_monotone_witness:
  "\<exists>s. raft_run script_send no_append list_put (RaftNode_init tick ''a'' [''b'', ''c''], [])
      [EvElection 1 [''b'', ''c''] True] (s, [])
    \<and> m_currentTerm (RaftNode_init tick ''a'' [''b'', ''c'']) \<le> m_currentTerm s"
proof -
  from elect_a obtain s where run: "raft_run script_send no_append list_put
      (RaftNode_init tick ''a'' [''b'', ''c''], []) [EvElection 1 [''b'', ''c''] True] (s, [])" by blast
  with raft_term_monotone [OF run] show ?thesis by auto
qed

section \<open>The follower's log\<close>

text \<open>
  C10. Refinement: on a numbered log and numbered entries, \<open>handleAppendEntries\<close> with its index
  loops computes the loop-free specification \<open>ae_spec\<close>: refuse a stale term, refuse when the
  previous entry is missing or of another term, else keep the log up to the first entry whose
  term differs, append the rest of the request, raise the commit index to at most the end of the
  log and apply what became committed.
\<close>

theorem handleAppendEntries_refines:
  assumes "log_ok (m_logs s)" and "ae_ok args"
  shows "handleAppendEntries put t args s d = Some (ae_spec put t args s d)"
  using assms by (rule handleAppendEntries_spec)

text \<open>Requests and logs for the concrete instances.\<close>

definition entry :: "u64 \<Rightarrow> u64 \<Rightarrow> string \<Rightarrow> LogEntry" where
  "entry t i v = \<lparr>log_term = t, log_index = i, log_key = ''k'', log_value = v\<rparr>"

definition append_req :: "u64 \<Rightarrow> u64 \<Rightarrow> u64 \<Rightarrow> LogEntry list \<Rightarrow> u64 \<Rightarrow> AppendEntriesArgs" where
  "append_req t p pt es c = \<lparr>ae_term = t, ae_leaderId = ''a'', ae_prevLogIndex = p, ae_prevLogTerm = pt,
     ae_entries = es, ae_leaderCommit = c\<rparr>"

definition follower :: "u64 \<Rightarrow> LogEntry list \<Rightarrow> RaftNode" where
  "follower t es = (RaftNode_init tick ''b'' [''a'', ''c''])\<lparr>m_currentTerm := t, m_logs := dummy_entry # es\<rparr>"

lemmas append_eval = raft_eval entry_def append_req_def follower_def list_put_def

lemma follower_log_ok: "log_ok (m_logs (follower 1 [entry 1 1 ''x'', entry 1 2 ''y'']))"
  by (simp add: log_ok_def append_eval)

lemma append_req_ok: "ae_ok (append_req 2 1 1 [entry 2 2 ''z''] 2)"
  by (simp add: ae_ok_def append_eval)

theorem handleAppendEntries_refines_witness:
  "handleAppendEntries list_put tick (append_req 2 1 1 [entry 2 2 ''z''] 2)
     (follower 1 [entry 1 1 ''x'', entry 1 2 ''y'']) []
   = Some (ae_spec list_put tick (append_req 2 1 1 [entry 2 2 ''z''] 2)
       (follower 1 [entry 1 1 ''x'', entry 1 2 ''y'']) [])
   \<and> snd (snd (ae_spec list_put tick (append_req 2 1 1 [entry 2 2 ''z''] 2)
       (follower 1 [entry 1 1 ''x'', entry 1 2 ''y'']) [])) = [(''k'', ''x''), (''k'', ''z'')]"
  using handleAppendEntries_refines [OF follower_log_ok append_req_ok, of list_put tick "[]"]
  by (simp add: ae_spec_def ae_accepts_def ae_commit_def ae_merge_def ae_follow_def log_slice_def
      put_entry_def vec_size_def append_eval Let_def)

text \<open>The entry that stands at the position of a new one is the new one, or the old one of the same term.\<close>

lemma merge_entries_nth:
  "k < length es \<Longrightarrow> merge_entries rest es ! k = es ! k
     \<or> k < length rest \<and> merge_entries rest es ! k = rest ! k \<and> log_term (rest ! k) = log_term (es ! k)"
proof (induction rest es arbitrary: k rule: merge_entries.induct)
  case (3 r rs e es)
  then show ?case by (cases k) auto
qed simp_all

lemma ae_merge_nth:
  assumes "p < length logs" and "k < length es"
  shows "ae_merge logs p es ! (p + 1 + k) = es ! k
    \<or> p + 1 + k < length logs \<and> ae_merge logs p es ! (p + 1 + k) = logs ! (p + 1 + k) \<and> log_term (logs ! (p + 1 + k)) = log_term (es ! k)"
  using merge_entries_nth [OF assms(2), of "drop (p + 1) logs"] assms(1) by (auto simp: ae_merge_def nth_append)

text \<open>
  C22. What a request of a leader does to a follower whose log and whose request are numbered. A request
  of an earlier term changes nothing; one that is refused for its previous entry changes role, term and
  election timer only, not the log and not the database. An accepted one keeps the log up to
  \<open>prevLogIndex\<close>; at the position of each new entry then stands this entry or the old one of the same
  term; and handling the same request again is accepted and leaves the log as it is.
\<close>

theorem append_entries_log:
  assumes "log_ok (m_logs s)" and "ae_ok args"
    and "handleAppendEntries put t args s d = Some (r, s', d')"
  shows "(\<not> aer_success r \<longrightarrow> d' = d \<and> s' = (if ae_term args < m_currentTerm s then s
            else resetElectionTimer t (s\<lparr>m_state := Follower, m_currentTerm := ae_term args\<rparr>)))
    \<and> (aer_success r \<longrightarrow>
        take (unat (ae_prevLogIndex args) + 1) (m_logs s') = take (unat (ae_prevLogIndex args) + 1) (m_logs s)
      \<and> (\<forall>k < length (ae_entries args). let i = unat (ae_prevLogIndex args) + 1 + k; e = ae_entries args ! k in
            i < length (m_logs s') \<and> (m_logs s' ! i = e
              \<or> i < length (m_logs s) \<and> m_logs s' ! i = m_logs s ! i \<and> log_term (m_logs s ! i) = log_term e))
      \<and> (\<forall>t2 d2. \<exists>r2 s2 d3. handleAppendEntries put t2 args s' d2 = Some (r2, s2, d3)
          \<and> aer_success r2 \<and> m_logs s2 = m_logs s'))"
proof (cases "ae_term args < m_currentTerm s \<or> \<not> ae_accepts args (m_logs s)")
  case True
  with assms(3) show ?thesis by (auto simp: handleAppendEntries_refuse ae_follow_def split: if_splits)
next
  case False
  let ?p = "unat (ae_prevLogIndex args)"
  let ?logs = "ae_merge (m_logs s) ?p (ae_entries args)"
  from assms have "ae_spec put t args s d = (r, s', d')" by (simp add: handleAppendEntries_spec)
  with False have r: "aer_success r" and s': "m_logs s' = ?logs" "m_currentTerm s' = ae_term args"
    by (auto simp: ae_spec_def Let_def)
  from False have p: "?p < length (m_logs s)" by (simp add: ae_accepts_def)
  have pre: "take (?p + 1) ?logs = take (?p + 1) (m_logs s)" by (rule ae_merge_prefix [OF p])
  have "ae_accepts args ?logs"
  proof -
    have "?logs ! ?p = m_logs s ! ?p" using p by (simp add: ae_merge_def nth_append)
    with False p show ?thesis by (simp add: ae_accepts_def ae_merge_def)
  qed
  then have ok2: "aer_success (fst (ae_spec put t2 args s' d2))" for t2 d2
    using s' by (simp add: ae_spec_success)
  then have logs2: "m_logs (fst (snd (ae_spec put t2 args s' d2))) = m_logs s'" for t2 d2
    using s'(1) ae_merge_idem [OF p] by (simp add: ae_spec_logs)
  have "log_ok (m_logs s')" using log_ok_merge [OF assms(1,2) p] s' by simp
  then have again: "handleAppendEntries put t2 args s' d2 = Some (ae_spec put t2 args s' d2)" for t2 d2
    by (rule handleAppendEntries_spec [OF _ assms(2)])
  have "\<forall>t2 d2. \<exists>r2 s2 d3. handleAppendEntries put t2 args s' d2 = Some (r2, s2, d3)
          \<and> aer_success r2 \<and> m_logs s2 = m_logs s'"
    using again ok2 logs2 by (metis prod.collapse)
  then show ?thesis
    using r pre s'(1) ae_merge_terms [OF p, of _ "ae_entries args"] ae_merge_nth [OF p, of _ "ae_entries args"]
    by (simp add: Let_def)
qed

theorem append_entries_log_witness:
  "\<exists>r s' d'. handleAppendEntries list_put tick (append_req 2 1 1 [entry 2 2 ''z''] 2)
       (follower 1 [entry 1 1 ''x'', entry 1 2 ''y'']) [] = Some (r, s', d') \<and> aer_success r
     \<and> log_term (m_logs s' ! 2) = 2 \<and> take 2 (m_logs s') = [dummy_entry, entry 1 1 ''x'']"
proof -
  let ?s = "follower 1 [entry 1 1 ''x'', entry 1 2 ''y'']" and ?args = "append_req 2 1 1 [entry 2 2 ''z''] 2"
  obtain r s' d' where h: "handleAppendEntries list_put tick ?args ?s [] = Some (r, s', d')"
    using handleAppendEntries_spec [OF follower_log_ok append_req_ok, of list_put tick "[]"] by (metis prod.collapse)
  then have "ae_spec list_put tick ?args ?s [] = (r, s', d')"
    using handleAppendEntries_spec [OF follower_log_ok append_req_ok, of list_put tick "[]"] by simp
  then have "aer_success r" by (auto simp: ae_spec_def ae_accepts_def append_eval Let_def)
  with append_entries_log [OF follower_log_ok append_req_ok h] h show ?thesis
    by (auto simp: append_eval Let_def numeral_2_eq_2)
qed

text \<open>
  The Log Matching property of two logs: where they hold entries of the same term at the same
  position, they agree up to there.
\<close>

definition log_match :: "LogEntry list \<Rightarrow> LogEntry list \<Rightarrow> bool" where
  "log_match L F \<longleftrightarrow> (\<forall>i. i < length L \<longrightarrow> i < length F \<longrightarrow> log_term (L ! i) = log_term (F ! i)
     \<longrightarrow> take (i + 1) L = take (i + 1) F)"

lemma merge_entries_long: "merge_entries rest es = rest \<or> length (merge_entries rest es) = length es"
  by (induction rest es rule: merge_entries.induct) auto

lemma merge_entries_same:
  assumes "\<And>k. k < length es \<Longrightarrow> k < length rest \<Longrightarrow> log_term (rest ! k) = log_term (es ! k) \<Longrightarrow> rest ! k = es ! k"
  shows "take (length es) (merge_entries rest es) = es"
  using assms
proof (induction rest es rule: merge_entries.induct)
  case (3 r rs e es)
  have IH: "take (length es) (merge_entries rs es) = es" if "log_term r = log_term e"
    using that 3(2) [of "Suc k" for k] by (intro 3(1)) auto
  from 3(2) [of 0] have "log_term r = log_term e \<Longrightarrow> r = e" by simp
  with IH show ?case by simp
qed auto

lemma log_match_nth:
  assumes "log_match L F" and "i < length L" and "i < length F" and "log_term (L ! i) = log_term (F ! i)"
  shows "L ! i = F ! i"
proof -
  from assms have "take (i + 1) L = take (i + 1) F" by (simp add: log_match_def)
  then have "take (i + 1) L ! i = take (i + 1) F ! i" by simp
  then show ?thesis by simp
qed

lemma log_match_merge:
  assumes match: "log_match L F" and p: "p < length L" "p < length F"
    and same: "log_term (L ! p) = log_term (F ! p)" and es: "es = take n (drop (p + 1) L)"
  shows "take (p + 1 + length es) (ae_merge F p es) = take (p + 1 + length es) L"
    and "log_match L (ae_merge F p es)"
proof -
  let ?M = "ae_merge F p es"
  from match p same have pre: "take (p + 1) L = take (p + 1) F" by (simp add: log_match_def)
  have "take (length es) (merge_entries (drop (p + 1) F) es) = es"
  proof (rule merge_entries_same)
    fix k
    assume "k < length es" "k < length (drop (p + 1) F)" "log_term (drop (p + 1) F ! k) = log_term (es ! k)"
    then show "drop (p + 1) F ! k = es ! k"
      using log_match_nth [OF match, of "p + 1 + k"] p by (auto simp: es)
  qed
  then have "take (p + 1 + length es) ?M = take (p + 1) F @ es"
    using p(2) by (simp add: ae_merge_def)
  also have "\<dots> = take (p + 1 + length es) L"
  proof -
    have "take (length es) (drop (p + 1) L) = es" by (simp add: es min_def)
    with take_add [of "p + 1" "length es" L] pre show ?thesis by simp
  qed
  finally show eq: "take (p + 1 + length es) ?M = take (p + 1 + length es) L" .
  show "log_match L ?M"
    unfolding log_match_def
  proof (intro allI impI)
    fix i
    assume i: "i < length L" "i < length ?M" "log_term (L ! i) = log_term (?M ! i)"
    show "take (i + 1) L = take (i + 1) ?M"
    proof (cases "i < p + 1 + length es")
      case True
      then have "take (i + 1) (take (p + 1 + length es) L) = take (i + 1) L"
        and "take (i + 1) (take (p + 1 + length es) ?M) = take (i + 1) ?M" by (simp_all add: min_def)
      with eq show ?thesis by metis
    next
      case False
      with i(2) p(2) have "length (merge_entries (drop (p + 1) F) es) \<noteq> length es"
        by (simp add: ae_merge_def)
      with merge_entries_long have "?M = F" by (metis ae_merge_def append_take_drop_id)
      with match i show ?thesis by (simp add: log_match_def)
    qed
  qed
qed

text \<open>
  C11. Log matching is kept: if the request carries entries cut out of the leader's log \<open>L\<close> after
  position \<open>prevLogIndex\<close>, and the follower's log and \<open>L\<close> agree up to every position where their
  terms agree, then after a successful request they still do, and the follower's log is the
  leader's up to the last entry sent.
\<close>

theorem log_matching_step:
  assumes "log_ok (m_logs s)" and "ae_ok args" and "log_match L (m_logs s)"
    and "unat (ae_prevLogIndex args) < length L"
    and "ae_prevLogTerm args = log_term (L ! unat (ae_prevLogIndex args))"
    and "ae_entries args = take n (drop (unat (ae_prevLogIndex args) + 1) L)"
    and "handleAppendEntries put t args s d = Some (r, s', d')" and "aer_success r"
  shows "log_match L (m_logs s')
    \<and> take (unat (ae_prevLogIndex args) + 1 + length (ae_entries args)) (m_logs s')
      = take (unat (ae_prevLogIndex args) + 1 + length (ae_entries args)) L"
proof -
  from assms(1,2,7) have spec: "ae_spec put t args s d = (r, s', d')" by (simp add: handleAppendEntries_spec)
  with assms(8) have "ae_accepts args (m_logs s)" using ae_spec_success [of put t args s d] by simp
  moreover have "m_logs s' = ae_merge (m_logs s) (unat (ae_prevLogIndex args)) (ae_entries args)"
    using spec assms(8) ae_spec_logs [of put t args s d] by simp
  ultimately show ?thesis
    using log_match_merge [OF assms(3,4) _ _ assms(6)] assms(5) by (simp add: ae_accepts_def)
qed

theorem log_matching_step_witness:
  "\<exists>r s' d'. handleAppendEntries list_put tick (append_req 2 1 1 [entry 2 2 ''z''] 2)
       (follower 1 [entry 1 1 ''x'', entry 1 2 ''y'']) [] = Some (r, s', d')
     \<and> take 3 (m_logs s') = [dummy_entry, entry 1 1 ''x'', entry 2 2 ''z'']"
proof -
  let ?s = "follower 1 [entry 1 1 ''x'', entry 1 2 ''y'']" and ?args = "append_req 2 1 1 [entry 2 2 ''z''] 2"
  let ?L = "[dummy_entry, entry 1 1 ''x'', entry 2 2 ''z'']"
  obtain r s' d' where h: "handleAppendEntries list_put tick ?args ?s [] = Some (r, s', d')"
    using handleAppendEntries_spec [OF follower_log_ok append_req_ok, of list_put tick "[]"] by (metis prod.collapse)
  then have "ae_spec list_put tick ?args ?s [] = (r, s', d')"
    using handleAppendEntries_spec [OF follower_log_ok append_req_ok, of list_put tick "[]"] by simp
  then have ok: "aer_success r" by (auto simp: ae_spec_def ae_accepts_def append_eval Let_def)
  have match: "log_match ?L (m_logs ?s)"
    by (auto simp: log_match_def append_eval less_Suc_eq nth_Cons split: nat.splits)
  from log_matching_step [OF follower_log_ok append_req_ok match, of 1 list_put tick "[]" r s' d'] h ok
  show ?thesis by (auto simp: append_eval numeral_3_eq_3)
qed

section \<open>The state machine\<close>

lemma log_slice_append:
  assumes "a \<le> b" and "b \<le> c" and "unat c < length logs"
  shows "log_slice logs a b @ log_slice logs b c = log_slice logs a c"
proof -
  from assms have le: "unat a \<le> unat b" "unat b \<le> unat c" by (simp_all add: word_le_nat_alt)
  then have "unat c - unat a = (unat b - unat a) + (unat c - unat b)" by simp
  moreover have "drop (unat b - unat a) (drop (unat a + 1) logs) = drop (unat b + 1) logs" using le by simp
  ultimately show ?thesis unfolding log_slice_def by (metis take_add)
qed

lemma log_slice_nth:
  assumes "unat c < length logs" and "k < unat c - unat a"
  shows "length (log_slice logs a c) = unat c - unat a" and "log_slice logs a c ! k = logs ! (unat a + 1 + k)"
  using assms by (auto simp: log_slice_def)

text \<open>
  One call: applying brings the database from the entries up to \<open>m_lastApplied\<close> to the entries up to
  \<open>m_commitIndex\<close> by putting exactly those in between, and committing in two stages puts the same
  entries as committing at once.
\<close>

theorem apply_exactly_once:
  assumes "m_lastApplied s \<le> c" and "c \<le> c'" and "unat c' < length (m_logs s)"
  shows "applyCommittedLogs put (s\<lparr>m_commitIndex := c'\<rparr>) d =
      Some (s\<lparr>m_commitIndex := c', m_lastApplied := c'\<rparr>,
            fold (put_entry put) (log_slice (m_logs s) (m_lastApplied s) c') d)
    \<and> length (log_slice (m_logs s) (m_lastApplied s) c') = unat c' - unat (m_lastApplied s)
    \<and> (\<exists>s1 d1. applyCommittedLogs put (s\<lparr>m_commitIndex := c\<rparr>) d = Some (s1, d1)
        \<and> applyCommittedLogs put (s1\<lparr>m_commitIndex := c'\<rparr>) d1 = applyCommittedLogs put (s\<lparr>m_commitIndex := c'\<rparr>) d)"
proof -
  from assms have c: "unat c < length (m_logs s)" by (simp add: word_le_nat_alt)
  have m: "max (m_lastApplied s) c = c" "max (m_lastApplied s) c' = c'" "max c c' = c'"
    using assms(1,2) by simp_all
  have "log_slice (m_logs s) (m_lastApplied s) c @ log_slice (m_logs s) c c' = log_slice (m_logs s) (m_lastApplied s) c'"
    by (rule log_slice_append [OF assms])
  then have "fold (put_entry put) (log_slice (m_logs s) (m_lastApplied s) c') d =
      fold (put_entry put) (log_slice (m_logs s) c c') (fold (put_entry put) (log_slice (m_logs s) (m_lastApplied s) c) d)"
    by (metis fold_append comp_apply)
  moreover have "length (log_slice (m_logs s) (m_lastApplied s) c') = unat c' - unat (m_lastApplied s)"
    using assms(3) by (simp add: log_slice_def)
  ultimately show ?thesis using assms(3) c m by (simp add: applyCommittedLogs_fold)
qed

theorem apply_exactly_once_witness:
  "applyCommittedLogs list_put ((follower 1 [entry 1 1 ''x'', entry 1 2 ''y''])\<lparr>m_commitIndex := 2\<rparr>) []
   = Some ((follower 1 [entry 1 1 ''x'', entry 1 2 ''y''])\<lparr>m_commitIndex := 2, m_lastApplied := 2\<rparr>,
       [(''k'', ''x''), (''k'', ''y'')])"
proof -
  let ?s = "follower 1 [entry 1 1 ''x'', entry 1 2 ''y'']"
  have le: "m_lastApplied ?s \<le> 1" "unat (2 :: u64) < length (m_logs ?s)" by (simp_all add: append_eval)
  have two: "(1 :: u64) \<le> 2" by simp
  from apply_exactly_once [OF le(1) two le(2), of list_put "[]"] show ?thesis
    by (simp add: log_slice_def put_entry_def append_eval)
qed





















text \<open>
  The entries that were applied need not be those of the log: a request that conflicts below
  \<open>lastApplied\<close> replaces an entry that has been applied, and the one that takes its place never is.
\<close>

theorem applied_entry_replaced:
  "\<exists>r s'. handleAppendEntries list_put tick (append_req 2 0 0 [entry 2 1 ''z''] 1)
       ((follower 1 [entry 1 1 ''x''])\<lparr>m_commitIndex := 1, m_lastApplied := 1\<rparr>) [(''k'', ''x'')]
       = Some (r, s', [(''k'', ''x'')])
     \<and> aer_success r \<and> m_logs s' = [dummy_entry, entry 2 1 ''z''] \<and> m_commitIndex s' = 1 \<and> m_lastApplied s' = 1"
  by (simp add: handleAppendEntries_def Let_def append_eval ae_conflict.simps)

text \<open>
  Progress of the indices on a follower: a request never lowers the applied index, and it
  never lowers the commit index unless it truncates the log below it.
\<close>

theorem append_entries_monotone:
  assumes "log_ok (m_logs s)" and "ae_ok args"
    and "handleAppendEntries put t args s d = Some (r, s', d')"
  shows "m_lastApplied s \<le> m_lastApplied s'
    \<and> (unat (m_commitIndex s) < length (m_logs s') \<longrightarrow> m_commitIndex s \<le> m_commitIndex s')"
proof -
  from assms have spec: "ae_spec put t args s d = (r, s', d')" by (simp add: handleAppendEntries_spec)
  then have "m_lastApplied s \<le> m_lastApplied s'"
    by (auto simp: ae_spec_def Let_def split: if_splits)
  moreover have "m_commitIndex s \<le> m_commitIndex s'" if "unat (m_commitIndex s) < length (m_logs s')"
  proof (cases "aer_success r \<and> ae_leaderCommit args > m_commitIndex s")
    case True
    let ?logs = "ae_merge (m_logs s) (unat (ae_prevLogIndex args)) (ae_entries args)"
    from True spec have ok: "\<not> ae_term args < m_currentTerm s" "ae_accepts args (m_logs s)"
      using ae_spec_success [of put t args s d] by simp_all
    with spec True have s': "m_logs s' = ?logs"
      "m_commitIndex s' = min (ae_leaderCommit args) (vec_size ?logs - 1)"
      by (auto simp: ae_spec_def Let_def ae_commit_def)
    have "log_ok ?logs" using assms(1,2) ok by (intro log_ok_merge) (simp_all add: ae_accepts_def)
    with that s'(1) have "m_commitIndex s \<le> vec_size ?logs - 1"
      using log_ok_last_index [of ?logs] by (simp add: word_le_nat_alt)
    with True s'(2) show ?thesis by auto
  next
    case False
    with spec show ?thesis by (auto simp: ae_spec_def Let_def ae_commit_def split: if_splits)
  qed
  ultimately show ?thesis by blast
qed

theorem append_entries_monotone_witness:
  "\<exists>r s' d'. handleAppendEntries list_put tick (append_req 2 1 1 [entry 2 2 ''z''] 2)
       (follower 1 [entry 1 1 ''x'', entry 1 2 ''y'']) [] = Some (r, s', d')
     \<and> m_lastApplied (follower 1 [entry 1 1 ''x'', entry 1 2 ''y'']) \<le> m_lastApplied s'"
proof -
  obtain r s' d' where h: "handleAppendEntries list_put tick (append_req 2 1 1 [entry 2 2 ''z''] 2)
      (follower 1 [entry 1 1 ''x'', entry 1 2 ''y'']) [] = Some (r, s', d')"
    using handleAppendEntries_spec [OF follower_log_ok append_req_ok, of list_put tick "[]"] by (metis prod.collapse)
  with append_entries_monotone [OF follower_log_ok append_req_ok h] show ?thesis by blast
qed

section \<open>The commit rule of the leader\<close>

text \<open>At position \<open>k\<close> of a descending list stands a value that \<open>k + 1\<close> elements reach.\<close>

lemma rev_sort_count:
  fixes xs :: "'a::linorder list"
  assumes "k < length xs"
  shows "k + 1 \<le> length (filter (\<lambda>x. rev (sort xs) ! k \<le> x) xs)"
proof -
  let ?ys = "rev (sort xs)"
  have "sorted_wrt (\<ge>) ?ys" by (simp add: sorted_wrt_rev)
  have "?ys ! k \<le> y" if y: "y \<in> set (take (k + 1) ?ys)" for y
  proof -
    from y assms obtain j where j: "j \<le> k" "y = ?ys ! j"
      by (auto simp: in_set_conv_nth less_Suc_eq_le)
    show ?thesis
    proof (cases "j = k")
      case False
      with j assms sorted_wrt_nth_less [OF \<open>sorted_wrt (\<ge>) ?ys\<close>, of j k] show ?thesis by simp
    qed (simp add: j)
  qed
  then have "filter (\<lambda>x. ?ys ! k \<le> x) (take (k + 1) ?ys) = take (k + 1) ?ys" by (simp add: filter_id_conv)
  then have "k + 1 \<le> length (filter (\<lambda>x. ?ys ! k \<le> x) (take (k + 1) ?ys))" using assms by simp
  also have "\<dots> \<le> length (filter (\<lambda>x. ?ys ! k \<le> x) (take (k + 1) ?ys @ drop (k + 1) ?ys))"
    unfolding filter_append by simp
  also have "\<dots> = length (filter (\<lambda>x. ?ys ! k \<le> x) ?ys)" by (simp only: append_take_drop_id)
  also have "\<dots> = length (filter (\<lambda>x. ?ys ! k \<le> x) xs)"
    by (metis (no_types) filter_sort length_rev length_sort rev_filter)
  finally show ?thesis .
qed

text \<open>How many nodes, the leader included, are recorded to hold the log up to index \<open>i\<close>.\<close>

definition replicas :: "RaftNode \<Rightarrow> u64 \<Rightarrow> nat" where
  "replicas s i = length (filter (\<lambda>m. i \<le> m) ((vec_size (m_logs s) - 1) # map snd (m_matchIndex s)))"

text \<open>
  C28. The commit rule: the index the leader commits is recorded on at least half of the nodes
  (rounded up), and on a majority when the number of nodes is odd; a single node and a node with
  one peer commit their own log as it stands, with no replica at all.
\<close>

theorem commit_rule_replicas:
  "length (m_matchIndex s) + 1 \<le> 2 * replicas s (newCommitIndex s)
   \<and> (odd (length (m_matchIndex s) + 1) \<longrightarrow> length (m_matchIndex s) + 1 < 2 * replicas s (newCommitIndex s))
   \<and> (length (m_matchIndex s) \<le> 1 \<and> (\<forall>x \<in> set (m_matchIndex s). snd x \<le> vec_size (m_logs s) - 1)
       \<longrightarrow> newCommitIndex s = vec_size (m_logs s) - 1)"
proof -
  let ?xs = "(vec_size (m_logs s) - 1) # map snd (m_matchIndex s)"
  have n: "length ?xs = length (m_matchIndex s) + 1" by simp
  have "(length ?xs - 1) div 2 + 1 \<le> replicas s (newCommitIndex s)"
    unfolding replicas_def newCommitIndex_def Let_def by (rule rev_sort_count) simp
  then have r: "length (m_matchIndex s) div 2 + 1 \<le> replicas s (newCommitIndex s)" by simp
  have "newCommitIndex s = vec_size (m_logs s) - 1"
    if "length (m_matchIndex s) \<le> 1" and "\<forall>x \<in> set (m_matchIndex s). snd x \<le> vec_size (m_logs s) - 1"
  proof (cases "m_matchIndex s")
    case Nil
    then show ?thesis by (simp add: newCommitIndex_def)
  next
    case (Cons x rest)
    with that show ?thesis by (auto simp: newCommitIndex_def)
  qed
  with r show ?thesis by auto
qed

theorem commit_rule_replicas_witness:
  "newCommitIndex ((follower 1 [entry 1 1 ''x''])\<lparr>m_state := Leader, m_matchIndex := [(''a'', 0)]\<rparr>) = 1
   \<and> replicas ((follower 1 [entry 1 1 ''x''])\<lparr>m_state := Leader, m_matchIndex := [(''a'', 0)]\<rparr>) 1 = 1"
  using commit_rule_replicas [of "(follower 1 [entry 1 1 ''x''])\<lparr>m_state := Leader, m_matchIndex := [(''a'', 0)]\<rparr>"]
  by (simp add: replicas_def vec_size_def append_eval)

section \<open>Where the code departs from Raft\<close>

lemma heartbeat_peer_empty:
  assumes "\<And>p args w. ae_entries args = [] \<Longrightarrow> send p args w = send' p args w"
  shows "heartbeat_peer send put p s w d = heartbeat_peer send' put p s w d"
  unfolding heartbeat_peer_def Let_def using assms by (simp split: prod.split option.split)

text \<open>
  The leader sends no entries: the entries it collects for a peer never reach the request, so
  a heartbeat round cannot distinguish a transport from one that behaves the same on requests
  without entries only.
\<close>

theorem heartbeat_sends_no_entries:
  assumes "\<And>p args w. ae_entries args = [] \<Longrightarrow> send p args w = send' p args w"
  shows "heartbeatLoop_round send put s w d = heartbeatLoop_round send' put s w d"
proof -
  have "heartbeat_peers send put ps s w d = heartbeat_peers send' put ps s w d" for ps s w d
    by (induction ps arbitrary: s w d) (auto simp: heartbeat_peer_empty [OF assms] split: option.split bool.split)
  then show ?thesis by (simp add: heartbeatLoop_round_def)
qed

theorem heartbeat_sends_no_entries_witness:
  "heartbeatLoop_round (\<lambda>p args w. (if ae_entries args = [] then None else Some \<lparr>aer_term = 1, aer_success = True\<rparr>, w))
     list_put (follower 1 [entry 1 1 ''x'']) () []
   = heartbeatLoop_round no_append list_put (follower 1 [entry 1 1 ''x'']) () []"
  by (rule heartbeat_sends_no_entries) (simp add: no_append_def)

text \<open>A transport that hands a request straight to the peer's handler and returns its reply.\<close>

definition direct_send :: "(string \<Rightarrow> RaftNode) ae_send" where
  "direct_send p args w = (case handleAppendEntries list_put tick args (w p) [] of
     None \<Rightarrow> (None, w) | Some (r, s', d') \<Rightarrow> (Some r, w(p := s')))"

lemmas heartbeat_eval = heartbeatLoop_round_def heartbeat_peer_def direct_send_def handleAppendEntries_def
  ae_conflict.simps advanceCommit_def newCommitIndex_def applyCommittedLogs_def apply_loop.simps
  um_index_def vec_size_def Let_def

text \<open>
  Hence a leader commits what nobody else has: in a cluster of three with a perfect transport,
  the leader of term 1 accepts a client's entry, and after one heartbeat round it has committed the
  entry and put it into its database although the logs of both followers are still empty.
\<close>

theorem unreplicated_commit:
  "\<exists>l1 l2 l3 w'.
     startElection script_send tick (RaftNode_init tick ''a'' [''b'', ''c'']) [Some (grant 1), Some (grant 1)]
       = Some (l1, [])
   \<and> submitLog ''k'' ''v'' l1 = Some (True, l2)
   \<and> heartbeatLoop_round direct_send list_put l2 (\<lambda>i. RaftNode_init tick i (three_peers i)) []
       = Some (l3, w', [(''k'', ''v'')])
   \<and> m_commitIndex l3 = 1
   \<and> m_logs (w' ''b'') = [dummy_entry] \<and> m_logs (w' ''c'') = [dummy_entry]"
proof -
  let ?l2 = "(RaftNode_init tick ''a'' [''b'', ''c''])\<lparr>m_state := Leader, m_currentTerm := 1,
     m_votedFor := ''a'', m_nextIndex := [(''b'', 1), (''c'', 1)], m_matchIndex := [(''b'', 0), (''c'', 0)],
     m_logs := [dummy_entry, \<lparr>log_term = 1, log_index = 1, log_key = ''k'', log_value = ''v''\<rparr>]\<rparr>"
  have l2: "submitLog ''k'' ''v'' (?l2\<lparr>m_logs := [dummy_entry]\<rparr>) = Some (True, ?l2)"
    by (simp add: submitLog_def append_eval)
  have "\<exists>l3 w'. heartbeatLoop_round direct_send list_put ?l2 (\<lambda>i. RaftNode_init tick i (three_peers i)) []
       = Some (l3, w', [(''k'', ''v'')])
   \<and> m_commitIndex l3 = 1 \<and> m_logs (w' ''b'') = [dummy_entry] \<and> m_logs (w' ''c'') = [dummy_entry]"
    by (simp add: heartbeat_eval append_eval)
  moreover have "startElection script_send tick (RaftNode_init tick ''a'' [''b'', ''c''])
      [Some (grant 1), Some (grant 1)] = Some (?l2\<lparr>m_logs := [dummy_entry]\<rparr>, [])"
    by (simp add: startElection_def Let_def raft_eval majority_def vec_size_def)
  ultimately show ?thesis using l2 by blast
qed

text \<open>
  A follower commits entries it has not compared with the leader's: it bounds its commit index
  by the end of its own log, not by the last entry the request vouches for. A heartbeat of a leader
  whose committed entry at index 1 is another one makes the follower commit its own left-over entry
  of an earlier term there.
\<close>

theorem follower_commits_unmatched_entry:
  "\<exists>s w'. heartbeatLoop_round direct_send list_put
       ((follower 2 [entry 2 1 ''new''])\<lparr>m_nodeId := ''a'', m_peers := [''b''], m_state := Leader,
          m_commitIndex := 1, m_lastApplied := 1, m_nextIndex := [(''b'', 1)], m_matchIndex := [(''b'', 0)]\<rparr>)
       (\<lambda>i. follower 1 [entry 1 1 ''old'']) [] = Some (s, w', [])
   \<and> m_commitIndex s = 1 \<and> m_logs s ! 1 = entry 2 1 ''new''
   \<and> m_commitIndex (w' ''b'') = 1 \<and> m_lastApplied (w' ''b'') = 1 \<and> m_logs (w' ''b'') ! 1 = entry 1 1 ''old''"
  by (simp add: heartbeat_eval append_eval)

text \<open>
  A follower that learns a later term from a leader keeps the vote of the earlier one: it
  enters the term of the request without clearing \<open>m_votedFor\<close> (unlike in \<open>handleRequestVote\<close>),
  and so refuses its vote in the new term to every candidate but the one it voted for before,
  although it has not voted in that term.
\<close>

theorem append_entries_keeps_old_vote:
  assumes "handleAppendEntries put t args s d = Some (r, s', d')" and "ae_term args > m_currentTerm s"
    and "m_votedFor s \<noteq> []" and "rv_candidateId rv \<noteq> m_votedFor s" and "rv_term rv = ae_term args"
    and "handleRequestVote t2 rv s' = Some (reply, s'')"
  shows "m_currentTerm s' = ae_term args \<and> m_votedFor s' = m_votedFor s \<and> \<not> rvr_voteGranted reply"
proof -
  have v: "m_currentTerm s' = ae_term args \<and> m_votedFor s' = m_votedFor s"
  proof (cases "ae_accepts args (m_logs s)")
    case True
    with assms(1,2) show ?thesis
      by (auto simp: handleAppendEntries_accept Let_def dest!: applyCommittedLogs_frame split: option.splits if_splits)
  next
    case False
    with assms(1,2) show ?thesis by (auto simp: handleAppendEntries_refuse split: if_splits)
  qed
  with assms(3-6) show ?thesis
    by (auto simp: handleRequestVote_def Let_def split: if_splits option.splits)
qed

theorem append_entries_keeps_old_vote_witness:
  "\<exists>r s' d' reply s''. handleAppendEntries list_put tick (append_req 2 0 0 [] 0)
       ((follower 1 [])\<lparr>m_votedFor := ''c''\<rparr>) [] = Some (r, s', d')
   \<and> handleRequestVote tick (vote_from ''a'' 2) s' = Some (reply, s'') \<and> \<not> rvr_voteGranted reply"
proof -
  let ?s = "(follower 1 [])\<lparr>m_votedFor := ''c''\<rparr>"
  have "\<exists>r s' d' reply s''. handleAppendEntries list_put tick (append_req 2 0 0 [] 0) ?s [] = Some (r, s', d')
      \<and> handleRequestVote tick (vote_from ''a'' 2) s' = Some (reply, s'')"
    by (simp add: heartbeat_eval handleRequestVote_def append_eval)
  then obtain r s' d' reply s'' where
    h: "handleAppendEntries list_put tick (append_req 2 0 0 [] 0) ?s [] = Some (r, s', d')"
      "handleRequestVote tick (vote_from ''a'' 2) s' = Some (reply, s'')" by blast
  with append_entries_keeps_old_vote [OF h(1) _ _ _ _ h(2)] show ?thesis
    by (auto simp: append_eval)
qed

text \<open>
  The indices of received entries are not checked: one request with an entry numbered 5 and a
  commit index of 5 makes a node with an empty log read the log out of range.
\<close>

theorem append_entries_out_of_range:
  "handleAppendEntries list_put tick (append_req 1 0 0 [entry 1 5 ''x''] 5) (follower 0 []) [] = None"
  by (simp add: heartbeat_eval append_eval vec_at_def)

end
