(* ===== verification/Storage.thy ===== *)
theory Storage
  imports Raft_Properties
begin

text \<open>
  The storage layer: \<open>storage/RocksDBStorage\<close> (the singleton the server uses) and
  \<open>datebase/RocksDBEngine\<close> (the same operations behind the interface \<open>StorageEngine\<close>, not part of
  the build). RocksDB is not part of the sources: its calls are an argument, a record of
  \<open>DB::Open\<close>, \<open>Put\<close> and \<open>Get\<close> with their statuses, on a database of any type \<open>'d\<close>.
\<close>

section \<open>RocksDB\<close>

datatype Status = StatusOk | StatusNotFound | StatusError string

record 'd rocksdb =
  db_open :: "string \<Rightarrow> Status \<times> 'd option"
  db_put :: "string \<Rightarrow> string \<Rightarrow> 'd \<Rightarrow> Status \<times> 'd"
  db_get :: "string \<Rightarrow> 'd \<Rightarrow> Status \<times> string"

text \<open>
  What the documentation of RocksDB promises: an open that succeeds returns a database; after a
  successful \<open>Put\<close> the key reads as the value and the other keys read as before.
\<close>

definition rocksdb_ok :: "'d rocksdb \<Rightarrow> bool" where
  "rocksdb_ok db \<longleftrightarrow>
     (\<forall>path d. db_open db path = (StatusOk, d) \<longrightarrow> d \<noteq> None)
   \<and> (\<forall>k v d d'. db_put db k v d = (StatusOk, d') \<longrightarrow> db_get db k d' = (StatusOk, v)
        \<and> (\<forall>k'. k' \<noteq> k \<longrightarrow> db_get db k' d' = db_get db k' d))"

section \<open>RocksDBStorage\<close>

record 'd RocksDBStorage =
  m_db :: "'d option"

definition RocksDBStorage_init :: "'d RocksDBStorage" where
  "RocksDBStorage_init = \<lparr>m_db = None\<rparr>"

text \<open>
  \<open>open\<close>: an error of \<open>create_directories\<close> is caught and only logged, an error of \<open>DB::Open\<close>
  is thrown (\<open>Inl\<close>).
\<close>

definition storage_open :: "'d rocksdb \<Rightarrow> string \<Rightarrow> 'd RocksDBStorage \<Rightarrow> string + (bool \<times> 'd RocksDBStorage)" where
  "storage_open db path s =
     (let (status, d) = db_open db path in
      if status \<noteq> StatusOk then Inl ''failed to open rocksdb''
      else Inr (True, s\<lparr>m_db := d\<rparr>))"

text \<open>The bodies of \<open>put\<close> and \<open>get\<close> on an open database.\<close>

definition put_opened :: "'d rocksdb \<Rightarrow> string \<Rightarrow> string \<Rightarrow> 'd \<Rightarrow> bool \<times> 'd" where
  "put_opened db key value d =
     (let (s, d') = db_put db key value d in if s \<noteq> StatusOk then (False, d') else (True, d'))"

definition get_opened :: "'d rocksdb \<Rightarrow> string \<Rightarrow> 'd \<Rightarrow> string option" where
  "get_opened db key d =
     (let (s, value) = db_get db key d in
      if s = StatusNotFound then None
      else if s \<noteq> StatusOk then None
      else Some value)"

text \<open>\<open>m_db\<close> is null before \<open>open\<close>: \<open>None\<close> is the dereference of the null pointer.\<close>

definition storage_put ::
  "'d rocksdb \<Rightarrow> string \<Rightarrow> string \<Rightarrow> 'd RocksDBStorage \<Rightarrow> (bool \<times> 'd RocksDBStorage) option" where
  "storage_put db key value s =
     (case m_db s of
        None \<Rightarrow> None
      | Some d \<Rightarrow> (let (ok, d') = put_opened db key value d in Some (ok, s\<lparr>m_db := Some d'\<rparr>)))"

definition storage_get :: "'d rocksdb \<Rightarrow> string \<Rightarrow> 'd RocksDBStorage \<Rightarrow> string option option" where
  "storage_get db key s = (case m_db s of None \<Rightarrow> None | Some d \<Rightarrow> Some (get_opened db key d))"

section \<open>RocksDBEngine\<close>

text \<open>The constructor opens the database and throws the text of the status when that fails.\<close>

record 'd RocksDBEngine =
  e_db :: 'd

definition status_text :: "Status \<Rightarrow> string" where
  "status_text s = (case s of StatusOk \<Rightarrow> ''OK'' | StatusNotFound \<Rightarrow> ''NotFound: '' | StatusError t \<Rightarrow> t)"

definition RocksDBEngine_init :: "'d rocksdb \<Rightarrow> string \<Rightarrow> (string + 'd RocksDBEngine) option" where
  "RocksDBEngine_init db path =
     (let (s, d) = db_open db path in
      if s \<noteq> StatusOk then Some (Inl (status_text s))
      else map_option (\<lambda>x. Inr \<lparr>e_db = x\<rparr>) d)"

definition engine_put :: "'d rocksdb \<Rightarrow> string \<Rightarrow> string \<Rightarrow> 'd RocksDBEngine \<Rightarrow> bool \<times> 'd RocksDBEngine" where
  "engine_put db key value e =
     (let (s, d') = db_put db key value (e_db e) in
      if s \<noteq> StatusOk then (False, e\<lparr>e_db := d'\<rparr>) else (True, e\<lparr>e_db := d'\<rparr>))"

definition engine_get :: "'d rocksdb \<Rightarrow> string \<Rightarrow> 'd RocksDBEngine \<Rightarrow> string option" where
  "engine_get db key e =
     (let (s, value) = db_get db key (e_db e) in
      if s = StatusNotFound then None else if s \<noteq> StatusOk then None else Some value)"

section \<open>Lemmas\<close>

lemma put_opened_reads:
  assumes "rocksdb_ok db" and "put_opened db k v d = (True, d')"
  shows "get_opened db k' d' = (if k' = k then Some v else get_opened db k' d)"
proof -
  from assms(2) have "db_put db k v d = (StatusOk, d')"
    by (auto simp: put_opened_def split: prod.splits if_splits)
  with assms(1) have "db_get db k d' = (StatusOk, v)" and "k' \<noteq> k \<Longrightarrow> db_get db k' d' = db_get db k' d"
    unfolding rocksdb_ok_def by blast+
  then show ?thesis by (cases "k' = k") (simp_all add: get_opened_def)
qed

section \<open>The contract of a store\<close>

text \<open>A sequence of writes; \<open>None\<close> when one of them fails.\<close>

fun write_all :: "(string \<Rightarrow> string \<Rightarrow> 's \<Rightarrow> (bool \<times> 's) option) \<Rightarrow> (string \<times> string) list \<Rightarrow> 's \<Rightarrow> 's option" where
  "write_all put [] s = Some s"
| "write_all put ((k, v) # ws) s =
     (case put k v s of Some (True, s') \<Rightarrow> write_all put ws s' | _ \<Rightarrow> None)"

text \<open>
  What the clients of a store rely on: after a write that succeeds, the key reads as the value and the
  other keys as before. \<open>ok\<close> is what the store in turn relies on.
\<close>

locale kv_store =
  fixes ok :: "'b \<Rightarrow> bool"
    and put :: "'b \<Rightarrow> string \<Rightarrow> string \<Rightarrow> 's \<Rightarrow> (bool \<times> 's) option"
    and get :: "'b \<Rightarrow> string \<Rightarrow> 's \<Rightarrow> string option option"
  assumes put_get: "ok db \<Longrightarrow> put db k v s = Some (True, s') \<Longrightarrow>
    get db k' s' = (if k' = k then Some (Some v) else get db k' s)"
begin

lemma writes_read:
  "ok db \<Longrightarrow> write_all (put db) ws s = Some s' \<Longrightarrow>
   get db k s' = (case map_of (rev ws) k of None \<Rightarrow> get db k s | Some v \<Rightarrow> Some (Some v))"
proof (induction ws arbitrary: s)
  case (Cons kv ws)
  obtain key v where kv: "kv = (key, v)" by fastforce
  with Cons.prems(2) obtain s1 where w: "put db key v s = Some (True, s1)" "write_all (put db) ws s1 = Some s'"
    by (auto split: option.splits bool.splits)
  from Cons.IH [OF Cons.prems(1) w(2)] put_get [OF Cons.prems(1) w(1), of k] kv show ?case
    by (auto simp: map_add_def split: option.splits)
qed simp

end

interpretation storage: kv_store rocksdb_ok storage_put storage_get
proof (unfold_locales, goal_cases)
  case (1 db k v s s' k')
  then obtain d d' where "m_db s = Some d" "put_opened db k v d = (True, d')" "s' = s\<lparr>m_db := Some d'\<rparr>"
    by (auto simp: storage_put_def split: option.splits prod.splits)
  with put_opened_reads [OF 1(1), of k v d d' k'] show ?case by (simp add: storage_get_def)
qed

interpretation engine: kv_store rocksdb_ok "\<lambda>db k v e. Some (engine_put db k v e)" "\<lambda>db k e. Some (engine_get db k e)"
proof (unfold_locales, goal_cases)
  case (1 db k v e e' k')
  then have "put_opened db k v (e_db e) = (True, e_db e')"
    by (auto simp: engine_put_def put_opened_def split: prod.splits if_splits)
  from put_opened_reads [OF 1(1) this, of k'] show ?case
    by (simp add: engine_get_def get_opened_def split: prod.splits)
qed

text \<open>A run of puts in which none fails, and what a key reads as afterwards.\<close>

fun puts_ok :: "'d rocksdb \<Rightarrow> LogEntry list \<Rightarrow> 'd \<Rightarrow> bool" where
  "puts_ok db [] d = True"
| "puts_ok db (x # xs) d =
     (fst (put_opened db (log_key x) (log_value x) d) \<and> puts_ok db xs (snd (put_opened db (log_key x) (log_value x) d)))"

definition last_value :: "string \<Rightarrow> LogEntry list \<Rightarrow> string option" where
  "last_value k xs = map_of (rev (map (\<lambda>x. (log_key x, log_value x)) xs)) k"

lemma last_value_Cons:
  "last_value k (x # xs) = (case last_value k xs of None \<Rightarrow> if k = log_key x then Some (log_value x) else None | Some v \<Rightarrow> Some v)"
  by (simp add: last_value_def map_add_def split: option.splits)

lemma puts_read:
  "rocksdb_ok db \<Longrightarrow> puts_ok db xs d \<Longrightarrow>
   get_opened db k (fold (put_entry (put_opened db)) xs d)
   = (case last_value k xs of None \<Rightarrow> get_opened db k d | Some v \<Rightarrow> Some v)"
proof (induction xs arbitrary: d)
  case Nil
  then show ?case by (simp add: last_value_def)
next
  case (Cons x xs)
  obtain d' where d': "put_opened db (log_key x) (log_value x) d = (True, d')"
    using Cons.prems(2) by (cases "put_opened db (log_key x) (log_value x) d") auto
  from Cons.IH [of d'] Cons.prems d' put_opened_reads [OF Cons.prems(1) d', of k]
  show ?case by (auto simp: put_entry_def last_value_Cons split: option.splits)
qed

section \<open>Properties\<close>

text \<open>
  C24. The replicated state machine is the database: when a node applies its committed entries, its
  commit index lies within its log and no write of these entries fails, every key reads afterwards as
  the value of the last newly applied entry with that key, and a key without one reads as before. (A
  failed write is ignored and \<open>lastApplied\<close> advances all the same.)
\<close>

theorem applied_state_reads:
  assumes "rocksdb_ok db" and "unat (m_commitIndex s) < length (m_logs s)"
    and "applyCommittedLogs (put_opened db) s d = Some (s', d')"
    and "puts_ok db (log_slice (m_logs s) (m_lastApplied s) (m_commitIndex s)) d"
  shows "get_opened db k d' =
    (case last_value k (log_slice (m_logs s) (m_lastApplied s) (m_commitIndex s)) of
       None \<Rightarrow> get_opened db k d | Some v \<Rightarrow> Some v)"
proof -
  from assms(2,3) have "d' = fold (put_entry (put_opened db)) (log_slice (m_logs s) (m_lastApplied s) (m_commitIndex s)) d"
    by (simp add: applyCommittedLogs_fold)
  with puts_read [OF assms(1,4)] show ?thesis by simp
qed

text \<open>A database in memory, on which no call fails.\<close>

definition memory_db :: "(string, string) umap rocksdb" where
  "memory_db = \<lparr>db_open = (\<lambda>path. (StatusOk, Some [])),
     db_put = (\<lambda>k v d. (StatusOk, AList.update k v d)),
     db_get = (\<lambda>k d. case map_of d k of None \<Rightarrow> (StatusNotFound, []) | Some v \<Rightarrow> (StatusOk, v))\<rparr>"

lemma memory_db_ok: "rocksdb_ok memory_db"
  by (simp add: rocksdb_ok_def memory_db_def)

theorem applied_state_reads_witness:
  "\<exists>s' d'. applyCommittedLogs (put_opened memory_db)
       ((follower 1 [entry 1 1 ''x'', entry 1 2 ''y''])\<lparr>m_commitIndex := 2\<rparr>) [] = Some (s', d')
     \<and> get_opened memory_db ''k'' d' = Some ''y''"
proof -
  let ?s = "(follower 1 [entry 1 1 ''x'', entry 1 2 ''y''])\<lparr>m_commitIndex := 2\<rparr>"
  let ?r = "log_slice (m_logs ?s) (m_lastApplied ?s) (m_commitIndex ?s)"
  have slice: "?r = [entry 1 1 ''x'', entry 1 2 ''y'']" by (simp add: log_slice_def append_eval)
  have c: "unat (m_commitIndex ?s) < length (m_logs ?s)" by (simp add: append_eval)
  from applyCommittedLogs_fold [OF c, of "put_opened memory_db" "[]"] obtain s' d'
    where run: "applyCommittedLogs (put_opened memory_db) ?s [] = Some (s', d')" by blast
  have ok: "puts_ok memory_db ?r []" unfolding slice by (simp add: put_opened_def memory_db_def)
  from applied_state_reads [OF memory_db_ok c run ok, of "''k''"] run show ?thesis
    unfolding slice by (simp add: last_value_def entry_def)
qed

text \<open>
  The storage and the engine are stores: after any sequence of writes of which none fails, a key
  reads as the value of the last write to it, and a key without a write reads as before.
\<close>

theorem last_write_wins:
  assumes "rocksdb_ok db"
  shows "(write_all (storage_put db) ws s = Some s' \<longrightarrow>
      storage_get db k s' = (case map_of (rev ws) k of None \<Rightarrow> storage_get db k s | Some v \<Rightarrow> Some (Some v)))
    \<and> (write_all (\<lambda>k v e. Some (engine_put db k v e)) ws e = Some e' \<longrightarrow>
      engine_get db k e' = (case map_of (rev ws) k of None \<Rightarrow> engine_get db k e | Some v \<Rightarrow> Some v))"
  using storage.writes_read [OF assms, of ws s s' k] engine.writes_read [OF assms, of ws e e' k]
  by (auto split: option.splits)

theorem last_write_wins_witness:
  "\<exists>s'. write_all (storage_put memory_db) [(''k'', ''1''), (''j'', ''2''), (''k'', ''3'')] \<lparr>m_db = Some []\<rparr> = Some s'
     \<and> storage_get memory_db ''k'' s' = Some (Some ''3'')"
proof -
  obtain s' where run: "write_all (storage_put memory_db) [(''k'', ''1''), (''j'', ''2''), (''k'', ''3'')] \<lparr>m_db = Some []\<rparr> = Some s'"
    by (simp add: storage_put_def put_opened_def memory_db_def)
  from mp [OF conjunct1 [OF last_write_wins [OF memory_db_ok]] run, of "''k''"] run show ?thesis by simp
qed

text \<open>
  \<open>open\<close> never returns false: it throws, or it returns true and the storage can be read and
  written from then on without a null pointer; before a successful \<open>open\<close> every access is a
  dereference of null.
\<close>

theorem storage_open_outcomes:
  assumes "rocksdb_ok db"
  shows "(\<exists>e. storage_open db path s = Inl e) \<and> fst (db_open db path) \<noteq> StatusOk
    \<or> (\<exists>s'. storage_open db path s = Inr (True, s')
        \<and> (\<forall>k v. \<exists>ok s''. storage_put db k v s' = Some (ok, s'')) \<and> (\<forall>k. \<exists>r. storage_get db k s' = Some r)
        \<and> storage_put db k v RocksDBStorage_init = None \<and> storage_get db k RocksDBStorage_init = None)"
proof (cases "fst (db_open db path) = StatusOk")
  case True
  with assms obtain d where "db_open db path = (StatusOk, Some d)"
    by (cases "db_open db path") (fastforce simp: rocksdb_ok_def)
  then show ?thesis
    by (auto simp: storage_open_def storage_put_def storage_get_def RocksDBStorage_init_def split: prod.splits)
qed (auto simp: storage_open_def split: prod.splits)

theorem storage_open_outcomes_witness:
  "\<exists>s'. storage_open memory_db ''data'' RocksDBStorage_init = Inr (True, s')
     \<and> storage_get memory_db ''k'' s' = Some None"
proof -
  have "\<nexists>e. storage_open memory_db ''data'' RocksDBStorage_init = Inl e"
    by (simp add: storage_open_def memory_db_def)
  with storage_open_outcomes [OF memory_db_ok, of "''data''" RocksDBStorage_init]
  obtain s' where "storage_open memory_db ''data'' RocksDBStorage_init = Inr (True, s')" by metis
  then show ?thesis
    by (auto simp: storage_open_def storage_get_def get_opened_def memory_db_def RocksDBStorage_init_def)
qed

text \<open>
  \<open>RocksDBEngine\<close> and \<open>RocksDBStorage\<close> are the same store: on the same database every read
  and write of the one has the result and the effect of the other.
\<close>

theorem engine_equals_storage:
  "storage_put db k v \<lparr>m_db = Some (e_db e)\<rparr>
     = Some (fst (engine_put db k v e), \<lparr>m_db = Some (e_db (snd (engine_put db k v e)))\<rparr>)
   \<and> storage_get db k \<lparr>m_db = Some (e_db e)\<rparr> = Some (engine_get db k e)"
  by (auto simp: storage_put_def storage_get_def engine_put_def engine_get_def put_opened_def get_opened_def
      split: prod.splits)

end
