(* ===== verification/Connection.thy ===== *)
theory Connection
  imports Raft_Rpc Forward Storage
begin

text \<open>
  A client connection (\<open>server/Connection.h\<close>, \<open>server/Connection.cpp\<close>): the handlers of the five
  commands and the loop that serves a connection until the peer is gone. A handler changes the
  world of a server (operating system, database, Raft node) and returns, throws, or runs into
  undefined behaviour; an exception does not undo what was done before it.
\<close>

section \<open>State\<close>

record 'd world =
  w_os :: net_os
  w_store :: "'d RocksDBStorage"
  w_raft :: "RaftNode option"

text \<open>
  The members of a connection and what its handlers are given by the environment: the JSON library,
  the database, the hash of the router, the clock, and the values that the two uninitialised
  fields of a default \<open>YoloFrame\<close> happen to have.
\<close>

record ('f, 'd) Connection =
  c_fd :: int
  c_router :: ShardRouter
  c_self :: NodeInfo
  c_js :: "'f json_lib"
  c_db :: "'d rocksdb"
  c_hash :: "string \<Rightarrow> u64"
  c_timer :: timer
  c_garbage :: "int \<times> int"

type_synonym 'd action = "'d world \<Rightarrow> unit outcome \<times> 'd world"

text \<open>\<open>Protocol::sendMessage(m_fd, ...)\<close>; no handler looks at the result.\<close>

definition reply_to :: "('f, 'd) Connection \<Rightarrow> string \<Rightarrow> 'd action" where
  "reply_to c s w = (Ret (), w\<lparr>w_os := snd (send_on (c_fd c) s (w_os w))\<rparr>)"

text \<open>Going on with a value, and \<open>try\<close> with a handler that sees the world as the exception left it.\<close>

definition with_value :: "'a outcome \<Rightarrow> ('a \<Rightarrow> 'd action) \<Rightarrow> 'd action" where
  "with_value m f w = (case m of Ret x \<Rightarrow> f x w | Throws \<Rightarrow> (Throws, w) | Undef \<Rightarrow> (Undef, w))"

definition try_catch :: "'d action \<Rightarrow> 'd action \<Rightarrow> 'd action" where
  "try_catch f h w = (case f w of (Throws, w') \<Rightarrow> h w' | r \<Rightarrow> r)"

section \<open>Handlers\<close>

definition handlePing :: "('f, 'd) Connection \<Rightarrow> 'd action" where
  "handlePing c = reply_to c ''PONG''"

definition handleUnknown :: "('f, 'd) Connection \<Rightarrow> string \<Rightarrow> 'd action" where
  "handleUnknown c msg = reply_to c ''ERROR unknown command''"

text \<open>
  The branch of STORE and GET for a key of another node: of the four results only
  \<open>CONNECT_FAILED\<close> is reported to the client.
\<close>

definition forward_request :: "('f, 'd) Connection \<Rightarrow> NodeInfo \<Rightarrow> string \<Rightarrow> string \<Rightarrow> 'd action" where
  "forward_request c node msg err w =
     (let (code, os) = forwardToNode (c_fd c) node msg (w_os w);
          w1 = w\<lparr>w_os := os\<rparr> in
      if code = CONNECT_FAILED then reply_to c err w1 else (Ret (), w1))"

text \<open>A frame of this node is stored; the result of \<open>put\<close> is not looked at.\<close>

definition store_local :: "('f, 'd) Connection \<Rightarrow> 'f YoloFrame \<Rightarrow> 'd action" where
  "store_local c frame =
     with_value (encode (c_js c) frame) (\<lambda>value w.
       (case storage_put (c_db c) (image_id frame) value (w_store w) of
          None \<Rightarrow> (Undef, w)
        | Some (ok, st) \<Rightarrow> reply_to c ''STORE OK'' (w\<lparr>w_store := st\<rparr>)))"

text \<open>
  The body of the \<open>try\<close> of \<open>handleStore\<close>. It builds the frame with the same calls as
  \<open>YoloCodec::decode\<close>.
\<close>

definition store_try :: "('f, 'd) Connection \<Rightarrow> string \<Rightarrow> string \<Rightarrow> 'd action" where
  "store_try c msg json_str =
     with_value (decode (c_js c) json_str) (\<lambda>frame.
     with_value (opt_undef (pickNode (c_hash c) (c_router c) (image_id frame))) (\<lambda>node.
       if ni_id node \<noteq> ni_id (c_self c)
       then forward_request c node msg ''ERROR failed to forward STORE request''
       else store_local c frame))"

definition handleStore :: "('f, 'd) Connection \<Rightarrow> string \<Rightarrow> 'd action" where
  "handleStore c msg =
     (case payload_of msg of
        None \<Rightarrow> (\<lambda>w. (Ret (), w))
      | Some json_str \<Rightarrow> try_catch (store_try c msg json_str) (reply_to c ''ERROR invalid STORE payload''))"

text \<open>
  A frame that is not assigned has empty strings, no boxes and arbitrary numbers. The reply is
  built with the same calls as \<open>YoloCodec::encode\<close>. Nothing catches an exception.
\<close>

definition default_frame :: "int \<times> int \<Rightarrow> 'f YoloFrame" where
  "default_frame g = \<lparr>image_id = [], image_hash = [], boxes = [], width = fst g, height = snd g\<rparr>"

definition get_local :: "('f, 'd) Connection \<Rightarrow> string \<Rightarrow> 'd action" where
  "get_local c key w =
     with_value (opt_undef (storage_get (c_db c) key (w_store w))) (\<lambda>opt.
     with_value (case opt of None \<Rightarrow> Ret (default_frame (c_garbage c)) | Some v \<Rightarrow> decode (c_js c) v) (\<lambda>frame.
     with_value (encode (c_js c) frame) (reply_to c))) w"

definition handleGet :: "('f, 'd) Connection \<Rightarrow> string \<Rightarrow> 'd action" where
  "handleGet c msg =
     (let (cmd, rest) = read_token msg;
          (key, rest') = read_token rest in
      if key = [] then reply_to c ''ERROR missing image_id''
      else
        with_value (opt_undef (pickNode (c_hash c) (c_router c) key)) (\<lambda>node.
          if ni_id node \<noteq> ni_id (c_self c)
          then forward_request c node msg ''ERROR failed to forward GET request''
          else get_local c key))"

text \<open>The handlers of the two Raft messages. A reply is written inside the \<open>try\<close>.\<close>

definition vote_try :: "('f, 'd) Connection \<Rightarrow> string \<Rightarrow> 'd action" where
  "vote_try c payload =
     with_value (obind (opt_throw (js_parse (c_js c) payload)) (rv_of_json (c_js c))) (\<lambda>args w.
       (case w_raft w of
          Some raft \<Rightarrow>
            (case handleRequestVote (c_timer c) args raft of
               None \<Rightarrow> (Undef, w)
             | Some (reply, raft') \<Rightarrow>
                 with_value (message (c_js c) ''RAFT_REQUEST_VOTE_REPLY'' (rvr_json reply)) (reply_to c)
                   (w\<lparr>w_raft := Some raft'\<rparr>))
        | None \<Rightarrow>
            with_value (message (c_js c) ''RAFT_REQUEST_VOTE_REPLY''
              (rvr_json \<lparr>rvr_term = rv_term args, rvr_voteGranted = False\<rparr>)) (reply_to c) w))"

definition handleRaftRequestVote :: "('f, 'd) Connection \<Rightarrow> string \<Rightarrow> 'd action" where
  "handleRaftRequestVote c msg =
     (case payload_of msg of
        None \<Rightarrow> reply_to c ''ERROR missing payload''
      | Some payload \<Rightarrow> try_catch (vote_try c payload) (reply_to c ''ERROR invalid payload''))"

text \<open>
  \<open>RocksDBStorage::put\<close> as the node calls it while it applies entries; \<open>None\<close> after the use of a
  database that is not open.
\<close>

definition store_put :: "'d rocksdb \<Rightarrow> 'd RocksDBStorage option kv_put" where
  "store_put db key value st =
     (case st of
        None \<Rightarrow> (False, None)
      | Some s \<Rightarrow> (case storage_put db key value s of None \<Rightarrow> (False, None) | Some (ok, s') \<Rightarrow> (ok, Some s')))"

definition append_try :: "('f, 'd) Connection \<Rightarrow> string \<Rightarrow> 'd action" where
  "append_try c payload =
     with_value (obind (opt_throw (js_parse (c_js c) payload)) (ae_of_json (c_js c))) (\<lambda>args w.
       (case w_raft w of
          Some raft \<Rightarrow>
            (case handleAppendEntries (store_put (c_db c)) (c_timer c) args raft (Some (w_store w)) of
               Some (reply, raft', Some st) \<Rightarrow>
                 with_value (message (c_js c) ''RAFT_APPEND_ENTRIES_REPLY'' (aer_json reply)) (reply_to c)
                   (w\<lparr>w_store := st, w_raft := Some raft'\<rparr>)
             | _ \<Rightarrow> (Undef, w))
        | None \<Rightarrow>
            with_value (message (c_js c) ''RAFT_APPEND_ENTRIES_REPLY''
              (aer_json \<lparr>aer_term = ae_term args, aer_success = False\<rparr>)) (reply_to c) w))"

definition handleRaftAppendEntries :: "('f, 'd) Connection \<Rightarrow> string \<Rightarrow> 'd action" where
  "handleRaftAppendEntries c msg =
     (case payload_of msg of
        None \<Rightarrow> reply_to c ''ERROR missing payload''
      | Some payload \<Rightarrow> try_catch (append_try c payload) (reply_to c ''ERROR invalid payload''))"

section \<open>The loop\<close>

definition handle_message :: "('f, 'd) Connection \<Rightarrow> string \<Rightarrow> 'd action" where
  "handle_message c msg =
     (case parseCommand (getFirstToken msg) of
        PING \<Rightarrow> handlePing c
      | STORE \<Rightarrow> handleStore c msg
      | GET \<Rightarrow> handleGet c msg
      | RAFT_REQUEST_VOTE \<Rightarrow> handleRaftRequestVote c msg
      | RAFT_APPEND_ENTRIES \<Rightarrow> handleRaftAppendEntries c msg
      | UNKNOWN \<Rightarrow> handleUnknown c msg)"

text \<open>What is still to be read on a descriptor. No handler reads from the client's connection.\<close>

definition client_rx :: "int \<Rightarrow> net_os \<Rightarrow> (bytes \<times> arrival list) option" where
  "client_rx fd os = map_option (\<lambda>d. (rx_buf (d_sock d), rx_next (d_sock d))) (map_of (os_desc os) fd)"

definition unread :: "int \<Rightarrow> net_os \<Rightarrow> nat" where
  "unread fd os = (case client_rx fd os of
     None \<Rightarrow> 0 | Some (buf, evs) \<Rightarrow> length (buf @ concat (map arrival_bytes evs)) + length evs)"

lemma sendMessage_rx: "sendMessage s m = (r, s') \<Longrightarrow> rx_buf s' = rx_buf s \<and> rx_next s' = rx_next s"
  by (auto simp: sendMessage_def send_sys_def Let_def split: list.splits if_splits)

lemma client_rx_send: "client_rx fd (snd (send_on fd' m os)) = client_rx fd os"
  using sendMessage_rx
  by (cases "fd = fd'") (auto simp: client_rx_def send_on_def on_sock_def split: option.splits prod.splits)

lemma client_rx_forward:
  assumes "fd \<in> open_fds os" and "forwardToNode fd node msg os = (code, os')"
  shows "client_rx fd os' = client_rx fd os"
proof -
  have eq: "client_rx fd a = client_rx fd b" if "map_of (os_desc a) fd = map_of (os_desc b) fd" for a b
    using that by (simp add: client_rx_def)
  from forwardToNode_outcomes_imp [OF assms] show ?thesis by (auto simp: client_rx_send intro: eq)
qed

lemma recv_sys_next: "recv_sys n s = (k, bs, s') \<Longrightarrow> length (rx_next s') \<le> length (rx_next s)"
  by (auto simp: recv_sys_def Let_def split: list.splits arrival.splits if_splits)

lemma unread_recv:
  assumes "recv_on fd out os = ((True, m), os')"
  shows "unread fd os' < unread fd os \<and> fd \<in> open_fds os'"
proof -
  obtain d where d: "map_of (os_desc os) fd = Some d" and fd: "fd \<in> open_fds os"
    using assms by (auto simp: recv_on_def on_sock_def map_of_open split: option.splits)
  obtain ok m' s' where r: "recvMessage (d_sock d) out = (ok, m', s')" by (metis prod_cases3)
  with assms d have ok: "ok" and os': "os' = os\<lparr>os_desc := AList.update fd (d\<lparr>d_sock := s'\<rparr>) (os_desc os)\<rparr>"
    by (auto simp: recv_on_def on_sock_def)
  obtain n1 b1 s1 where r1: "recv_sys 4 (d_sock d) = (n1, b1, s1)" by (metis prod_cases3)
  obtain n2 b2 len where r2: "recv_sys len s1 = (n2, b2, s')" and n: "0 < n1"
    using r r1 ok by (auto simp: recvMessage_def Let_def split: prod.splits if_splits)
  have "1 \<le> length b1" using recv_sys_progress [OF r1 n] n by linarith
  moreover have "length (rx_next s') \<le> length (rx_next (d_sock d))"
    using recv_sys_next [OF r1] recv_sys_next [OF r2] by simp
  moreover have "length (pending (d_sock d)) = length b1 + length b2 + length (pending s')"
    using recv_sys_pending [OF r1] recv_sys_pending [OF r2] by (metis add.assoc length_append)
  ultimately have "length (pending s') + length (rx_next s') < length (pending (d_sock d)) + length (rx_next (d_sock d))"
    by linarith
  then show ?thesis using d fd by (simp add: unread_def client_rx_def pending_def os')
qed

text \<open>
  What every action on a connection keeps: the open descriptors and the unread bytes of the client;
  and it closes nothing that is not open.
\<close>

definition kept :: "int \<Rightarrow> net_os \<Rightarrow> net_os \<Rightarrow> bool" where
  "kept fd os os' \<longleftrightarrow> client_rx fd os' = client_rx fd os \<and> open_fds os' = open_fds os \<and> os_ebadf os' = os_ebadf os"

definition keeps :: "('f, 'd) Connection \<Rightarrow> 'd action \<Rightarrow> bool" where
  "keeps c f \<longleftrightarrow> (\<forall>w. c_fd c \<in> open_fds (w_os w) \<longrightarrow> kept (c_fd c) (w_os w) (w_os (snd (f w))))"

lemma kept_refl [simp]: "kept fd os os"
  by (simp add: kept_def)

lemma kept_trans: "kept fd os1 os2 \<Longrightarrow> kept fd os2 os3 \<Longrightarrow> kept fd os1 os3"
  by (simp add: kept_def)

lemma kept_open: "kept fd os os' \<Longrightarrow> fd \<in> open_fds os \<Longrightarrow> fd \<in> open_fds os'"
  by (simp add: kept_def)

lemma kept_send: "kept fd os (snd (send_on fd' m os))"
  using send_on_frame [of fd' m os] by (simp add: kept_def client_rx_send split: prod.split) (metis prod.collapse)

lemma kept_forward: "fd \<in> open_fds os \<Longrightarrow> kept fd os (snd (forwardToNode fd node msg os))"
  using client_rx_forward forwardToNode_outcomes_imp unfolding kept_def by (metis prod.collapse)

lemma keepsD: "keeps c f \<Longrightarrow> c_fd c \<in> open_fds (w_os w) \<Longrightarrow> kept (c_fd c) (w_os w) (w_os (snd (f w)))"
  by (simp add: keeps_def)

lemma keeps_reply: "keeps c (reply_to c s)"
  by (simp add: keeps_def reply_to_def kept_send)

lemma keeps_forward: "keeps c (forward_request c node msg err)"
  unfolding keeps_def
proof (intro allI impI)
  fix w :: "'b world"
  assume op: "c_fd c \<in> open_fds (w_os w)"
  obtain code os where f: "forwardToNode (c_fd c) node msg (w_os w) = (code, os)" by fastforce
  with kept_forward [OF op, of node msg] have "kept (c_fd c) (w_os w) os" by simp
  with kept_trans [OF this kept_send] show "kept (c_fd c) (w_os w) (w_os (snd (forward_request c node msg err w)))"
    by (simp add: forward_request_def f reply_to_def Let_def)
qed

lemma keeps_with_value: "(\<And>x. keeps c (f x)) \<Longrightarrow> keeps c (\<lambda>w. with_value (m w) f w)"
  by (auto simp: keeps_def with_value_def split: outcome.split)

lemma keeps_with_value' [intro]: "(\<And>x. keeps c (f x)) \<Longrightarrow> keeps c (with_value m f)"
  using keeps_with_value [of c f "\<lambda>_. m"] by simp

lemma keeps_try_catch:
  assumes "keeps c f" and "keeps c h"
  shows "keeps c (try_catch f h)"
  unfolding keeps_def
proof (intro allI impI)
  fix w :: "'b world"
  assume op: "c_fd c \<in> open_fds (w_os w)"
  obtain r w' where f: "f w = (r, w')" by fastforce
  have 1: "kept (c_fd c) (w_os w) (w_os w')" using keepsD [OF assms(1) op] by (simp add: f)
  with kept_trans [OF this keepsD [OF assms(2) kept_open [OF this op]]]
  show "kept (c_fd c) (w_os w) (w_os (snd (try_catch f h w)))"
    by (cases r) (simp_all add: try_catch_def f)
qed

lemma keeps_store_local: "keeps c (store_local c frame)"
  unfolding store_local_def
  by (rule keeps_with_value') (auto simp: keeps_def reply_to_def kept_send split: option.split)

lemma keeps_get_local: "keeps c (get_local c i)"
  unfolding get_local_def by (intro keeps_with_value keeps_with_value' keeps_reply)

lemma keeps_skip: "keeps c (\<lambda>w. (r, w))"
  by (simp add: keeps_def)

lemma keeps_if: "keeps c f \<Longrightarrow> keeps c g \<Longrightarrow> keeps c (if b then f else g)"
  by simp

lemma kept_reply_value: "kept (c_fd c) (w_os w) (w_os (snd (with_value m (reply_to c) w)))"
  by (simp add: with_value_def reply_to_def kept_send split: outcome.split)

lemma kept_reply_world:
  "kept (c_fd c) (w_os w) (w_os (snd (with_value m (reply_to c) (w\<lparr>w_raft := r\<rparr>))))"
  "kept (c_fd c) (w_os w) (w_os (snd (with_value m (reply_to c) (w\<lparr>w_store := st, w_raft := r\<rparr>))))"
  using kept_reply_value [of c "w\<lparr>w_raft := r\<rparr>"] kept_reply_value [of c "w\<lparr>w_store := st, w_raft := r\<rparr>"] by simp_all

lemma keeps_vote_try: "keeps c (vote_try c payload)"
  unfolding vote_try_def
  by (intro keeps_with_value') (auto simp: keeps_def kept_reply_value kept_reply_world split: option.split)

lemma keeps_append_try: "keeps c (append_try c payload)"
  unfolding append_try_def
  by (intro keeps_with_value') (auto simp: keeps_def kept_reply_value kept_reply_world split: option.split)

lemmas keeps_intros = keeps_reply keeps_forward keeps_with_value' keeps_try_catch keeps_if keeps_store_local
  keeps_get_local keeps_vote_try keeps_append_try

lemma keeps_handlers:
  "keeps c (handlePing c)" "keeps c (handleUnknown c msg)" "keeps c (handleStore c msg)" "keeps c (handleGet c msg)"
  "keeps c (handleRaftRequestVote c msg)" "keeps c (handleRaftAppendEntries c msg)"
proof -
  show "keeps c (handlePing c)" "keeps c (handleUnknown c msg)"
    by (simp_all add: handlePing_def handleUnknown_def keeps_reply)
  have "keeps c (store_try c msg s)" for s
    unfolding store_try_def by (intro keeps_intros)
  note tries = keeps_try_catch [OF this keeps_reply]
    keeps_try_catch [OF keeps_vote_try keeps_reply] keeps_try_catch [OF keeps_append_try keeps_reply]
  show "keeps c (handleStore c msg)" "keeps c (handleRaftRequestVote c msg)" "keeps c (handleRaftAppendEntries c msg)"
    by (simp_all add: handleStore_def handleRaftRequestVote_def handleRaftAppendEntries_def tries keeps_reply keeps_skip
        split: option.split)
  show "keeps c (handleGet c msg)"
    unfolding handleGet_def Let_def by (auto split: prod.split intro!: keeps_intros)
qed

lemma keeps_message: "keeps c (handle_message c msg)"
  unfolding handle_message_def by (cases "parseCommand (getFirstToken msg)") (simp_all add: keeps_handlers)

text \<open>\<open>Connection::handle\<close>. The buffer \<open>data\<close> is reused from message to message.\<close>

function handle_loop :: "('f, 'd) Connection \<Rightarrow> bytes \<Rightarrow> 'd action" where
  "handle_loop c data w =
     (let (received, os') = recv_on (c_fd c) data (w_os w);
          w1 = w\<lparr>w_os := os'\<rparr> in
      if \<not> fst received then (Ret (), w1)
      else
        (case handle_message c (snd received) w1 of
           (Ret _, w2) \<Rightarrow> handle_loop c (snd received) w2
         | r \<Rightarrow> r))"
  by pat_completeness auto
termination
proof (relation "measure (\<lambda>(c, data, w). unread (c_fd c) (w_os w))", goal_cases)
  case (2 c data w x received os' w1 y r w2)
  then have "recv_on (c_fd c) data (w_os w) = ((True, snd received), os')" by (cases received) simp
  from unread_recv [OF this] have "unread (c_fd c) (w_os w1) < unread (c_fd c) (w_os w)"
    and "c_fd c \<in> open_fds (w_os w1)" using 2 by simp_all
  moreover have "client_rx (c_fd c) (w_os r) = client_rx (c_fd c) (w_os w1)" if "c_fd c \<in> open_fds (w_os w1)"
    using keepsD [OF keeps_message that, of "snd received"] 2 by (simp add: kept_def) (metis snd_conv)
  ultimately show ?case by (simp add: unread_def)
qed simp

declare handle_loop.simps [simp del]

text \<open>
  One round of the loop: the handlers of different connections run between each other's rounds. \<open>data\<close>
  is the local variable of the loop.
\<close>

definition handle_round :: "('f, 'd) Connection \<Rightarrow> bytes \<Rightarrow> 'd action" where
  "handle_round c data w =
     (let (received, os') = recv_on (c_fd c) data (w_os w) in
      if \<not> fst received then (Ret (), w\<lparr>w_os := os'\<rparr>)
      else handle_message c (snd received) (w\<lparr>w_os := os'\<rparr>))"

text \<open>
  A connection as the task of the thread pool runs it: \<open>start\<close>, then the destructor, which also runs
  when an exception leaves \<open>handle\<close> (the pool catches it). \<open>None\<close>: undefined behaviour.
\<close>

definition connection_run :: "('f, 'd) Connection \<Rightarrow> 'd world \<Rightarrow> 'd world option" where
  "connection_run c w =
     (case handle_loop c [] w of
        (Undef, w') \<Rightarrow> None
      | (_, w') \<Rightarrow> Some (if c_fd c \<ge> 0 then w'\<lparr>w_os := sys_close (c_fd c) (w_os w')\<rparr> else w'))"

section \<open>Lemmas\<close>

lemma handle_loop_open:
  "open_fds (w_os (snd (handle_loop c data w))) = open_fds (w_os w)
   \<and> os_ebadf (w_os (snd (handle_loop c data w))) = os_ebadf (w_os w)"
proof (induction c data w rule: handle_loop.induct)
  case (1 c data w)
  obtain received os' where r: "recv_on (c_fd c) data (w_os w) = (received, os')" by fastforce
  let ?w1 = "w\<lparr>w_os := os'\<rparr>"
  note fr = recv_on_frame [OF r]
  obtain res w2 where h: "handle_message c (snd received) ?w1 = (res, w2)" by fastforce
  show ?case
  proof (cases "fst received")
    case True
    with r have "c_fd c \<in> open_fds os'"
      using unread_recv [of "c_fd c" data "w_os w" "snd received" os'] by (metis prod.collapse)
    then have "open_fds (w_os w2) = open_fds (w_os w)" "os_ebadf (w_os w2) = os_ebadf (w_os w)"
      using keepsD [OF keeps_message, of c ?w1 "snd received"] fr by (simp_all add: h kept_def)
    with 1 [OF refl r [symmetric] refl _ h [symmetric]] True r h show ?thesis
      by (cases res) (simp_all add: handle_loop.simps [of c data w])
  qed (use fr r in \<open>simp add: handle_loop.simps [of c data w]\<close>)
qed

lemma connection_run_release:
  assumes "connection_run c w = Some w'" and "c_fd c \<in> open_fds (w_os w)" and "0 \<le> c_fd c"
  shows "open_fds (w_os w') = open_fds (w_os w) - {c_fd c} \<and> os_ebadf (w_os w') = os_ebadf (w_os w)"
proof -
  obtain r w1 where h: "handle_loop c [] w = (r, w1)" by fastforce
  have "w' = w1\<lparr>w_os := sys_close (c_fd c) (w_os w1)\<rparr>"
    using assms(1,3) h by (auto simp: connection_run_def split: outcome.splits)
  moreover have "open_fds (w_os w1) = open_fds (w_os w)" "os_ebadf (w_os w1) = os_ebadf (w_os w)"
    using handle_loop_open [of c "[]" w] h by simp_all
  ultimately show ?thesis using assms(2) by (simp add: pool_simps)
qed

text \<open>
  The messages of a connection, one after the other: the reference for the loop. Between two messages
  nothing happens but that the next one is taken off the connection; the last read finds nothing.
\<close>

definition read_off :: "int \<Rightarrow> bytes \<Rightarrow> net_os \<Rightarrow> net_os" where
  "read_off fd m os = snd (on_sock fd (\<lambda>s. ((), case take_frame m (rx_buf s, rx_next s) of
     None \<Rightarrow> s | Some (buf, evs) \<Rightarrow> s\<lparr>rx_buf := buf, rx_next := evs\<rparr>)) () os)"

definition read_nothing :: "int \<Rightarrow> net_os \<Rightarrow> net_os" where
  "read_nothing fd os = snd (on_sock fd (\<lambda>s. ((), s\<lparr>rx_next := tl (rx_next s)\<rparr>)) () os)"

fun serve :: "('f, 'd) Connection \<Rightarrow> string list \<Rightarrow> 'd action" where
  "serve c [] w = (Ret (), w\<lparr>w_os := read_nothing (c_fd c) (w_os w)\<rparr>)"
| "serve c (m # ms) w =
     (case handle_message c m (w\<lparr>w_os := read_off (c_fd c) m (w_os w)\<rparr>) of
        (Ret _, w') \<Rightarrow> serve c ms w'
      | r \<Rightarrow> r)"

text \<open>Nothing is there to read: the peer has closed, or nothing has arrived (\<open>EAGAIN\<close>), or the call fails.\<close>

fun silent :: "bytes \<times> arrival list \<Rightarrow> bool" where
  "silent (buf, Arrives bs # evs) \<longleftrightarrow> buf = [] \<and> bs = []"
| "silent (buf, evs) \<longleftrightarrow> buf = []"

lemma client_rx_conn:
  "client_rx fd os = Some (buf, evs) \<longleftrightarrow> (\<exists>s. conn_is os fd s \<and> rx_buf s = buf \<and> rx_next s = evs)"
  by (auto simp: client_rx_def conn_is_def)

lemma recv_on_in_time:
  assumes "client_rx fd os = Some x" and "m \<noteq> []" and "length m \<le> 1048576" and "take_frame m x = Some x'"
  shows "recv_on fd out os = ((True, m), read_off fd m os)" and "client_rx fd (read_off fd m os) = Some x'"
proof -
  obtain d where d: "map_of (os_desc os) fd = Some d" "x = (rx_buf (d_sock d), rx_next (d_sock d))"
    using assms(1) by (auto simp: client_rx_def)
  obtain buf evs where x': "x' = (buf, evs)" by fastforce
  have "recvMessage (d_sock d) out = (True, m, (d_sock d)\<lparr>rx_buf := buf, rx_next := evs\<rparr>)"
    using recvMessage_in_time [OF assms(2,3)] assms(4) d(2) x' by simp
  with d(1) show "recv_on fd out os = ((True, m), read_off fd m os)"
    using assms(4) d(2) x' by (simp add: recv_on_def read_off_def on_sock_def)
  show "client_rx fd (read_off fd m os) = Some x'"
    using assms(4) d x' by (simp add: client_rx_def read_off_def on_sock_def)
qed

lemma recv_on_silent:
  assumes "client_rx fd os = Some x" and "silent x"
  shows "recv_on fd out os = ((False, out), read_nothing fd os)"
proof -
  obtain d where d: "map_of (os_desc os) fd = Some d" "x = (rx_buf (d_sock d), rx_next (d_sock d))"
    using assms(1) by (auto simp: client_rx_def)
  have "recvMessage (d_sock d) out = (False, out, (d_sock d)\<lparr>rx_next := tl (rx_next (d_sock d))\<rparr>)"
    using assms(2) d(2) by (cases "(rx_buf (d_sock d), rx_next (d_sock d))" rule: silent.cases)
      (auto simp: recvMessage_def recv_sys_def)
  with d(1) show ?thesis by (simp add: recv_on_def read_nothing_def on_sock_def)
qed

lemma update_same: "map_of m k = Some v \<Longrightarrow> AList.update k v m = m"
  by (induction m) (auto split: if_splits)

lemma recv_on_closed:
  assumes "client_rx fd os = Some ([], [])"
  shows "recv_on fd out os = ((False, out), os)"
  using assms
  by (auto simp: client_rx_def recv_on_def on_sock_def recvMessage_def recv_sys_def update_same)

lemma handle_loop_serve:
  "client_rx (c_fd c) (w_os w) = Some x \<Longrightarrow> take_frames msgs x = Some x' \<Longrightarrow> silent x' \<Longrightarrow>
   list_all (\<lambda>m. m \<noteq> [] \<and> length m \<le> 1048576) msgs \<Longrightarrow> handle_loop c data w = serve c msgs w"
proof (induction msgs arbitrary: data w x)
  case Nil
  then show ?case using recv_on_silent [of "c_fd c" "w_os w" x data] by (simp add: handle_loop.simps [of c data w])
next
  case (Cons m msgs)
  let ?os1 = "read_off (c_fd c) m (w_os w)"
  obtain x1 where x1: "take_frame m x = Some x1" "take_frames msgs x1 = Some x'"
    using Cons.prems(2) by (auto split: option.splits)
  have r: "recv_on (c_fd c) data (w_os w) = ((True, m), ?os1)" and rx: "client_rx (c_fd c) ?os1 = Some x1"
    using recv_on_in_time [OF Cons.prems(1) _ _ x1(1)] Cons.prems(4) by simp_all
  then have op: "c_fd c \<in> open_fds (w_os (w\<lparr>w_os := ?os1\<rparr>))" by (auto simp: client_rx_def map_of_open)
  obtain res w2 where h: "handle_message c m (w\<lparr>w_os := ?os1\<rparr>) = (res, w2)" by fastforce
  with keepsD [OF keeps_message op, of m] rx have "client_rx (c_fd c) (w_os w2) = Some x1" by (simp add: kept_def)
  from Cons.IH [OF this x1(2) Cons.prems(3)] Cons.prems(4) r h show ?case
    by (cases res) (simp_all add: handle_loop.simps [of c data w])
qed

text \<open>
  A connection on which the given bytes have arrived and nothing more comes, whose peer takes every
  answer, and what was written on it.
\<close>

definition arrived_at :: "net_os \<Rightarrow> int \<Rightarrow> bytes \<Rightarrow> bytes \<Rightarrow> bool" where
  "arrived_at os fd bs got \<longleftrightarrow>
     (\<exists>s. conn_is os fd s \<and> rx_buf s = bs \<and> rx_next s = [] \<and> tx_out s = got \<and> tx_room s = [])"

lemma arrived_at_recv:
  assumes "arrived_at os fd (frame_bytes m @ rest) got" and "m \<noteq> []" and "length m \<le> 1048576"
  shows "\<exists>os'. recv_on fd out os = ((True, m), os') \<and> arrived_at os' fd rest got"
proof -
  obtain s where s: "conn_is os fd s" "rx_buf s = frame_bytes m @ rest" "rx_next s = []" "tx_out s = got" "tx_room s = []"
    using assms(1) by (auto simp: arrived_at_def)
  have "recvMessage s out = (True, m, s\<lparr>rx_buf := rest\<rparr>)"
    using recvMessage_frame [OF assms(2,3), of s rest out] s(2,3) by (simp add: all_arrived_def)
  from recv_on_conn [OF s(1) this] s show ?thesis by (fastforce simp: arrived_at_def)
qed

lemma arrived_at_send: "arrived_at os fd bs got \<Longrightarrow> arrived_at (snd (send_on fd m os)) fd bs (got @ frame_bytes m)"
proof -
  assume "arrived_at os fd bs got"
  then obtain s where s: "conn_is os fd s" "rx_buf s = bs" "rx_next s = []" "tx_out s = got" "tx_room s = []"
    by (auto simp: arrived_at_def)
  from send_on_conn [OF s(1,5), of m] s show ?thesis by (fastforce simp: arrived_at_def)
qed

text \<open>A message whose handler only writes a reply.\<close>

lemma round_replies:
  assumes "arrived_at (w_os w) (c_fd c) (frame_bytes m) got" and "m \<noteq> []" and "length m \<le> 1048576"
    and "\<And>os. handle_message c m (w\<lparr>w_os := os\<rparr>) = reply_to c reply (f (w\<lparr>w_os := os\<rparr>))"
    and "\<And>w. w_os (f w) = w_os w"
  shows "\<exists>os os'. handle_round c data w = (Ret (), (f (w\<lparr>w_os := os\<rparr>))\<lparr>w_os := os'\<rparr>)
    \<and> arrived_at os' (c_fd c) [] (got @ frame_bytes reply)"
proof -
  obtain os where r: "recv_on (c_fd c) data (w_os w) = ((True, m), os)" "arrived_at os (c_fd c) [] got"
    using arrived_at_recv [of "w_os w" "c_fd c" m "[]"] assms(1-3) by auto
  with arrived_at_send [OF r(2), of reply] assms(4,5) show ?thesis
    by (intro exI [of _ os] exI [of _ "snd (send_on (c_fd c) reply os)"]) (simp add: handle_round_def reply_to_def)
qed

end
