(* ===== verification/Transition.thy ===== *)
theory Transition
  imports Main
begin

text \<open>
  Invariants and simulations of step relations. The concurrent parts of the program (thread pool,
  Raft cluster, running server) are step relations; what holds of one step is lifted to all runs here,
  once for all of them.
\<close>

section \<open>Invariants\<close>

locale step_invariant =
  fixes step :: "'s \<Rightarrow> 's \<Rightarrow> bool" and ok :: "'s \<Rightarrow> bool"
  assumes kept: "step s s' \<Longrightarrow> ok s \<Longrightarrow> ok s'"
begin

lemma run_kept: "step\<^sup>*\<^sup>* s s' \<Longrightarrow> ok s \<Longrightarrow> ok s'"
  by (induction rule: rtranclp_induct) (auto intro: kept)

end

section \<open>Simulations\<close>

text \<open>
  A step of the detailed system from a state within the invariant is some steps, or none, of the
  abstract one, of which \<open>abs\<close> is the state.
\<close>

locale step_simulation = step_invariant step ok
  for step :: "'s \<Rightarrow> 's \<Rightarrow> bool" and ok :: "'s \<Rightarrow> bool" +
  fixes astep :: "'a \<Rightarrow> 'a \<Rightarrow> bool" and abs :: "'s \<Rightarrow> 'a"
  assumes simulated: "step s s' \<Longrightarrow> ok s \<Longrightarrow> astep\<^sup>*\<^sup>* (abs s) (abs s')"
begin

lemma run_simulated: "step\<^sup>*\<^sup>* s s' \<Longrightarrow> ok s \<Longrightarrow> astep\<^sup>*\<^sup>* (abs s) (abs s')"
proof (induction rule: rtranclp_induct)
  case (step s1 s2)
  then show ?case using simulated [OF step(2) run_kept [OF step(1)]] by (auto intro: rtranclp_trans)
qed simp

text \<open>An invariant of the abstract system holds of the detailed one.\<close>

lemma abstract_invariant:
  assumes "step_invariant astep aok" and "step\<^sup>*\<^sup>* s s'" and "ok s" and "aok (abs s)"
  shows "aok (abs s')"
  using step_invariant.run_kept [OF assms(1) run_simulated [OF assms(2,3)] assms(4)] .

end

end
