(* ===== verification/ThreadPool.thy ===== *)
theory ThreadPool
  imports Prelude Transition "HOL-Library.Multiset"
begin

text \<open>
  The thread pool (\<open>common/thread/ThreadPool.h\<close>, \<open>ThreadPool.cpp\<close>) as a state machine at the
  granularity at which its threads can interleave: a worker takes the mutex and evaluates the
  wait predicate in one step (the mutex is held), goes to sleep in another one (which releases the
  mutex), and runs its task without the mutex; \<open>submit\<close> reads \<open>m_stopping\<close>, pushes under the
  mutex and notifies in three steps; the destructor stores \<open>m_stopping\<close> without taking the mutex
  and notifies in a second step. Tasks are values; what a task does is not part of the pool, and an
  exception of a task is swallowed, so both ways of ending are the same step.
\<close>

section \<open>State\<close>

text \<open>
  \<open>AtLock\<close>: before the mutex is taken. \<open>BeforeSleep\<close>: the predicate was false and the worker
  holds the mutex. \<open>Asleep\<close>: inside \<open>m_cv.wait\<close> with the mutex released. \<open>Busy t\<close>: running
  \<open>t\<close>. \<open>Exited\<close>: \<open>workerLoop\<close> has returned.
\<close>

datatype 't worker = AtLock | BeforeSleep | Asleep | Busy 't | Exited

record 't ThreadPool =
  m_workers :: "'t worker list"
  m_tasks :: "'t list"
  m_stopping :: bool

definition ThreadPool_init :: "nat \<Rightarrow> 't ThreadPool" where
  "ThreadPool_init thread_count =
     \<lparr>m_workers = replicate (if thread_count = 0 then 1 else thread_count) AtLock, m_tasks = [], m_stopping = False\<rparr>"

definition pool_size :: "'t ThreadPool \<Rightarrow> nat" where
  "pool_size p = length (m_workers p)"

definition mutex_free :: "'t ThreadPool \<Rightarrow> bool" where
  "mutex_free p \<longleftrightarrow> BeforeSleep \<notin> set (m_workers p)"

section \<open>Steps of the code\<close>

text \<open>A worker at the mutex: the wait predicate, the exit test and the pop.\<close>

definition worker_lock :: "nat \<Rightarrow> 't ThreadPool \<Rightarrow> 't ThreadPool" where
  "worker_lock i p =
     (if m_stopping p \<or> m_tasks p \<noteq> [] then
        (if m_stopping p \<and> m_tasks p = [] then p\<lparr>m_workers := (m_workers p)[i := Exited]\<rparr>
         else p\<lparr>m_workers := (m_workers p)[i := Busy (hd (m_tasks p))], m_tasks := tl (m_tasks p)\<rparr>)
      else p\<lparr>m_workers := (m_workers p)[i := BeforeSleep]\<rparr>)"

text \<open>\<open>m_cv.wait\<close> blocks the worker; being woken takes it back to the mutex.\<close>

definition worker_sleep :: "nat \<Rightarrow> 't ThreadPool \<Rightarrow> 't ThreadPool" where
  "worker_sleep i p = p\<lparr>m_workers := (m_workers p)[i := Asleep]\<rparr>"

definition worker_wake :: "nat \<Rightarrow> 't ThreadPool \<Rightarrow> 't ThreadPool" where
  "worker_wake i p = p\<lparr>m_workers := (m_workers p)[i := AtLock]\<rparr>"

definition worker_done :: "nat \<Rightarrow> 't ThreadPool \<Rightarrow> 't ThreadPool" where
  "worker_done i p = p\<lparr>m_workers := (m_workers p)[i := AtLock]\<rparr>"

text \<open>\<open>submit\<close>: the test, the push under the mutex, and \<open>notify_one\<close> (\<open>i\<close>: the sleeper it picks).\<close>

definition submit_refused :: "'t ThreadPool \<Rightarrow> bool" where
  "submit_refused p \<longleftrightarrow> m_stopping p"

definition submit_push :: "'t \<Rightarrow> 't ThreadPool \<Rightarrow> 't ThreadPool" where
  "submit_push t p = p\<lparr>m_tasks := m_tasks p @ [t]\<rparr>"

definition notify_one :: "nat option \<Rightarrow> 't ThreadPool \<Rightarrow> 't ThreadPool" where
  "notify_one who p = (case who of None \<Rightarrow> p | Some i \<Rightarrow> worker_wake i p)"

definition notify_one_picks :: "nat option \<Rightarrow> 't ThreadPool \<Rightarrow> bool" where
  "notify_one_picks who p =
     (case who of None \<Rightarrow> Asleep \<notin> set (m_workers p)
      | Some i \<Rightarrow> i < length (m_workers p) \<and> m_workers p ! i = Asleep)"

text \<open>The destructor: the store, \<open>notify_all\<close>, and \<open>join\<close> of every worker.\<close>

definition destroy_store :: "'t ThreadPool \<Rightarrow> 't ThreadPool" where
  "destroy_store p = p\<lparr>m_stopping := True\<rparr>"

definition notify_all :: "'t ThreadPool \<Rightarrow> 't ThreadPool" where
  "notify_all p = p\<lparr>m_workers := map (\<lambda>w. if w = Asleep then AtLock else w) (m_workers p)\<rparr>"

definition join_all :: "'t ThreadPool \<Rightarrow> bool" where
  "join_all p \<longleftrightarrow> (\<forall>w \<in> set (m_workers p). w = Exited)"

section \<open>Runs\<close>

text \<open>
  What surrounds the pool: the calls of \<open>submit\<close> that are past their test (\<open>passed\<close>) or past
  their push (\<open>to_notify\<close>), how far the destructor is, and the history of the tasks: pushed,
  taken by a worker and finished, in this order of events; \<open>tp_late\<close> are those pushed after the
  destructor's store.
\<close>

datatype destructor = NotCalled | Stored | Notified

record 't tp_world =
  tp_pool :: "'t ThreadPool"
  tp_passed :: "'t list"
  tp_to_notify :: nat
  tp_destructor :: destructor
  tp_pushed :: "'t list"
  tp_taken :: "'t list"
  tp_finished :: "'t list"
  tp_late :: "'t list"

definition tp_init :: "nat \<Rightarrow> 't tp_world" where
  "tp_init n = \<lparr>tp_pool = ThreadPool_init n, tp_passed = [], tp_to_notify = 0, tp_destructor = NotCalled,
     tp_pushed = [], tp_taken = [], tp_finished = [], tp_late = []\<rparr>"

definition worker_at :: "nat \<Rightarrow> 't worker \<Rightarrow> 't tp_world \<Rightarrow> bool" where
  "worker_at i st w \<longleftrightarrow> i < length (m_workers (tp_pool w)) \<and> m_workers (tp_pool w) ! i = st"

inductive tp_step :: "'t tp_world \<Rightarrow> 't tp_world \<Rightarrow> bool" where
  lock: "worker_at i AtLock w \<Longrightarrow> mutex_free (tp_pool w) \<Longrightarrow>
    tp_step w (w\<lparr>tp_pool := worker_lock i (tp_pool w),
      tp_taken := tp_taken w @ take 1 (m_tasks (tp_pool w))\<rparr>)"
| sleep: "worker_at i BeforeSleep w \<Longrightarrow> tp_step w (w\<lparr>tp_pool := worker_sleep i (tp_pool w)\<rparr>)"
| finish: "worker_at i (Busy t) w \<Longrightarrow>
    tp_step w (w\<lparr>tp_pool := worker_done i (tp_pool w), tp_finished := tp_finished w @ [t]\<rparr>)"
| test: "\<not> submit_refused (tp_pool w) \<Longrightarrow> tp_step w (w\<lparr>tp_passed := t # tp_passed w\<rparr>)"
| push: "t \<in> set (tp_passed w) \<Longrightarrow> mutex_free (tp_pool w) \<Longrightarrow>
    tp_step w (w\<lparr>tp_pool := submit_push t (tp_pool w), tp_passed := remove1 t (tp_passed w),
      tp_to_notify := tp_to_notify w + 1, tp_pushed := tp_pushed w @ [t],
      tp_late := (if m_stopping (tp_pool w) then tp_late w @ [t] else tp_late w)\<rparr>)"
| notify: "0 < tp_to_notify w \<Longrightarrow> notify_one_picks who (tp_pool w) \<Longrightarrow>
    tp_step w (w\<lparr>tp_pool := notify_one who (tp_pool w), tp_to_notify := tp_to_notify w - 1\<rparr>)"
| destroy: "tp_destructor w = NotCalled \<Longrightarrow>
    tp_step w (w\<lparr>tp_pool := destroy_store (tp_pool w), tp_destructor := Stored\<rparr>)"
| notify_all: "tp_destructor w = Stored \<Longrightarrow>
    tp_step w (w\<lparr>tp_pool := notify_all (tp_pool w), tp_destructor := Notified\<rparr>)"

text \<open>A condition variable may also wake a sleeper without a notification.\<close>

inductive tp_move :: "'t tp_world \<Rightarrow> 't tp_world \<Rightarrow> bool" where
  program: "tp_step w w' \<Longrightarrow> tp_move w w'"
| spurious: "worker_at i Asleep w \<Longrightarrow> tp_move w (w\<lparr>tp_pool := worker_wake i (tp_pool w)\<rparr>)"

definition tp_reach :: "nat \<Rightarrow> 't tp_world \<Rightarrow> bool" where
  "tp_reach n = tp_move\<^sup>*\<^sup>* (tp_init n)"

lemma tp_reach_init [intro]: "tp_reach n (tp_init n)"
  by (simp add: tp_reach_def)

lemma tp_reach_step: "tp_reach n w \<Longrightarrow> tp_step w w' \<Longrightarrow> tp_reach n w'"
  unfolding tp_reach_def by (meson program rtranclp.rtrancl_into_rtrancl)

section \<open>Invariant\<close>

definition busy_task :: "'t worker \<Rightarrow> 't list" where
  "busy_task w = (case w of Busy t \<Rightarrow> [t] | _ \<Rightarrow> [])"

definition busy :: "'t worker list \<Rightarrow> 't multiset" where
  "busy ws = mset (concat (map busy_task ws))"

definition awake :: "'t worker \<Rightarrow> bool" where
  "awake w \<longleftrightarrow> w = AtLock \<or> (\<exists>t. w = Busy t)"

lemma busy_task_simps [simp]:
  "busy_task AtLock = []" "busy_task BeforeSleep = []" "busy_task Asleep = []" "busy_task (Busy t) = [t]"
  "busy_task Exited = []"
  by (simp_all add: busy_task_def)

lemma awake_simps [simp]: "awake AtLock" "awake (Busy t)" "\<not> awake BeforeSleep" "\<not> awake Asleep" "\<not> awake Exited"
  by (simp_all add: awake_def)

lemma busy_update:
  "i < length ws \<Longrightarrow> busy (ws[i := x]) + mset (busy_task (ws ! i)) = busy ws + mset (busy_task x)"
proof (induction ws arbitrary: i)
  case (Cons w ws)
  then show ?case by (cases i) (auto simp: busy_def)
qed simp

text \<open>History and queue: what was pushed was taken or is queued, what was taken is finished or running.\<close>

definition tp_history :: "'t tp_world \<Rightarrow> bool" where
  "tp_history w \<longleftrightarrow> tp_pushed w = tp_taken w @ m_tasks (tp_pool w)
     \<and> mset (tp_taken w) = mset (tp_finished w) + busy (m_workers (tp_pool w))"

lemma busy_wake: "busy (map (\<lambda>w. if w = Asleep then AtLock else w) ws) = busy ws"
proof -
  have "busy_task (if w = Asleep then AtLock else w) = busy_task w" for w :: "'a worker" by simp
  then show ?thesis by (simp add: busy_def comp_def)
qed

lemma tp_step_history: "tp_step w w' \<Longrightarrow> tp_history w \<Longrightarrow> tp_history w'"
proof (induction rule: tp_step.induct)
  case (lock i w)
  let ?p = "tp_pool w"
  from lock(1) have i: "i < length (m_workers ?p)" "m_workers ?p ! i = AtLock" by (auto simp: worker_at_def)
  show ?case
  proof (cases "m_tasks ?p")
    case Nil
    with lock(3) i busy_update [OF i(1), of Exited] busy_update [OF i(1), of BeforeSleep]
    show ?thesis by (auto simp: tp_history_def worker_lock_def)
  next
    case (Cons t ts)
    with lock(3) i busy_update [OF i(1), of "Busy t"] show ?thesis by (auto simp: tp_history_def worker_lock_def)
  qed
next
  case (sleep i w)
  then show ?case using busy_update [of i "m_workers (tp_pool w)" Asleep]
    by (auto simp: tp_history_def worker_at_def worker_sleep_def)
next
  case (finish i t w)
  then show ?case using busy_update [of i "m_workers (tp_pool w)" AtLock]
    by (auto simp: tp_history_def worker_at_def worker_done_def)
next
  case (notify w who)
  then show ?case using busy_update [of "the who" "m_workers (tp_pool w)" AtLock]
    by (auto simp: tp_history_def notify_one_def notify_one_picks_def worker_wake_def split: option.splits)
qed (auto simp: tp_history_def submit_push_def destroy_store_def notify_all_def busy_wake)

text \<open>Sleepers and leavers.\<close>

definition tp_live :: "nat \<Rightarrow> 't tp_world \<Rightarrow> bool" where
  "tp_live n w \<longleftrightarrow>
     (let p = tp_pool w in
      length (m_workers p) = max 1 n
      \<and> (BeforeSleep \<in> set (m_workers p) \<longrightarrow> m_tasks p = [])
      \<and> (Exited \<in> set (m_workers p) \<longrightarrow> m_stopping p \<and> (\<exists>k. m_tasks p = drop k (tp_late w)))
      \<and> (m_tasks p \<noteq> [] \<and> tp_to_notify w = 0 \<and> \<not> m_stopping p \<longrightarrow> (\<exists>x \<in> set (m_workers p). awake x))
      \<and> (m_stopping p \<longleftrightarrow> tp_destructor w \<noteq> NotCalled))"

lemma update_mem: "x \<in> set (ws[i := y]) \<Longrightarrow> x = y \<or> x \<in> set ws"
  using set_update_subset_insert by fastforce

text \<open>Putting one worker in the state \<open>y\<close> keeps the invariant when \<open>y\<close> itself respects it.\<close>

lemma tp_live_set_worker:
  assumes "tp_live n w" and "i < length (m_workers (tp_pool w))"
    and "y = BeforeSleep \<longrightarrow> m_tasks (tp_pool w) = []"
    and "y = Exited \<longrightarrow> m_stopping (tp_pool w) \<and> m_tasks (tp_pool w) = []"
    and "awake y \<or> m_tasks (tp_pool w) = []"
  shows "tp_live n (w\<lparr>tp_pool := (tp_pool w)\<lparr>m_workers := (m_workers (tp_pool w))[i := y]\<rparr>\<rparr>)"
proof -
  let ?ws = "m_workers (tp_pool w)"
  have mem: "y \<in> set (?ws[i := y])" using assms(2) by (rule set_update_memI)
  have "\<exists>k. m_tasks (tp_pool w) = drop k (tp_late w)" if "m_tasks (tp_pool w) = []"
    using that by (intro exI [of _ "length (tp_late w)"]) simp
  then show ?thesis using assms mem update_mem [of _ ?ws i y] unfolding tp_live_def Let_def by auto
qed

lemma tp_live_ghost:
  "tp_live n (w\<lparr>tp_pool := p, tp_taken := a\<rparr>) = tp_live n (w\<lparr>tp_pool := p\<rparr>)"
  "tp_live n (w\<lparr>tp_pool := p, tp_finished := b\<rparr>) = tp_live n (w\<lparr>tp_pool := p\<rparr>)"
  "tp_live n (w\<lparr>tp_passed := c\<rparr>) = tp_live n w"
  by (simp_all add: tp_live_def)

lemma tp_live_lock:
  assumes "worker_at i AtLock w" and "mutex_free (tp_pool w)" and "tp_live n w"
  shows "tp_live n (w\<lparr>tp_pool := worker_lock i (tp_pool w), tp_taken := tp_taken w @ take 1 (m_tasks (tp_pool w))\<rparr>)"
proof -
  let ?p = "tp_pool w"
  have i: "i < length (m_workers ?p)" using assms(1) by (simp add: worker_at_def)
  show ?thesis
  proof (cases "m_tasks ?p")
    case Nil
    then have "tp_live n (w\<lparr>tp_pool := worker_lock i ?p\<rparr>)"
      using tp_live_set_worker [OF assms(3) i] by (simp add: worker_lock_def)
    then show ?thesis by (simp only: tp_live_ghost)
  next
    case (Cons t ts)
    have "Busy t \<in> set ((m_workers ?p)[i := Busy t])" using i by (rule set_update_memI)
    moreover have "\<exists>k'. ts = drop k' (tp_late w)" if "m_tasks ?p = drop k (tp_late w)" for k
      using that Cons by (intro exI [of _ "Suc k"]) (metis drop_Suc list.sel(3) tl_drop)
    moreover have "BeforeSleep \<notin> set ((m_workers ?p)[i := Busy t])"
      using assms(2) update_mem [of BeforeSleep "m_workers ?p" i "Busy t"] by (auto simp: mutex_free_def)
    moreover have "Exited \<in> set (m_workers ?p)" if "Exited \<in> set ((m_workers ?p)[i := Busy t])"
      using update_mem [OF that] by simp
    ultimately show ?thesis
      using assms(3) Cons unfolding tp_live_def Let_def worker_lock_def by simp (metis awake_simps(2))
  qed
qed

lemma tp_live_notify:
  assumes "notify_one_picks who (tp_pool w)" and "tp_live n w"
  shows "tp_live n (w\<lparr>tp_pool := notify_one who (tp_pool w), tp_to_notify := tp_to_notify w - 1\<rparr>)"
proof -
  show ?thesis
  proof (cases who)
    case None
    have "\<exists>x \<in> set (m_workers (tp_pool w)). awake x" if "m_tasks (tp_pool w) \<noteq> []" and "\<not> m_stopping (tp_pool w)"
    proof -
      have "hd (m_workers (tp_pool w)) \<in> set (m_workers (tp_pool w))"
        using assms(2) by (intro hd_in_set) (auto simp: tp_live_def Let_def)
      moreover have "\<forall>x \<in> set (m_workers (tp_pool w)). x \<noteq> Asleep \<and> x \<noteq> BeforeSleep \<and> x \<noteq> Exited"
        using assms that None by (auto simp: tp_live_def Let_def notify_one_picks_def)
      ultimately show ?thesis by (metis awake_def worker.exhaust)
    qed
    with assms(2) None show ?thesis by (auto simp: tp_live_def Let_def notify_one_def)
  next
    case (Some i)
    then have i: "i < length (m_workers (tp_pool w))" using assms(1) by (simp add: notify_one_picks_def)
    have "\<exists>x \<in> set ((m_workers (tp_pool w))[i := AtLock]). awake x"
      using set_update_memI [OF i, of AtLock] awake_simps(1) by blast
    with tp_live_set_worker [OF assms(2) i, of AtLock] Some show ?thesis
      unfolding notify_one_def worker_wake_def tp_live_def Let_def by simp blast
  qed
qed

lemma tp_step_live: "tp_step w w' \<Longrightarrow> tp_live n w \<Longrightarrow> tp_live n w'"
proof (induction rule: tp_step.induct)
  case (lock i w)
  then show ?case by (rule tp_live_lock)
next
  case (sleep i w)
  then have "BeforeSleep \<in> set (m_workers (tp_pool w))" and i: "i < length (m_workers (tp_pool w))"
    by (auto simp: worker_at_def in_set_conv_nth)
  with sleep(2) have "m_tasks (tp_pool w) = []" by (simp add: tp_live_def Let_def)
  then show ?case using tp_live_set_worker [OF sleep(2) i, of Asleep] by (simp add: worker_sleep_def)
next
  case (finish i t w)
  then have "i < length (m_workers (tp_pool w))" by (simp add: worker_at_def)
  from tp_live_set_worker [OF finish(2) this, of AtLock]
  show ?case by (simp add: worker_done_def tp_live_ghost)
next
  case (test w t)
  then show ?case by (simp add: tp_live_ghost)
next
  case (push t w)
  have "\<exists>k'. m_tasks (tp_pool w) @ [t] = drop k' (tp_late w @ [t])" if "m_tasks (tp_pool w) = drop k (tp_late w)" for k
    using that by (intro exI [of _ "min k (length (tp_late w))"]) (auto simp: min_def)
  with push show ?case unfolding tp_live_def Let_def mutex_free_def submit_push_def by simp metis
next
  case (notify w who)
  from notify(2,3) show ?case by (rule tp_live_notify)
next
  case (destroy w)
  then show ?case by (auto simp: tp_live_def Let_def destroy_store_def)
next
  case (notify_all w)
  then show ?case by (auto simp: tp_live_def Let_def notify_all_def split: if_splits)
qed

lemma tp_move_inv:
  assumes "tp_move w w'" and "tp_history w \<and> tp_live n w"
  shows "tp_history w' \<and> tp_live n w'"
  using assms
proof cases
  case program
  then show ?thesis using assms(2) tp_step_history tp_step_live by blast
next
  case (spurious i)
  then have i: "i < length (m_workers (tp_pool w))" "m_workers (tp_pool w) ! i = Asleep"
    by (auto simp: worker_at_def)
  from tp_live_set_worker [OF _ i(1), of n AtLock] busy_update [OF i(1), of AtLock] assms(2) i(2) spurious(1)
  show ?thesis by (simp add: worker_wake_def tp_history_def)
qed

interpretation tp: step_invariant tp_move "\<lambda>w. tp_history w \<and> tp_live n w"
  by unfold_locales (rule tp_move_inv)

lemma tp_reach_inv: "tp_reach n w \<Longrightarrow> tp_history w \<and> tp_live n w"
  unfolding tp_reach_def
  by (erule tp.run_kept) (auto simp: tp_history_def tp_live_def tp_init_def ThreadPool_init_def busy_def Let_def)

section \<open>Properties\<close>

text \<open>
  C25. First in, first out, and each task once: in every reachable state the tasks taken by the
  workers, in the order in which they were taken, followed by the queue are the tasks pushed, in
  the order of the pushes; and every task taken is finished or is being run by one worker.
\<close>

theorem pool_fifo_exactly_once:
  assumes "tp_reach n w"
  shows "tp_pushed w = tp_taken w @ m_tasks (tp_pool w)
    \<and> mset (tp_taken w) = mset (tp_finished w) + busy (m_workers (tp_pool w))
    \<and> pool_size (tp_pool w) = max 1 n"
  using tp_reach_inv [OF assms] by (simp add: tp_history_def tp_live_def Let_def pool_size_def)

text \<open>
  When the destructor's \<open>join\<close> of all workers has succeeded, every task that was pushed
  before the destructor set \<open>m_stopping\<close> has been run to its end; what is left in the queue was
  pushed after that by a call of \<open>submit\<close> that had passed its test before.
\<close>

theorem pool_drained_at_join:
  assumes "tp_reach n w" and "join_all (tp_pool w)"
  shows "mset (tp_pushed w) = mset (tp_finished w) + mset (m_tasks (tp_pool w))
    \<and> (\<exists>k. m_tasks (tp_pool w) = drop k (tp_late w)) \<and> m_stopping (tp_pool w)"
proof -
  note inv = tp_reach_inv [OF assms(1)]
  from assms(2) have "busy (m_workers (tp_pool w)) = {#}"
    by (auto simp: join_all_def busy_def)
  moreover have "Exited \<in> set (m_workers (tp_pool w))"
  proof -
    have "m_workers (tp_pool w) \<noteq> []" using inv by (auto simp: tp_live_def Let_def)
    then have "hd (m_workers (tp_pool w)) \<in> set (m_workers (tp_pool w))" by (rule hd_in_set)
    with assms(2) show ?thesis unfolding join_all_def by metis
  qed
  ultimately show ?thesis using inv by (auto simp: tp_live_def tp_history_def Let_def)
qed

text \<open>
  C26. A push never gets lost on sleeping workers: in a reachable state of a pool that is not
  stopping, a queued task means that a \<open>notify_one\<close> is still to come, or that some worker is
  running a task, or that some worker can take the first task of the queue now.
\<close>

theorem pool_no_lost_task:
  assumes "tp_reach n w" and "m_tasks (tp_pool w) \<noteq> []" and "\<not> m_stopping (tp_pool w)"
  shows "0 < tp_to_notify w \<or> (\<exists>i t. worker_at i (Busy t) w)
    \<or> (\<exists>i w'. worker_at i AtLock w \<and> tp_step w w' \<and> worker_at i (Busy (hd (m_tasks (tp_pool w)))) w')"
proof (rule disjCI)
  note live = tp_reach_inv [OF assms(1), THEN conjunct2, unfolded tp_live_def Let_def]
  assume no: "\<not> ((\<exists>i t. worker_at i (Busy t) w)
    \<or> (\<exists>i w'. worker_at i AtLock w \<and> tp_step w w' \<and> worker_at i (Busy (hd (m_tasks (tp_pool w)))) w'))"
  show "0 < tp_to_notify w"
  proof (rule ccontr)
    assume "\<not> 0 < tp_to_notify w"
    with live assms(2,3) obtain x where "x \<in> set (m_workers (tp_pool w))" and "awake x" by auto
    then obtain i where "worker_at i x w" by (auto simp: in_set_conv_nth worker_at_def)
    with \<open>awake x\<close> no have i: "worker_at i AtLock w" by (auto simp: awake_def)
    have "mutex_free (tp_pool w)" using live assms(2) by (auto simp: mutex_free_def)
    note step = tp_step.lock [OF i this]
    have "worker_at i (Busy (hd (m_tasks (tp_pool w)))) (w\<lparr>tp_pool := worker_lock i (tp_pool w),
        tp_taken := tp_taken w @ take 1 (m_tasks (tp_pool w))\<rparr>)"
      using i assms(2,3) by (simp add: worker_at_def worker_lock_def)
    with i step no show False by blast
  qed
qed

text \<open>
  C40. The destructor stores \<open>m_stopping\<close> without holding the mutex, so its \<open>notify_all\<close> can
  fall between a worker's test of the predicate and its going to sleep. Then the worker sleeps,
  \<open>join\<close> waits for it, and no step of the program is left: the destructor does not return.
\<close>

theorem pool_destructor_can_hang:
  "\<exists>w :: 't tp_world. tp_reach 1 w \<and> tp_destructor w = Notified \<and> m_stopping (tp_pool w)
     \<and> \<not> join_all (tp_pool w) \<and> (\<forall>w'. \<not> tp_step w w')"
proof -
  let ?at = "\<lambda>ws st d. \<lparr>tp_pool = \<lparr>m_workers = ws, m_tasks = [], m_stopping = st\<rparr>, tp_passed = [], tp_to_notify = 0,
    tp_destructor = d, tp_pushed = [], tp_taken = [], tp_finished = [], tp_late = []\<rparr> :: 't tp_world"
  have 0: "tp_reach 1 (?at [AtLock] False NotCalled)"
    using tp_reach_init [of 1] by (simp add: tp_init_def ThreadPool_init_def)
  have 1: "tp_reach 1 (?at [BeforeSleep] False NotCalled)"
    using tp_reach_step [OF 0 tp_step.lock [of 0]] by (simp add: worker_at_def mutex_free_def worker_lock_def)
  have 2: "tp_reach 1 (?at [BeforeSleep] True Stored)"
    using tp_reach_step [OF 1 tp_step.destroy] by (simp add: destroy_store_def)
  have 3: "tp_reach 1 (?at [BeforeSleep] True Notified)"
    using tp_reach_step [OF 2 tp_step.notify_all] by (simp add: notify_all_def)
  have 4: "tp_reach 1 (?at [Asleep] True Notified)"
    using tp_reach_step [OF 3 tp_step.sleep [of 0]] by (simp add: worker_at_def worker_sleep_def)
  moreover have "\<not> tp_step (?at [Asleep] True Notified) w'" for w'
    by (auto elim!: tp_step.cases simp: worker_at_def submit_refused_def)
  ultimately show ?thesis by (intro exI [of _ "?at [Asleep] True Notified"]) (simp add: join_all_def)
qed

section \<open>Instances\<close>

definition one_task_queued :: "nat tp_world" where
  "one_task_queued = \<lparr>tp_pool = \<lparr>m_workers = [AtLock], m_tasks = [7], m_stopping = False\<rparr>, tp_passed = [], tp_to_notify = 1,
    tp_destructor = NotCalled, tp_pushed = [7], tp_taken = [], tp_finished = [], tp_late = []\<rparr>"

lemma one_task_queued_reach: "tp_reach 0 one_task_queued"
proof -
  have 1: "tp_reach 0 ((tp_init 0)\<lparr>tp_passed := [7 :: nat]\<rparr>)"
    using tp_reach_step [OF tp_reach_init tp_step.test [of "tp_init 0" "7 :: nat"]]
    by (simp add: submit_refused_def tp_init_def ThreadPool_init_def)
  show ?thesis
    using tp_reach_step [OF 1 tp_step.push [of 7]]
    by (simp add: submit_push_def tp_init_def ThreadPool_init_def mutex_free_def one_task_queued_def)
qed

theorem pool_fifo_exactly_once_witness:
  "tp_pushed one_task_queued = tp_taken one_task_queued @ m_tasks (tp_pool one_task_queued)
   \<and> pool_size (tp_pool one_task_queued) = 1"
  using pool_fifo_exactly_once [OF one_task_queued_reach] by simp

theorem pool_no_lost_task_witness:
  "(\<exists>i t. worker_at i (Busy t) (one_task_queued\<lparr>tp_to_notify := 0\<rparr>))
   \<or> (\<exists>i w'. worker_at i AtLock (one_task_queued\<lparr>tp_to_notify := 0\<rparr>) \<and> tp_step (one_task_queued\<lparr>tp_to_notify := 0\<rparr>) w'
        \<and> worker_at i (Busy 7) w')"
proof -
  have "tp_reach 0 (one_task_queued\<lparr>tp_to_notify := 0\<rparr>)"
    using tp_reach_step [OF one_task_queued_reach tp_step.notify [of _ None]]
    by (simp add: one_task_queued_def notify_one_picks_def notify_one_def)
  from pool_no_lost_task [OF this] show ?thesis by (simp add: one_task_queued_def)
qed

theorem pool_drained_at_join_witness:
  "\<exists>w :: nat tp_world. tp_reach 1 w \<and> join_all (tp_pool w) \<and> mset (tp_pushed w) = mset (tp_finished w) + mset (m_tasks (tp_pool w))"
proof -
  let ?at = "\<lambda>ws. \<lparr>tp_pool = \<lparr>m_workers = ws, m_tasks = [], m_stopping = True\<rparr>, tp_passed = [], tp_to_notify = 0,
    tp_destructor = Stored, tp_pushed = [], tp_taken = [], tp_finished = [], tp_late = []\<rparr> :: nat tp_world"
  have 1: "tp_reach 1 (?at [AtLock])"
    using tp_reach_step [OF tp_reach_init tp_step.destroy [of "tp_init 1"]]
    by (simp add: tp_init_def ThreadPool_init_def destroy_store_def)
  have 2: "tp_reach 1 (?at [Exited])"
    using tp_reach_step [OF 1 tp_step.lock [of 0]] by (simp add: worker_at_def mutex_free_def worker_lock_def)
  from pool_drained_at_join [OF 2] 2 show ?thesis by (intro exI [of _ "?at [Exited]"]) (simp add: join_all_def)
qed

end
