(* ===== verification/Server.thy ===== *)
theory Server
  imports Config Connection ThreadPool
begin

text \<open>
  \<open>server/Server.h\<close> and \<open>server/Server.cpp\<close>: construction from the configuration with the
  health probe of every other node, the listening socket, start and stop with the Raft node, the
  accept loop, \<open>wait\<close> and the destructor. The probe's operating system is an argument per configured node; \<open>bind\<close>,
  \<open>listen\<close>, \<open>epoll_create1\<close> and \<open>epoll_ctl\<close> succeed or fail as the record \<open>listen_os\<close> says.
\<close>

section \<open>State\<close>

record Server =
  srv_running :: bool
  srv_listen_fd :: int
  srv_epoll_fd :: int
  srv_port :: int
  srv_self :: NodeInfo
  srv_router :: ShardRouter
  srv_threads :: nat
  srv_raft :: "RaftNode option"
  srv_raft_threads :: raft_threads
  srv_raft_pool :: RaftConnectionPool

section \<open>Construction\<close>

definition node_prefix :: "nat \<Rightarrow> string" where
  "node_prefix i = ''node'' @ show_nat (i + 1)"

text \<open>The entry of node \<open>i\<close> of the configuration; \<open>healthy\<close> is set by the caller.\<close>

definition config_node :: "Config \<Rightarrow> nat \<Rightarrow> NodeInfo" where
  "config_node cfg i =
     \<lparr>ni_id = getString (node_prefix i @ ''.id'') [] cfg,
      ni_host = getString (node_prefix i @ ''.host'') [] cfg,
      ni_port = getInt (node_prefix i @ ''.port'') 0 cfg,
      ni_healthy = False\<rparr>"

text \<open>The loop of the constructor. \<open>None\<close>: the probe ran off its buffer.\<close>

fun load_nodes :: "Config \<Rightarrow> string \<Rightarrow> (nat \<Rightarrow> health_os) \<Rightarrow> nat list \<Rightarrow> ShardRouter \<Rightarrow> ShardRouter option" where
  "load_nodes cfg self_id probe [] r = Some r"
| "load_nodes cfg self_id probe (i # is) r =
     (let node = config_node cfg i in
      case (if self_id = ni_id node then Some True else fst (checkNodeHealth (probe i) node)) of
        None \<Rightarrow> None
      | Some healthy \<Rightarrow>
          if healthy then load_nodes cfg self_id probe is (snd (insertNode r (node\<lparr>ni_healthy := True\<rparr>)))
          else load_nodes cfg self_id probe is r)"

text \<open>
  \<open>nodes.count\<close> is read as an \<open>int\<close> and converted to \<open>size_t\<close>, so a negative count is a
  number of about 2^64. \<open>hw\<close> is \<open>hardware_concurrency()\<close>. The field \<open>healthy\<close> of \<open>m_self\<close> is
  never assigned and never read.
\<close>

definition Server_init :: "nat \<Rightarrow> Config \<Rightarrow> (nat \<Rightarrow> health_os) \<Rightarrow> Server option" where
  "Server_init hw cfg probe =
     (let port = getInt ''server.port'' 9000 cfg;
          self = \<lparr>ni_id = getString ''server.id'' [] cfg, ni_host = getString ''server.host'' [] cfg,
                  ni_port = port, ni_healthy = True\<rparr>;
          node_count = unat (of_int (getInt ''nodes.count'' 0 cfg) :: u64)
      in map_option
           (\<lambda>r. \<lparr>srv_running = False, srv_listen_fd = -1, srv_epoll_fd = -1, srv_port = port, srv_self = self,
                 srv_router = r, srv_threads = pool_size (ThreadPool_init hw :: unit ThreadPool), srv_raft = None,
                 srv_raft_threads = raft_threads_init, srv_raft_pool = RaftConnectionPool_init\<rparr>)
           (load_nodes cfg (ni_id self) probe [0..<node_count] (ShardRouter_init [])))"

section \<open>The listening socket\<close>

record listen_os =
  ls_bind :: bool
  ls_listen :: bool
  ls_epoll :: bool
  ls_ctl :: bool

definition sys_epoll_create :: "listen_os \<Rightarrow> net_os \<Rightarrow> int \<times> net_os" where
  "sys_epoll_create ls os = (if ls_epoll ls then sys_socket os else (-1, os))"

definition setupSocket :: "listen_os \<Rightarrow> Server \<Rightarrow> net_os \<Rightarrow> bool \<times> Server \<times> net_os" where
  "setupSocket ls s os =
     (let (fd, os1) = sys_socket os;
          s1 = s\<lparr>srv_listen_fd := fd\<rparr> in
      if fd < 0 then (False, s1, os1)
      else if \<not> ls_bind ls then (False, s1, os1)
      else if \<not> ls_listen ls then (False, s1, os1)
      else
        (let (ep, os2) = sys_epoll_create ls os1;
             s2 = s1\<lparr>srv_epoll_fd := ep\<rparr> in
         if ep < 0 then (False, s2, os2)
         else if \<not> ls_ctl ls then (False, s2, sys_close ep os2)
         else (True, s2, os2)))"

section \<open>Start and stop\<close>

text \<open>The two loops of \<open>start\<close> over the nodes of the router.\<close>

definition peer_ids :: "string \<Rightarrow> NodeInfo list \<Rightarrow> string list" where
  "peer_ids self_id nodes = map ni_id (filter (\<lambda>n. ni_id n \<noteq> self_id) nodes)"

fun set_addresses :: "string \<Rightarrow> NodeInfo list \<Rightarrow> RaftNode \<Rightarrow> RaftNode" where
  "set_addresses self_id [] raft = raft"
| "set_addresses self_id (n # ns) raft =
     set_addresses self_id ns
       (if ni_id n \<noteq> self_id then setPeerAddress (ni_id n) (ni_host n) (ni_port n) raft else raft)"

definition make_raft :: "timer \<Rightarrow> Server \<Rightarrow> RaftNode" where
  "make_raft t s =
     (let self_id = ni_id (srv_self s); nodes = getAllNodes (srv_router s)
      in set_addresses self_id nodes (RaftNode_init t self_id (peer_ids self_id nodes)))"

text \<open>
  \<open>start\<close> up to the call of \<open>acceptLoop\<close>. \<open>Inl\<close>: the exception of \<open>RocksDBStorage::open\<close>, which
  nothing catches.
\<close>

definition server_start ::
  "listen_os \<Rightarrow> 'd rocksdb \<Rightarrow> timer \<Rightarrow> Server \<Rightarrow> net_os \<Rightarrow> 'd RocksDBStorage \<Rightarrow>
   string + (bool \<times> Server \<times> net_os \<times> 'd RocksDBStorage)" where
  "server_start ls db t s os st =
     (let (ok, s1, os1) = setupSocket ls s os in
      if \<not> ok then Inr (False, s1, os1, st)
      else
        (case storage_open db (''data/'' @ ni_id (srv_self s1) @ ''/rocksdb'') st of
           Inl e \<Rightarrow> Inl e
         | Inr (opened, st1) \<Rightarrow>
             if \<not> opened then Inr (False, s1, os1, st1)
             else
               (let (th, p, os2) = raft_start (raft_threads_init, RaftConnectionPool_init, os1) in
                Inr (True, s1\<lparr>srv_raft := Some (make_raft t s1), srv_raft_threads := th, srv_raft_pool := p, srv_running := True\<rparr>,
                     os2, st1))))"

text \<open>\<open>m_raft_node->stop()\<close>, when there is a node.\<close>

definition stop_raft :: "Server \<Rightarrow> net_os \<Rightarrow> Server \<times> net_os" where
  "stop_raft s os =
     (case srv_raft s of
        None \<Rightarrow> (s, os)
      | Some raft \<Rightarrow>
          (let (th, p, os') = raft_stop (srv_raft_threads s, srv_raft_pool s, os)
           in (s\<lparr>srv_raft_threads := th, srv_raft_pool := p\<rparr>, os')))"

definition server_stop :: "Server \<Rightarrow> net_os \<Rightarrow> Server \<times> net_os" where
  "server_stop s os0 =
     (if \<not> srv_running s then (s, os0)
      else
        (let (s1, os) = stop_raft (s\<lparr>srv_running := False\<rparr>) os0;
             (s2, os2) = (if srv_epoll_fd s1 \<ge> 0 then (s1\<lparr>srv_epoll_fd := -1\<rparr>, sys_close (srv_epoll_fd s1) os) else (s1, os))
         in if srv_listen_fd s2 \<ge> 0 then (s2\<lparr>srv_listen_fd := -1\<rparr>, sys_close (srv_listen_fd s2) os2) else (s2, os2)))"

section \<open>Accepting\<close>

text \<open>
  \<open>accept\<close>: the script holds the connections that are waiting; \<open>None\<close> is an error. The new
  descriptor is the lowest free one. Each accepted connection becomes a task of the pool; the
  result lists the descriptors in the order of the submissions.
\<close>

fun accept_all :: "socket option list \<Rightarrow> net_os \<Rightarrow> int list \<times> socket option list \<times> net_os" where
  "accept_all [] os = ([], [], os)"
| "accept_all (None # rest) os = ([], rest, os)"
| "accept_all (Some c # rest) os =
     (let (fd, os1) = sys_socket os in
      if fd < 0 then ([], Some c # rest, os1)
      else
        (let os2 = os1\<lparr>os_desc := AList.update fd \<lparr>d_addr = None, d_sock = c\<rparr> (os_desc os1)\<rparr>;
             (fds, rest', os3) = accept_all rest os2
         in (fd # fds, rest', os3)))"

text \<open>The events of one \<open>epoll_wait\<close>; an event of another descriptor is ignored.\<close>

fun acceptLoop_round :: "int \<Rightarrow> int list \<Rightarrow> socket option list \<Rightarrow> net_os \<Rightarrow> int list \<times> socket option list \<times> net_os" where
  "acceptLoop_round listen_fd [] waiting os = ([], waiting, os)"
| "acceptLoop_round listen_fd (ev # evs) waiting os =
     (if ev = listen_fd then
        (let (fds, waiting1, os1) = accept_all waiting os;
             (fds', waiting2, os2) = acceptLoop_round listen_fd evs waiting1 os1
         in (fds @ fds', waiting2, os2))
      else acceptLoop_round listen_fd evs waiting os)"

text \<open>
  The loop. \<open>epoll_wait\<close> ends with a timeout, with \<open>EINTR\<close>, with another error or with events;
  \<open>EpSignal\<close> is the interruption by \<open>SIGINT\<close> or \<open>SIGTERM\<close>, whose handler has called \<open>stop\<close>. \<open>None\<close>:
  the loop is still running when the script ends.
\<close>

datatype epoll_result = EpTimeout | EpIntr | EpSignal | EpFailed | EpEvents "int list"

fun acceptLoop :: "epoll_result list \<Rightarrow> socket option list \<Rightarrow> Server \<Rightarrow> net_os \<Rightarrow> (int list \<times> Server \<times> net_os) option" where
  "acceptLoop [] waiting s os = (if srv_running s then None else Some ([], s, os))"
| "acceptLoop (ev # evs) waiting s os =
     (if \<not> srv_running s then Some ([], s, os)
      else
        (case ev of
           EpTimeout \<Rightarrow> acceptLoop evs waiting s os
         | EpIntr \<Rightarrow> acceptLoop evs waiting s os
         | EpSignal \<Rightarrow> (let (s', os') = server_stop s os in acceptLoop evs waiting s' os')
         | EpFailed \<Rightarrow> Some ([], s, os)
         | EpEvents ready \<Rightarrow>
             (let (fds, waiting1, os1) = acceptLoop_round (srv_listen_fd s) ready waiting os in
              (case acceptLoop evs waiting1 s os1 of
                 None \<Rightarrow> None
               | Some (fds', s', os2) \<Rightarrow> Some (fds @ fds', s', os2)))))"

text \<open>The task that is submitted for a descriptor: a \<open>Connection\<close> on it, started and destroyed.\<close>

definition client_task :: "('f, 'd) Connection \<Rightarrow> int \<Rightarrow> 'd world \<Rightarrow> 'd world option" where
  "client_task c client_fd = connection_run (c\<lparr>c_fd := client_fd\<rparr>)"

text \<open>
  \<open>wait\<close>: the loop that sleeps a second at a time; the script says in which of the coming seconds a
  signal arrives. \<open>None\<close>: it is still waiting at the end of the script.
\<close>

fun server_wait :: "bool list \<Rightarrow> Server \<Rightarrow> net_os \<Rightarrow> (Server \<times> net_os) option" where
  "server_wait [] s os = (if srv_running s then None else Some (s, os))"
| "server_wait (sig # sigs) s os =
     (if srv_running s then
        (let (s', os') = (if sig then server_stop s os else (s, os)) in server_wait sigs s' os')
      else Some (s, os))"

definition isRunning :: "Server \<Rightarrow> bool" where
  "isRunning s = srv_running s"

text \<open>The destructor.\<close>

definition Server_destroy :: "Server \<Rightarrow> net_os \<Rightarrow> Server \<times> net_os" where
  "Server_destroy s os = (if srv_running s then server_stop s os else (s, os))"

section \<open>Lemmas\<close>

text \<open>
  What the loop of the constructor puts in the router: entries of the configuration that are this
  server's own or answered the probe, marked healthy, with distinct ids.
\<close>

lemma insertNode_mem: "x \<in> set (m_nodes (snd (insertNode r n))) \<longleftrightarrow>
  x \<in> set (m_nodes r) \<or> x = n \<and> (\<forall>m \<in> set (m_nodes r). ni_id m \<noteq> ni_id n)"
  by (auto simp: insertNode_def)

lemma insertNode_ids: "ni_id ` set (m_nodes (snd (insertNode r n))) = insert (ni_id n) (ni_id ` set (m_nodes r))"
  by (auto simp: insertNode_def rev_image_eqI)

lemma insertNode_distinct:
  "distinct (map ni_id (m_nodes r)) \<Longrightarrow> distinct (map ni_id (m_nodes (snd (insertNode r n))))"
  by (auto simp: insertNode_def)

definition probe_passes :: "Config \<Rightarrow> string \<Rightarrow> (nat \<Rightarrow> health_os) \<Rightarrow> nat \<Rightarrow> bool" where
  "probe_passes cfg self_id probe i \<longleftrightarrow>
     ni_id (config_node cfg i) = self_id \<or> fst (checkNodeHealth (probe i) (config_node cfg i)) = Some True"

lemma load_nodes_ids:
  "load_nodes cfg self_id probe is r = Some r' \<Longrightarrow>
   ni_id ` set (m_nodes r') = ni_id ` set (m_nodes r)
     \<union> (\<lambda>i. ni_id (config_node cfg i)) ` {i \<in> set is. probe_passes cfg self_id probe i}"
proof (induction "is" arbitrary: r)
  case (Cons i "is")
  then show ?case
    by (auto simp: Let_def probe_passes_def insertNode_ids split: option.splits if_splits)
qed simp

lemma load_nodes_inv:
  "load_nodes cfg self_id probe is r = Some r' \<Longrightarrow>
   distinct (map ni_id (m_nodes r)) \<and> (\<forall>n \<in> set (m_nodes r). ni_healthy n) \<Longrightarrow>
   distinct (map ni_id (m_nodes r')) \<and> (\<forall>n \<in> set (m_nodes r'). ni_healthy n)"
proof (induction "is" arbitrary: r)
  case (Cons i "is")
  let ?n = "(config_node cfg i)\<lparr>ni_healthy := True\<rparr>"
  have "distinct (map ni_id (m_nodes (snd (insertNode r ?n))))
      \<and> (\<forall>n \<in> set (m_nodes (snd (insertNode r ?n))). ni_healthy n)"
    using Cons.prems(2) insertNode_distinct [of r ?n] by (auto simp: insertNode_mem)
  with Cons show ?case by (auto simp: Let_def split: option.splits if_splits)
qed simp

lemma load_nodes_defined:
  "(\<And>i. i \<in> set is \<Longrightarrow> fst (checkNodeHealth (probe i) (config_node cfg i)) \<noteq> None) \<Longrightarrow>
   \<exists>r'. load_nodes cfg self_id probe is r = Some r'"
proof (induction "is" arbitrary: r)
  case (Cons i "is")
  then obtain h where "fst (checkNodeHealth (probe i) (config_node cfg i)) = Some h" by fastforce
  with Cons show ?case by (auto simp: Let_def)
qed simp

text \<open>The fields of a constructed server.\<close>

definition config_count :: "Config \<Rightarrow> nat" where
  "config_count cfg = unat (of_int (getInt ''nodes.count'' 0 cfg) :: u64)"

lemma Server_init_router:
  assumes "Server_init hw cfg probe = Some s"
  shows "load_nodes cfg (ni_id (srv_self s)) probe [0..<config_count cfg] (ShardRouter_init []) = Some (srv_router s)"
    and "ni_id (srv_self s) = getString ''server.id'' [] cfg"
  using assms by (auto simp: Server_init_def config_count_def Let_def)

lemma Server_init_ids:
  assumes "Server_init hw cfg probe = Some s"
  shows "ni_id ` set (m_nodes (srv_router s))
    = (\<lambda>i. ni_id (config_node cfg i)) ` {i. i < config_count cfg \<and> probe_passes cfg (ni_id (srv_self s)) probe i}"
  using load_nodes_ids [OF Server_init_router(1) [OF assms]] by (simp add: ShardRouter_init_def)

lemma Server_init_inv:
  assumes "Server_init hw cfg probe = Some s"
  shows "distinct (map ni_id (m_nodes (srv_router s))) \<and> (\<forall>n \<in> set (m_nodes (srv_router s)). ni_healthy n)"
  using load_nodes_inv [OF Server_init_router(1) [OF assms]] by (simp add: ShardRouter_init_def)

text \<open>The peers and addresses of the Raft node the server starts.\<close>

lemma set_addresses_fields:
  "m_peers (set_addresses i ns raft) = m_peers raft \<and> m_nodeId (set_addresses i ns raft) = m_nodeId raft"
  by (induction ns arbitrary: raft) (auto simp: setPeerAddress_def)

lemma set_addresses_logs: "m_logs (set_addresses i ns raft) = m_logs raft"
  by (induction ns arbitrary: raft) (auto simp: setPeerAddress_def)

lemma set_addresses_map:
  "distinct (map ni_id ns) \<Longrightarrow>
   map_of (m_peerAddresses (set_addresses i ns raft)) k =
     (case find (\<lambda>n. ni_id n = k \<and> k \<noteq> i) ns of
        Some n \<Rightarrow> Some (ni_host n, ni_port n) | None \<Rightarrow> map_of (m_peerAddresses raft) k)"
proof (induction ns arbitrary: raft)
  case (Cons n ns)
  have "ni_id n \<notin> ni_id ` set ns" using Cons.prems by simp
  then have "find (\<lambda>m. ni_id m = ni_id n \<and> ni_id n \<noteq> i) ns = None"
    unfolding find_None_iff by (metis imageI)
  with Cons show ?case by (auto simp: setPeerAddress_def split: option.splits)
qed simp

lemma make_raft_fields:
  "m_peers (make_raft t s) = peer_ids (ni_id (srv_self s)) (m_nodes (srv_router s))"
  "m_nodeId (make_raft t s) = ni_id (srv_self s)"
  by (simp_all add: make_raft_def set_addresses_fields getAllNodes_def Let_def RaftNode_init_def
      resetElectionTimer_def)

lemma peer_ids_distinct:
  "distinct (map ni_id ns) \<Longrightarrow> distinct (peer_ids i ns) \<and> i \<notin> set (peer_ids i ns)"
  by (auto simp: peer_ids_def distinct_map_filter)

text \<open>Descriptors of the listening socket.\<close>

lemma setupSocket_fds:
  assumes "setupSocket ls s os = (ok, s', os')"
  shows "ok \<Longrightarrow> 3 \<le> srv_listen_fd s' \<and> 3 \<le> srv_epoll_fd s' \<and> srv_listen_fd s' \<noteq> srv_epoll_fd s'
      \<and> srv_listen_fd s' \<notin> open_fds os \<and> srv_epoll_fd s' \<notin> open_fds os
      \<and> open_fds os' = open_fds os \<union> {srv_listen_fd s', srv_epoll_fd s'}"
    and "\<not> ok \<Longrightarrow> open_fds os' = open_fds os \<or> open_fds os' = insert (srv_listen_fd s') (open_fds os)"
    and "os_ebadf os' = os_ebadf os" and "srv_running s' = srv_running s"
    and "srv_self s' = srv_self s" and "srv_router s' = srv_router s"
proof -
  obtain fd os1 where s: "sys_socket os = (fd, os1)" by fastforce
  obtain ep os2 where e: "sys_epoll_create ls os1 = (ep, os2)" by fastforce
  note fd = sys_socket_cases [OF s]
  have ep: "ep = -1 \<and> os2 = os1 \<or> sys_socket os1 = (ep, os2)"
    using e by (auto simp: sys_epoll_create_def split: if_splits)
  then have ep': "ep = -1 \<and> os2 = os1 \<or> 3 \<le> ep \<and> ep \<notin> open_fds os1 \<and> open_fds os2 = insert ep (open_fds os1)
      \<and> os_ebadf os2 = os_ebadf os1"
    using sys_socket_cases [of os1 ep os2] by blast
  have close: "open_fds (sys_close ep os2) = open_fds os1 \<and> os_ebadf (sys_close ep os2) = os_ebadf os1" if "0 \<le> ep"
    using ep' that by (auto simp: pool_simps)
  consider (early) "ok = False" "s' = s\<lparr>srv_listen_fd := fd\<rparr>" "os' = os1"
    | (late) "ok = False" "s' = s\<lparr>srv_listen_fd := fd, srv_epoll_fd := ep\<rparr>" "0 \<le> fd" "ep < 0" "os' = os2"
    | (ctl) "ok = False" "s' = s\<lparr>srv_listen_fd := fd, srv_epoll_fd := ep\<rparr>" "0 \<le> fd" "0 \<le> ep" "os' = sys_close ep os2"
    | (all) "ok = True" "s' = s\<lparr>srv_listen_fd := fd, srv_epoll_fd := ep\<rparr>" "0 \<le> fd" "0 \<le> ep" "os' = os2"
    using assms s e unfolding setupSocket_def Let_def by (simp split: if_splits)
  note outcome = this
  show "ok \<Longrightarrow> 3 \<le> srv_listen_fd s' \<and> 3 \<le> srv_epoll_fd s' \<and> srv_listen_fd s' \<noteq> srv_epoll_fd s'
      \<and> srv_listen_fd s' \<notin> open_fds os \<and> srv_epoll_fd s' \<notin> open_fds os
      \<and> open_fds os' = open_fds os \<union> {srv_listen_fd s', srv_epoll_fd s'}"
    using fd ep' by (cases rule: outcome) auto
  show "\<not> ok \<Longrightarrow> open_fds os' = open_fds os \<or> open_fds os' = insert (srv_listen_fd s') (open_fds os)"
    using fd ep' close by (cases rule: outcome) auto
  show "os_ebadf os' = os_ebadf os" using fd ep' close by (cases rule: outcome) auto
  show "srv_running s' = srv_running s" "srv_self s' = srv_self s" "srv_router s' = srv_router s"
    by (cases rule: outcome; simp)+
qed

lemma accept_all_fresh:
  "accept_all waiting os = (fds, rest, os') \<Longrightarrow>
   distinct fds \<and> set fds \<inter> open_fds os = {} \<and> open_fds os' = open_fds os \<union> set fds
   \<and> os_ebadf os' = os_ebadf os \<and> (\<exists>n. length fds \<le> n \<and> rest = drop n waiting)"
proof (induction waiting os arbitrary: fds rest os' rule: accept_all.induct)
  case (2 ws os)
  then show ?case by (auto intro!: exI [of _ 1])
next
  case (3 c ws os)
  obtain fd os1 where s: "sys_socket os = (fd, os1)" by fastforce
  let ?os2 = "os1\<lparr>os_desc := AList.update fd \<lparr>d_addr = None, d_sock = c\<rparr> (os_desc os1)\<rparr>"
  obtain fds' rest' os3 where a: "accept_all ws ?os2 = (fds', rest', os3)" by (metis prod_cases3)
  show ?case
  proof (cases "fd < 0")
    case True
    with 3 s sys_socket_cases [OF s] show ?thesis by (auto intro!: exI [of _ 0])
  next
    case False
    with 3(2) s a have r: "fds = fd # fds'" "rest = rest'" "os' = os3" by auto
    from False sys_socket_cases [OF s] have fd: "fd \<notin> open_fds os" "open_fds ?os2 = insert fd (open_fds os)"
      "os_ebadf ?os2 = os_ebadf os" by auto
    from 3(1) [OF s [symmetric] refl False refl a] obtain n where ih: "distinct fds'" "set fds' \<inter> open_fds ?os2 = {}"
      "open_fds os3 = open_fds ?os2 \<union> set fds'" "os_ebadf os3 = os_ebadf ?os2" "length fds' \<le> n" "rest' = drop n ws"
      by blast
    then show ?thesis using fd r by (auto intro!: exI [of _ "Suc n"])
  qed
qed auto

text \<open>
  One turn of the accept loop gives every accepted connection a descriptor of its own that was
  not open before, in the order of their arrival, and opens nothing else.
\<close>

lemma acceptLoop_round_fresh:
  assumes "acceptLoop_round listen_fd evs waiting os = (fds, rest, os')"
  shows "distinct fds \<and> set fds \<inter> open_fds os = {} \<and> open_fds os' = open_fds os \<union> set fds
    \<and> os_ebadf os' = os_ebadf os \<and> (\<exists>n. length fds \<le> n \<and> rest = drop n waiting)"
  using assms
proof (induction listen_fd evs waiting os arbitrary: fds rest os' rule: acceptLoop_round.induct)
  case (1 listen_fd waiting os)
  then show ?case by (auto intro!: exI [of _ 0])
next
  case (2 listen_fd ev evs waiting os)
  show ?case
  proof (cases "ev = listen_fd")
    case True
    obtain fds1 w1 os1 where a: "accept_all waiting os = (fds1, w1, os1)" by (metis prod_cases3)
    obtain fds2 w2 os2 where l: "acceptLoop_round listen_fd evs w1 os1 = (fds2, w2, os2)" by (metis prod_cases3)
    from 2(3) True a l have r: "fds = fds1 @ fds2" "rest = w2" "os' = os2" by simp_all
    from accept_all_fresh [OF a] obtain n where n: "length fds1 \<le> n" "w1 = drop n waiting" by blast
    from 2(1) [OF True a [symmetric] refl refl l] obtain m where m: "length fds2 \<le> m" "w2 = drop m w1" by blast
    have "length fds \<le> n + m" "rest = drop (n + m) waiting" using n m r by (auto simp: add.commute)
    with accept_all_fresh [OF a] 2(1) [OF True a [symmetric] refl refl l] r show ?thesis by auto
  next
    case False
    with 2(2) [OF False] 2(3) show ?thesis by simp
  qed
qed

lemma accept_all_nonneg: "accept_all waiting os = (fds, rest, os') \<Longrightarrow> \<forall>fd \<in> set fds. 0 \<le> fd"
proof (induction waiting os arbitrary: fds rest os' rule: accept_all.induct)
  case (3 c ws os)
  then show ?case by (auto simp: Let_def split: prod.splits if_splits)
qed auto

lemma acceptLoop_round_nonneg:
  "acceptLoop_round l evs waiting os = (fds, rest, os') \<Longrightarrow> \<forall>fd \<in> set fds. 0 \<le> fd"
proof (induction l evs waiting os arbitrary: fds rest os' rule: acceptLoop_round.induct)
  case (2 l ev evs waiting os)
  obtain fds1 w1 os1 where a: "accept_all waiting os = (fds1, w1, os1)" by (metis prod_cases3)
  obtain fds2 w2 os2 where r: "acceptLoop_round l evs w1 os1 = (fds2, w2, os2)" by (metis prod_cases3)
  from 2 a r accept_all_nonneg [OF a] show ?case by (cases "ev = l") auto
qed simp

section \<open>Properties\<close>

text \<open>
  C33. The Raft node a server starts is well-formed: whatever the configuration and the probes, its
  peers are distinct and do not include the server itself, it carries the server's id, and every
  peer has the address of its entry in the routing table, so that no message is dropped for want of
  an address.
\<close>

theorem started_raft_node:
  assumes "Server_init hw cfg probe = Some s0"
    and "server_start ls db t s0 os st = Inr (True, s, os', st')"
  shows "\<exists>raft. srv_raft s = Some raft \<and> m_nodeId raft = ni_id (srv_self s0)
    \<and> distinct (m_nodeId raft # m_peers raft)
    \<and> (\<forall>p \<in> set (m_peers raft). \<exists>n \<in> set (m_nodes (srv_router s0)).
          ni_id n = p \<and> ni_healthy n \<and> map_of (m_peerAddresses raft) p = Some (ni_host n, ni_port n))"
proof -
  obtain ok s1 os1 where su: "setupSocket ls s0 os = (ok, s1, os1)" by (metis prod_cases3)
  note f = setupSocket_fds(5,6) [OF su]
  from assms(2) su have s: "srv_raft s = Some (make_raft t s1)"
    by (auto simp: server_start_def split: sum.splits prod.splits if_splits)
  let ?ns = "m_nodes (srv_router s0)" and ?i = "ni_id (srv_self s0)"
  note inv = Server_init_inv [OF assms(1)]
  have peers: "m_peers (make_raft t s1) = peer_ids ?i ?ns" and id: "m_nodeId (make_raft t s1) = ?i"
    using f by (simp_all add: make_raft_fields)
  have "\<exists>n \<in> set ?ns. ni_id n = p \<and> ni_healthy n \<and> map_of (m_peerAddresses (make_raft t s1)) p = Some (ni_host n, ni_port n)"
    if "p \<in> set (peer_ids ?i ?ns)" for p
  proof -
    from that have "find (\<lambda>n. ni_id n = p \<and> p \<noteq> ?i) ?ns \<noteq> None" by (auto simp: peer_ids_def find_None_iff)
    then obtain n where n: "find (\<lambda>n. ni_id n = p \<and> p \<noteq> ?i) ?ns = Some n" by blast
    then have "n \<in> set ?ns" "ni_id n = p" by (auto simp: find_Some_iff in_set_conv_nth)
    with n inv show ?thesis
      using f by (auto simp: make_raft_def getAllNodes_def set_addresses_map Let_def)
  qed
  with s peers id inv peer_ids_distinct [of ?ns ?i] show ?thesis by auto
qed

text \<open>
  C34. Starting and stopping: after a successful \<open>start\<close> and any activity of the Raft connections whose
  loans are given back, \<open>stop\<close> leaves the descriptors as they were before the start, with every
  connection of the Raft node and the two listening descriptors closed once, and a second \<open>stop\<close> does
  nothing. When the start fails, at most the listening socket stays open.
\<close>

theorem server_start_stop:
  assumes "server_start ls db t s os st = Inr (ok, s1, os1, st1)" and "\<not> srv_running s"
    and "pool_reach os1 (p, os2) []" and "cp_running p"
  shows "(ok \<longrightarrow> (let (s3, os3) = server_stop (s1\<lparr>srv_raft_pool := p\<rparr>) os2 in
          open_fds os3 = open_fds os \<and> os_ebadf os3 = os_ebadf os \<and> \<not> srv_running s3 \<and> server_stop s3 os3 = (s3, os3)))
    \<and> (\<not> ok \<longrightarrow> open_fds os1 \<subseteq> insert (srv_listen_fd s1) (open_fds os) \<and> server_stop s1 os1 = (s1, os1))"
proof -
  obtain ok' s' os' where su: "setupSocket ls s os = (ok', s', os')" by (metis prod_cases3)
  note f = setupSocket_fds [OF su]
  show ?thesis
  proof (cases ok)
    case True
    with assms(1) su have r: "ok'" "os1 = os'" "srv_running s1" "srv_listen_fd s1 = srv_listen_fd s'"
      "srv_epoll_fd s1 = srv_epoll_fd s'" "srv_raft s1 \<noteq> None" "rn_running (srv_raft_threads s1)"
      by (auto simp: server_start_def raft_start_def raft_threads_init_def split: sum.splits prod.splits if_splits)
    obtain th p' os3 where rs: "raft_stop (srv_raft_threads s1, p, os2) = (th, p', os3)" by (metis prod_cases3)
    note pool = raft_stop_balanced [OF r(7) assms(3,4) rs]
    have stop: "server_stop (s1\<lparr>srv_raft_pool := p\<rparr>) os2 =
        (s1\<lparr>srv_raft_pool := p', srv_raft_threads := th, srv_running := False, srv_epoll_fd := -1, srv_listen_fd := -1\<rparr>,
         sys_close (srv_listen_fd s1) (sys_close (srv_epoll_fd s1) os3))"
      using f(1) r rs by (auto simp: server_stop_def stop_raft_def)
    have "open_fds (sys_close (srv_listen_fd s1) (sys_close (srv_epoll_fd s1) os3)) = open_fds os
      \<and> os_ebadf (sys_close (srv_listen_fd s1) (sys_close (srv_epoll_fd s1) os3)) = os_ebadf os"
      using f(1,3) r pool by (auto simp: pool_simps)
    with True stop show ?thesis by (simp add: server_stop_def)
  next
    case False
    with assms(1) su have r: "\<not> ok'" "os1 = os'" "s1 = s'"
      by (auto simp: server_start_def storage_open_def split: sum.splits prod.splits if_splits)
    with f(2,4) False assms(2) show ?thesis by (auto simp: server_stop_def)
  qed
qed

section \<open>Instances\<close>

text \<open>The configuration shipped as \<open>config/server.conf\<close>, and probes that reach nobody.\<close>

definition shipped_config :: Config where
  "shipped_config = \<lparr>cfg_data = [(''server.port'', ''8080''), (''server.id'', ''node1''), (''server.host'', ''127.0.0.1''),
     (''nodes.count'', ''2''), (''node1.id'', ''node1''), (''node1.host'', ''127.0.0.1''), (''node1.port'', ''8080''),
     (''node2.id'', ''node2''), (''node2.host'', ''127.0.0.1''), (''node2.port'', ''8081'')]\<rparr>"

definition nobody :: "nat \<Rightarrow> health_os" where
  "nobody i = \<lparr>hs_socket = 3, hs_pton = (\<lambda>_. True), hs_connect = (\<lambda>_ _. False), hs_conn = mk_socket [] []\<rparr>"

definition pong :: "nat \<Rightarrow> health_os" where
  "pong i = \<lparr>hs_socket = 3, hs_pton = (\<lambda>_. True), hs_connect = (\<lambda>_ _. True), hs_conn = mk_socket ''PONG'' []\<rparr>"

definition all_listen :: listen_os where
  "all_listen = \<lparr>ls_bind = True, ls_listen = True, ls_epoll = True, ls_ctl = True\<rparr>"

lemmas config_eval = getString_def getInt_def stoi_def is_space_def is_digit_def digits_val_def digit_val_def
  int_range_def node_prefix_def show_nat.simps char_of_def bit_0 shipped_config_def

lemma shipped_nodes:
  "config_node shipped_config 0 = \<lparr>ni_id = ''node1'', ni_host = ''127.0.0.1'', ni_port = 8080, ni_healthy = False\<rparr>"
  "config_node shipped_config 1 = \<lparr>ni_id = ''node2'', ni_host = ''127.0.0.1'', ni_port = 8081, ni_healthy = False\<rparr>"
  "config_count shipped_config = 2" "getString ''server.id'' [] shipped_config = ''node1''"
  by (simp_all add: config_node_def config_count_def config_eval)

definition idle_os :: net_os where
  "idle_os = \<lparr>os_desc = [], os_limit = 8, os_pton = (\<lambda>_. True), os_dial = [], os_ebadf = 0, os_gone = []\<rparr>"

definition shipped_server :: Server where
  "shipped_server = \<lparr>srv_running = False, srv_listen_fd = -1, srv_epoll_fd = -1, srv_port = 8080,
     srv_self = \<lparr>ni_id = ''node1'', ni_host = ''127.0.0.1'', ni_port = 8080, ni_healthy = True\<rparr>,
     srv_router = \<lparr>m_nodes = [\<lparr>ni_id = ''node1'', ni_host = ''127.0.0.1'', ni_port = 8080, ni_healthy = True\<rparr>,
        \<lparr>ni_id = ''node2'', ni_host = ''127.0.0.1'', ni_port = 8081, ni_healthy = True\<rparr>]\<rparr>,
     srv_threads = 4, srv_raft = None, srv_raft_threads = raft_threads_init, srv_raft_pool = RaftConnectionPool_init\<rparr>"

lemma pong_passes: "fst (checkNodeHealth (pong i) n) = Some True"
  by (simp add: checkNodeHealth_def pong_def mk_socket_def send_sys_def recv_sys_def c_str_def char_of_def Let_def)

lemma shipped_server_init: "Server_init 4 shipped_config pong = Some shipped_server"
proof -
  have upt: "[0..<2] = [0, 1 :: nat]" by (simp add: upt_rec)
  have fields: "getString ''server.id'' [] shipped_config = ''node1''" "getString ''server.host'' [] shipped_config = ''127.0.0.1''"
    "getInt ''server.port'' 9000 shipped_config = 8080"
    by (simp_all add: config_eval)
  have "load_nodes shipped_config ''node1'' pong [0..<config_count shipped_config] (ShardRouter_init []) = Some (srv_router shipped_server)"
    by (simp add: upt shipped_nodes pong_passes insertNode_def ShardRouter_init_def shipped_server_def flip: One_nat_def)
  then show ?thesis
    by (simp add: Server_init_def fields config_count_def shipped_server_def pool_size_def ThreadPool_init_def)
qed

lemma shipped_server_start:
  "\<exists>s os st. server_start all_listen memory_db tick shipped_server idle_os RocksDBStorage_init = Inr (True, s, os, st)"
  by (simp add: server_start_def setupSocket_def sys_epoll_create_def sys_socket_def lowest_free_def idle_os_def
      all_listen_def storage_open_def memory_db_def raft_start_def raft_threads_init_def)

theorem started_raft_node_witness:
  "\<exists>raft s os st. server_start all_listen memory_db tick shipped_server idle_os RocksDBStorage_init = Inr (True, s, os, st)
     \<and> srv_raft s = Some raft \<and> m_nodeId raft = ''node1'' \<and> distinct (m_nodeId raft # m_peers raft)"
proof -
  obtain s os st where start: "server_start all_listen memory_db tick shipped_server idle_os RocksDBStorage_init = Inr (True, s, os, st)"
    using shipped_server_start by blast
  from started_raft_node [OF shipped_server_init this] start show ?thesis
    by (fastforce simp: shipped_server_def)
qed

theorem server_start_stop_witness:
  "\<exists>s os st. server_start all_listen memory_db tick shipped_server idle_os RocksDBStorage_init = Inr (True, s, os, st)
     \<and> open_fds (snd (server_stop (s\<lparr>srv_raft_pool := pool_start RaftConnectionPool_init\<rparr>) os)) = {}"
proof -
  obtain s os st where start: "server_start all_listen memory_db tick shipped_server idle_os RocksDBStorage_init = Inr (True, s, os, st)"
    using shipped_server_start by blast
  have reach: "pool_reach os (pool_start RaftConnectionPool_init, os) []" by (rule pool_reach.start [OF pool_reach.init])
  have run: "cp_running (pool_start RaftConnectionPool_init)" by (simp add: pool_start_def)
  have "\<not> srv_running shipped_server" by (simp add: shipped_server_def)
  from server_start_stop [OF start this reach run] start show ?thesis
    by (auto simp: idle_os_def open_fds_def split: prod.splits)
qed


end
