(* ===== verification/Program.thy ===== *)
theory Program
  imports Server
begin

text \<open>
  \<open>main.cpp\<close>: the program from the command line to its exit code, and the signal handler.
\<close>

section \<open>Signals\<close>

text \<open>\<open>g_server\<close> is the server, once \<open>main\<close> has made it.\<close>

definition handleSignal :: "Server option \<Rightarrow> net_os \<Rightarrow> Server option \<times> net_os" where
  "handleSignal g_server os =
     (case g_server of None \<Rightarrow> (None, os) | Some s \<Rightarrow> (let (s', os') = server_stop s os in (Some s', os')))"

section \<open>The main function\<close>

text \<open>
  What the program meets: the files, the results of the health probes, the listening socket, the
  database, the clock, the results of \<open>epoll_wait\<close> with the connections that wait, and the seconds in
  which signals arrive while \<open>main\<close> waits.
\<close>

record 'd environment =
  e_argv :: "string list"
  e_files :: "string \<Rightarrow> string option"
  e_hw :: nat
  e_probe :: "nat \<Rightarrow> health_os"
  e_listen :: listen_os
  e_db :: "'d rocksdb"
  e_timer :: timer
  e_epoll :: "epoll_result list"
  e_waiting :: "socket option list"
  e_signals :: "bool list"

text \<open>
  The exit code with the descriptors that \<open>accept\<close> returned and the state after the server's
  destructor. \<open>None\<close>: the program is still waiting when the scripts end. \<open>Throws\<close>: the exception of
  \<open>RocksDBStorage::open\<close>, which ends the program.
\<close>

definition main_program :: "'d environment \<Rightarrow> net_os \<Rightarrow> (int \<times> int list \<times> net_os) outcome option" where
  "main_program e os =
     (let (loaded, cfg) = loadFromFile (e_files e) (parseConfigPath (e_argv e)) Config_empty in
      if \<not> loaded then Some (Ret (1, [], os))
      else
        (case Server_init (e_hw e) cfg (e_probe e) of
           None \<Rightarrow> Some Undef
         | Some s \<Rightarrow>
             (case server_start (e_listen e) (e_db e) (e_timer e) s os RocksDBStorage_init of
                Inl ex \<Rightarrow> Some Throws
              | Inr (started, s1, os1, st) \<Rightarrow>
                  if \<not> started then Some (Ret (-1, [], snd (Server_destroy s1 os1)))
                  else
                    (case acceptLoop (e_epoll e) (e_waiting e) s1 os1 of
                       None \<Rightarrow> None
                     | Some (fds, s2, os2) \<Rightarrow>
                         (case server_wait (e_signals e) s2 os2 of
                            None \<Rightarrow> None
                          | Some (s3, os3) \<Rightarrow> Some (Ret (0, fds, snd (Server_destroy s3 os3))))))))"

section \<open>Lemmas\<close>

text \<open>
  The books of a server: \<open>B\<close> was open before, \<open>fds\<close> are the accepted connections; while the server
  runs, the two listening descriptors are open too, and its Raft pool is idle.
\<close>

definition server_books :: "int set \<Rightarrow> nat \<Rightarrow> int set \<Rightarrow> Server \<Rightarrow> net_os \<Rightarrow> bool" where
  "server_books B e fds s os \<longleftrightarrow> os_ebadf os = e \<and>
     (if srv_running s then
        0 \<le> srv_listen_fd s \<and> 0 \<le> srv_epoll_fd s \<and> srv_listen_fd s \<noteq> srv_epoll_fd s
        \<and> srv_listen_fd s \<notin> B \<union> fds \<and> srv_epoll_fd s \<notin> B \<union> fds
        \<and> open_fds os = B \<union> fds \<union> {srv_listen_fd s, srv_epoll_fd s}
        \<and> m_connectionPools (srv_raft_pool s) = []
      else open_fds os = B \<union> fds)"

lemma stop_raft_idle:
  "m_connectionPools (srv_raft_pool s) = [] \<Longrightarrow>
   \<exists>s'. stop_raft s os = (s', os) \<and> srv_running s' = srv_running s \<and> srv_epoll_fd s' = srv_epoll_fd s
     \<and> srv_listen_fd s' = srv_listen_fd s"
  by (auto simp: stop_raft_def raft_stop_def pool_stop_def split: option.splits)

lemma server_stop_books:
  assumes "server_books B e fds s os" and "server_stop s os = (s', os')"
  shows "server_books B e fds s' os' \<and> \<not> srv_running s'"
proof (cases "srv_running s")
  case True
  with assms(1) obtain s1 where r: "stop_raft (s\<lparr>srv_running := False\<rparr>) os = (s1, os)" "\<not> srv_running s1"
    "srv_epoll_fd s1 = srv_epoll_fd s" "srv_listen_fd s1 = srv_listen_fd s"
    using stop_raft_idle [of "s\<lparr>srv_running := False\<rparr>" os] by (auto simp: server_books_def)
  from True assms r have "s' = s1\<lparr>srv_epoll_fd := -1, srv_listen_fd := -1\<rparr>"
    "os' = sys_close (srv_listen_fd s) (sys_close (srv_epoll_fd s) os)"
    by (auto simp: server_stop_def server_books_def)
  moreover have "open_fds (sys_close (srv_listen_fd s) (sys_close (srv_epoll_fd s) os)) = B \<union> fds
      \<and> os_ebadf (sys_close (srv_listen_fd s) (sys_close (srv_epoll_fd s) os)) = e"
    using True assms(1) by (auto simp: server_books_def pool_simps)
  ultimately show ?thesis using r(2) by (simp add: server_books_def)
qed (use assms in \<open>auto simp: server_stop_def\<close>)

lemma acceptLoop_books:
  "acceptLoop evs waiting s os = Some (fds, s', os') \<Longrightarrow> server_books B e F s os \<Longrightarrow>
   server_books B e (F \<union> set fds) s' os' \<and> (\<not> srv_running s' \<longrightarrow> \<not> srv_running s \<or> EpSignal \<in> set evs)"
proof (induction evs waiting s os arbitrary: fds F rule: acceptLoop.induct)
  case (2 ev evs waiting s os)
  show ?case
  proof (cases "srv_running s")
    case True
    show ?thesis
    proof (cases ev)
      case EpSignal
      obtain s1 os1 where st: "server_stop s os = (s1, os1)" by fastforce
      with 2 True EpSignal server_stop_books [OF 2(6) st] show ?thesis by auto
    next
      case (EpEvents ready)
      obtain fds1 w1 os1 where r: "acceptLoop_round (srv_listen_fd s) ready waiting os = (fds1, w1, os1)" by (metis prod_cases3)
      with 2(5) True EpEvents obtain fds2 where l: "acceptLoop evs w1 s os1 = Some (fds2, s', os')" "fds = fds1 @ fds2"
        by (auto split: option.splits)
      from acceptLoop_round_fresh [OF r] 2(6) True have "server_books B e (F \<union> set fds1) s os1"
        by (auto simp: server_books_def)
      from 2(4) [OF _ EpEvents refl r [symmetric] refl l(1) this] True l(2) show ?thesis by (auto simp: Un_assoc)
    qed (use 2 True in auto)
  qed (use 2(5,6) in auto)
qed (auto split: if_splits)

lemma server_wait_books:
  "server_wait sigs s os = Some (s', os') \<Longrightarrow> server_books B e F s os \<Longrightarrow>
   server_books B e F s' os' \<and> \<not> srv_running s' \<and> (srv_running s \<longrightarrow> True \<in> set sigs)"
proof (induction sigs s os rule: server_wait.induct)
  case (2 sig sigs s os)
  obtain s1 os1 where st: "server_stop s os = (s1, os1)" by fastforce
  show ?case
    using 2 st server_stop_books [OF 2(3) st] by (cases "srv_running s"; cases sig) auto
qed (auto split: if_splits)

lemma server_start_books:
  assumes "server_start ls db t s os st = Inr (True, s1, os1, st1)"
  shows "server_books (open_fds os) (os_ebadf os) {} s1 os1 \<and> srv_running s1"
proof -
  obtain ok' s' os' where su: "setupSocket ls s os = (ok', s', os')" by (metis prod_cases3)
  from assms su have "ok'" "os1 = os'" "srv_running s1" "srv_listen_fd s1 = srv_listen_fd s'"
    "srv_epoll_fd s1 = srv_epoll_fd s'" "m_connectionPools (srv_raft_pool s1) = []"
    by (auto simp: server_start_def raft_start_def raft_threads_init_def pool_start_def RaftConnectionPool_init_def
        split: sum.splits prod.splits if_splits)
  with setupSocket_fds(1,3) [OF su] show ?thesis by (auto simp: server_books_def)
qed

section \<open>Properties\<close>

text \<open>
  C35. Exit codes: the program returns 1 exactly when the configuration file cannot be read, and it
  returns 0 only after a signal has stopped the server; then the listening descriptors are closed,
  nothing is closed twice, and of what it opened only the accepted connections are still open, each
  of which is closed by its own task.
\<close>

theorem main_exit_codes:
  assumes "main_program e os = Some (Ret (code, fds, os'))"
  shows "code \<in> {0, 1, -1} \<and> (code = 1 \<longleftrightarrow> e_files e (parseConfigPath (e_argv e)) = None)
    \<and> (code = 0 \<longrightarrow> (EpSignal \<in> set (e_epoll e) \<or> True \<in> set (e_signals e))
        \<and> open_fds os' = open_fds os \<union> set fds \<and> os_ebadf os' = os_ebadf os)"
proof -
  obtain loaded cfg where l: "loadFromFile (e_files e) (parseConfigPath (e_argv e)) Config_empty = (loaded, cfg)" by fastforce
  then have readable: "loaded \<longleftrightarrow> e_files e (parseConfigPath (e_argv e)) \<noteq> None"
    by (auto simp: loadFromFile_def split: option.splits)
  show ?thesis
  proof (cases loaded)
    case True
    with assms l obtain s where i: "Server_init (e_hw e) cfg (e_probe e) = Some s"
      by (auto simp: main_program_def split: option.splits)
    with assms l True obtain started s1 os1 st
      where st: "server_start (e_listen e) (e_db e) (e_timer e) s os RocksDBStorage_init = Inr (started, s1, os1, st)"
      by (auto simp: main_program_def split: sum.splits)
    show ?thesis
    proof (cases started)
      case on: True
      with assms l True i st obtain s2 os2 s3 os3
        where a: "acceptLoop (e_epoll e) (e_waiting e) s1 os1 = Some (fds, s2, os2)"
          and w: "server_wait (e_signals e) s2 os2 = Some (s3, os3)"
          and r: "code = 0" "os' = snd (Server_destroy s3 os3)"
        by (auto simp: main_program_def split: option.splits)
      note b1 = server_start_books [OF st [unfolded eqTrueI [OF on]]]
      note b2 = acceptLoop_books [OF a conjunct1 [OF b1]]
      note b3 = server_wait_books [OF w conjunct1 [OF b2]]
      from b3 r(2) have "open_fds os' = open_fds os \<union> set fds \<and> os_ebadf os' = os_ebadf os"
        by (simp add: Server_destroy_def server_books_def)
      with b1 b2 b3 r(1) readable True show ?thesis by auto
    qed (use assms l True i st readable in \<open>auto simp: main_program_def\<close>)
  qed (use assms l readable in \<open>auto simp: main_program_def\<close>)
qed

text \<open>A server with an empty configuration file: nobody else is listed, every system call succeeds.\<close>

definition quiet :: "epoll_result list \<Rightarrow> (string, string) umap environment" where
  "quiet evs = \<lparr>e_argv = [''yolo''], e_files = (\<lambda>path. Some []), e_hw = 4, e_probe = nobody, e_listen = all_listen,
     e_db = memory_db, e_timer = tick, e_epoll = evs, e_waiting = [], e_signals = []\<rparr>"

lemma quiet_load: "loadFromFile (e_files (quiet evs)) path Config_empty = (True, Config_empty)"
  by (simp add: quiet_def loadFromFile_def load_loop.simps getline_def)

lemma quiet_start:
  "\<exists>s s1 os1 st. Server_init (e_hw (quiet evs)) Config_empty (e_probe (quiet evs)) = Some s
     \<and> server_start (e_listen (quiet evs)) (e_db (quiet evs)) (e_timer (quiet evs)) s idle_os RocksDBStorage_init = Inr (True, s1, os1, st)"
  by (simp add: quiet_def Server_init_def getInt_def getString_def Config_empty_def
      server_start_def setupSocket_def sys_epoll_create_def sys_socket_def lowest_free_def idle_os_def
      all_listen_def storage_open_def memory_db_def raft_start_def raft_threads_init_def)

theorem main_exit_codes_witness:
  "\<exists>fds os'. main_program (quiet [EpTimeout, EpSignal]) idle_os = Some (Ret (0, fds, os')) \<and> open_fds os' = set fds"
proof -
  obtain s s1 os1 st where s: "Server_init (e_hw (quiet [EpTimeout, EpSignal])) Config_empty (e_probe (quiet [EpTimeout, EpSignal])) = Some s"
    "server_start (e_listen (quiet [EpTimeout, EpSignal])) (e_db (quiet [EpTimeout, EpSignal])) (e_timer (quiet [EpTimeout, EpSignal]))
       s idle_os RocksDBStorage_init = Inr (True, s1, os1, st)"
    using quiet_start by blast
  obtain s2 os2 where stop: "server_stop s1 os1 = (s2, os2)" by fastforce
  with server_start_books [OF s(2)] server_stop_books have "srv_running s1" "\<not> srv_running s2" by blast+
  then have "acceptLoop (e_epoll (quiet [EpTimeout, EpSignal])) [] s1 os1 = Some ([], s2, os2)"
    by (simp add: quiet_def stop)
  with \<open>\<not> srv_running s2\<close> quiet_load s
  have run: "main_program (quiet [EpTimeout, EpSignal]) idle_os = Some (Ret (0, [], os2))"
    by (simp add: main_program_def quiet_def Server_destroy_def)
  from main_exit_codes [OF run] run show ?thesis by (simp add: idle_os_def open_fds_def)
qed

text \<open>
  An error of \<open>epoll_wait\<close> leaves a server that is deaf: the accept loop ends, no connection is
  accepted any more, but the flag \<open>m_running\<close> stays set and the program goes on waiting, for as long
  as no signal arrives.
\<close>

theorem epoll_failure_leaves_server_deaf:
  assumes "loadFromFile (e_files e) (parseConfigPath (e_argv e)) Config_empty = (True, cfg)"
    and "Server_init (e_hw e) cfg (e_probe e) = Some s"
    and "server_start (e_listen e) (e_db e) (e_timer e) s os RocksDBStorage_init = Inr (True, s1, os1, st)"
  shows "acceptLoop (EpFailed # evs) waiting s1 os1 = Some ([], s1, os1) \<and> isRunning s1
    \<and> main_program (e\<lparr>e_epoll := EpFailed # evs, e_signals := replicate seconds False\<rparr>) os = None"
proof -
  have run: "srv_running s1" using server_start_books [OF assms(3)] by blast
  then have "server_wait (replicate n False) s1 os1 = None" for n by (induction n) simp_all
  with run assms show ?thesis by (simp add: main_program_def isRunning_def)
qed


theorem epoll_failure_leaves_server_deaf_witness:
  "main_program ((quiet [])\<lparr>e_epoll := [EpFailed], e_signals := replicate 3600 False\<rparr>) idle_os = None"
proof -
  obtain s s1 os1 st where s: "Server_init (e_hw (quiet [])) Config_empty (e_probe (quiet [])) = Some s"
    "server_start (e_listen (quiet [])) (e_db (quiet [])) (e_timer (quiet [])) s idle_os RocksDBStorage_init = Inr (True, s1, os1, st)"
    using quiet_start by blast
  from epoll_failure_leaves_server_deaf [OF quiet_load s] show ?thesis by blast
qed


end
