(* ===== verification/Connection_Properties.thy ===== *)
theory Connection_Properties
  imports Connection
begin

text \<open>
  What a client sees of a connection: the loop serves every message once and in order until nothing is
  there to read, the descriptor is released, a stored frame is read back, the two Raft messages reach
  the node and come back unchanged, and which messages can change a server.
\<close>

section \<open>Lemmas\<close>

lemma with_value_simps [simp]:
  "with_value (Ret x) f w = f x w" "with_value Throws f w = (Throws, w)" "with_value Undef f w = (Undef, w)"
  by (simp_all add: with_value_def)

lemma try_catch_reply [simp]:
  "f w = reply_to c s w' \<Longrightarrow> try_catch f h w = reply_to c s w'"
  "f w = (Throws, w') \<Longrightarrow> try_catch f h w = h w'"
  "f w = (Undef, w') \<Longrightarrow> try_catch f h w = (Undef, w')"
  by (simp_all add: try_catch_def reply_to_def)

text \<open>The command of a message that starts with a command's name and a blank.\<close>

lemma command_of_word:
  assumes "list_all (\<lambda>x. \<not> is_space x) word" and "word \<noteq> []"
  shows "read_token (word @ CHR '' '' # s) = (word, CHR '' '' # s)"
  using read_token_exact [of "[]" word "CHR '' '' # s"] assms by (simp add: is_space_def)

lemma dispatch:
  "handle_message c (''STORE '' @ s) = handleStore c (''STORE '' @ s)"
  "handle_message c (''GET '' @ s) = handleGet c (''GET '' @ s)"
  "handle_message c (''RAFT_REQUEST_VOTE '' @ s) = handleRaftRequestVote c (''RAFT_REQUEST_VOTE '' @ s)"
  "handle_message c (''RAFT_APPEND_ENTRIES '' @ s) = handleRaftAppendEntries c (''RAFT_APPEND_ENTRIES '' @ s)"
  using command_of_word [of "''STORE''" s] command_of_word [of "''GET''" s]
    command_of_word [of "''RAFT_REQUEST_VOTE''" s] command_of_word [of "''RAFT_APPEND_ENTRIES''" s]
  by (simp_all add: handle_message_def getFirstToken_def parseCommand_def is_space_def)

lemma payloads:
  "payload_of (''STORE '' @ s) = Some s" "payload_of (''RAFT_REQUEST_VOTE '' @ s) = Some s"
  "payload_of (''RAFT_APPEND_ENTRIES '' @ s) = Some s"
  using payload_of_word [of "''STORE''" s] payload_of_word [of "''RAFT_REQUEST_VOTE''" s]
    payload_of_word [of "''RAFT_APPEND_ENTRIES''" s] by simp_all

text \<open>The key that GET reads.\<close>

definition is_word :: "string \<Rightarrow> bool" where
  "is_word s \<longleftrightarrow> s \<noteq> [] \<and> list_all (\<lambda>c. \<not> is_space c) s"

lemma get_of_word:
  assumes "is_word key"
  shows "handle_message c (''GET '' @ key) =
    with_value (opt_undef (pickNode (c_hash c) (c_router c) key)) (\<lambda>node.
      if ni_id node \<noteq> ni_id (c_self c)
      then forward_request c node (''GET '' @ key) ''ERROR failed to forward GET request''
      else get_local c key)"
proof -
  have "read_token (''GET '' @ key) = (''GET'', CHR '' '' # key)"
    using command_of_word [of "''GET''" key] by (simp add: is_space_def)
  moreover have "read_token (CHR '' '' # key) = (key, [])"
    using read_token_exact [of "'' ''" key "[]"] assms by (simp add: is_word_def is_space_def)
  moreover have "key \<noteq> []" using assms by (simp add: is_word_def)
  ultimately show ?thesis unfolding dispatch(2) handleGet_def by simp
qed

text \<open>A stored frame, and reading it back.\<close>

lemma store_of_own_key:
  assumes "decode (c_js c) payload = Ret frame" and "pickNode (c_hash c) (c_router c) (image_id frame) = Some node"
    and "ni_id node = ni_id (c_self c)" and "encode (c_js c) frame = Ret value"
    and "storage_put (c_db c) (image_id frame) value (w_store w) = Some (ok, st)"
  shows "handle_message c (''STORE '' @ payload) w = reply_to c ''STORE OK'' (w\<lparr>w_store := st\<rparr>)"
proof -
  have "store_try c msg payload w = reply_to c ''STORE OK'' (w\<lparr>w_store := st\<rparr>)" for msg
    using assms by (simp add: store_try_def store_local_def)
  then show ?thesis
    unfolding dispatch(1) handleStore_def payloads option.case by (rule try_catch_reply(1))
qed

lemma get_of_own_key:
  assumes "is_word key" and "pickNode (c_hash c) (c_router c) key = Some node" and "ni_id node = ni_id (c_self c)"
    and "storage_get (c_db c) key (w_store w) = Some opt"
  shows "handle_message c (''GET '' @ key) w =
    with_value (case opt of None \<Rightarrow> Ret (default_frame (c_garbage c)) | Some v \<Rightarrow> decode (c_js c) v) (\<lambda>frame.
    with_value (encode (c_js c) frame) (reply_to c)) w"
  unfolding get_of_word [OF assms(1)] using assms(2-4) by (simp add: get_local_def)

lemma reply_to_store [simp]: "w_store (snd (reply_to c s w)) = w_store w" "w_raft (snd (reply_to c s w)) = w_raft w"
  "fst (reply_to c s w) = Ret ()"
  by (simp_all add: reply_to_def)

text \<open>A Raft request as the other node writes it reaches the node with the same arguments.\<close>

lemma vote_request_served:
  assumes "json_lib_ok (c_js c)" and "message (c_js c) ''RAFT_REQUEST_VOTE'' (rv_json args) = Ret msg"
    and "w_raft w = Some raft" and "handleRequestVote (c_timer c) args raft = Some (r, raft')"
    and "message (c_js c) ''RAFT_REQUEST_VOTE_REPLY'' (rvr_json r) = Ret reply"
  shows "handle_message c msg w = reply_to c reply (w\<lparr>w_raft := Some raft'\<rparr>)"
proof -
  obtain s where s: "msg = ''RAFT_REQUEST_VOTE '' @ s" "obind (opt_throw (js_parse (c_js c) s)) (rv_of_json (c_js c)) = Ret args"
    using rv.received [OF assms(1,2)] by auto
  have "vote_try c s w = reply_to c reply (w\<lparr>w_raft := Some raft'\<rparr>)"
    using s(2) assms(3-5) by (simp add: vote_try_def)
  then show ?thesis
    unfolding s(1) dispatch handleRaftRequestVote_def payloads option.case by (rule try_catch_reply(1))
qed


text \<open>
  A server of one node in which a client holds descriptor 3: the instance for the concrete runs.
\<close>

definition node_b :: NodeInfo where
  "node_b = \<lparr>ni_id = ''b'', ni_host = ''10.0.0.2'', ni_port = 8081, ni_healthy = True\<rparr>"

definition client_conn :: "int json_lib \<Rightarrow> (int, (string, string) umap) Connection" where
  "client_conn js = \<lparr>c_fd = 3, c_router = \<lparr>m_nodes = [node_b]\<rparr>, c_self = node_b, c_js = js, c_db = memory_db,
     c_hash = length_hash, c_timer = tick, c_garbage = (7, 8)\<rparr>"

definition client_os :: "bytes \<Rightarrow> net_os" where
  "client_os bs = \<lparr>os_desc = [(3, \<lparr>d_addr = None, d_sock = mk_socket bs []\<rparr>)], os_limit = 8, os_pton = (\<lambda>_. True),
     os_dial = [], os_ebadf = 0, os_gone = []\<rparr>"

definition client_world :: "bytes \<Rightarrow> (string, string) umap world" where
  "client_world bs = \<lparr>w_os = client_os bs, w_store = \<lparr>m_db = Some []\<rparr>, w_raft = Some (RaftNode_init tick ''b'' [''a''])\<rparr>"

lemmas client_eval = client_conn_def client_os_def client_world_def mk_socket_def

lemma client_picks: "pickNode length_hash \<lparr>m_nodes = [node_b]\<rparr> key = Some node_b"
  by (simp add: pickNode_def isNodeHealthy_def node_b_def)

section \<open>Properties\<close>

text \<open>
  C15. The loop equals its reference: when the messages on a connection, each of 1 byte to 1 MB, are
  complete at the moments at which they are read, and after the last of them nothing is there to read
  (the peer has closed, or nothing has arrived yet), \<open>handle\<close> runs the handlers on exactly these messages,
  each once and in the order they were sent, until one of them throws, and returns.
\<close>

theorem connection_serves_in_order:
  assumes "client_rx (c_fd c) (w_os w) = Some x" and "take_frames msgs x = Some x'" and "silent x'"
    and "list_all (\<lambda>m. m \<noteq> [] \<and> length m \<le> 1048576) msgs"
  shows "handle_loop c data w = serve c msgs w"
  using assms by (rule handle_loop_serve)

definition slow_world :: "arrival list \<Rightarrow> (string, string) umap world" where
  "slow_world evs = (client_world [])\<lparr>w_os := (client_os [])\<lparr>os_desc := [(3, \<lparr>d_addr = None, d_sock = mk_socket [] evs\<rparr>)]\<rparr>\<rparr>"

theorem connection_serves_in_order_witness:
  "handle_loop (client_conn sample_js) [] (slow_world [Arrives (frame_bytes ''PING''), Arrives (frame_bytes ''QU''), Arrives []])
   = serve (client_conn sample_js) [''PING'', ''QU'']
       (slow_world [Arrives (frame_bytes ''PING''), Arrives (frame_bytes ''QU''), Arrives []])"
  by (rule connection_serves_in_order [where x = "([], [Arrives (frame_bytes ''PING''), Arrives (frame_bytes ''QU''), Arrives []])"
        and x' = "([], [])"])
    (simp_all add: client_eval slow_world_def client_rx_def take_frame_def frame_bytes_def)

text \<open>
  C16. A client that waits for an answer before it sends its next request, as \<open>client_py/client.py\<close>
  does, is disconnected: when its first message has been handled and the second has not arrived at the
  moment of the next read, the connection is closed, the server is as the first message left it, and
  what arrives later is never read.
\<close>

theorem waiting_client_disconnected:
  assumes "client_rx (c_fd c) (w_os w) = Some x" and "take_frame m x = Some ([], Arrives [] # later)"
    and "m \<noteq> []" and "length m \<le> 1048576" and "0 \<le> c_fd c"
    and "handle_message c m (w\<lparr>w_os := read_off (c_fd c) m (w_os w)\<rparr>) = (Ret (), w1)"
  shows "\<exists>w' d. connection_run c w = Some w' \<and> w_store w' = w_store w1 \<and> w_raft w' = w_raft w1
    \<and> c_fd c \<notin> open_fds (w_os w') \<and> os_gone (w_os w') = os_gone (w_os w1) @ [d]
    \<and> rx_buf (d_sock d) = [] \<and> rx_next (d_sock d) = later"
proof -
  let ?os = "read_nothing (c_fd c) (w_os w1)"
  have "handle_loop c [] w = serve c [m] w"
    using assms(1-4) by (intro handle_loop_serve [of _ _ x _ "([], Arrives [] # later)"]) simp_all
  then have loop: "handle_loop c [] w = (Ret (), w1\<lparr>w_os := ?os\<rparr>)" using assms(6) by simp
  have rx: "client_rx (c_fd c) (read_off (c_fd c) m (w_os w)) = Some ([], Arrives [] # later)"
    using recv_on_in_time(2) [OF assms(1,3,4,2)] .
  then have "c_fd c \<in> open_fds (read_off (c_fd c) m (w_os w))" by (auto simp: client_rx_def map_of_open)
  with keepsD [OF keeps_message, of c "w\<lparr>w_os := read_off (c_fd c) m (w_os w)\<rparr>" m] assms(6) rx
  have "client_rx (c_fd c) (w_os w1) = Some ([], Arrives [] # later)" by (simp add: kept_def)
  then obtain d where d: "map_of (os_desc (w_os w1)) (c_fd c) = Some d" "rx_buf (d_sock d) = []" "rx_next (d_sock d) = Arrives [] # later"
    by (auto simp: client_rx_def)
  let ?d = "d\<lparr>d_sock := (d_sock d)\<lparr>rx_next := later\<rparr>\<rparr>"
  have at: "map_of (os_desc ?os) (c_fd c) = Some ?d" "os_gone ?os = os_gone (w_os w1)"
    using d by (simp_all add: read_nothing_def on_sock_def)
  have "open_fds (sys_close (c_fd c) ?os) = open_fds ?os - {c_fd c}"
    using at(1) by (auto simp: map_of_open intro!: sys_close_open)
  with loop assms(5) at sys_close_gone [OF at(1)] d(2) show ?thesis
    by (intro exI [of _ "w1\<lparr>w_os := sys_close (c_fd c) ?os\<rparr>"] exI [of _ ?d]) (simp add: connection_run_def)
qed

theorem waiting_client_disconnected_witness:
  "\<exists>w' d. connection_run (client_conn sample_js)
       (slow_world [Arrives (frame_bytes ''PING''), Arrives [], Arrives [], Arrives (frame_bytes ''PING'')]) = Some w'
     \<and> open_fds (w_os w') = {} \<and> os_gone (w_os w') = [d]
     \<and> tx_out (d_sock d) = frame_bytes ''PONG'' \<and> rx_next (d_sock d) = [Arrives (frame_bytes ''PING'')]"
proof -
  let ?c = "client_conn sample_js"
  let ?w = "slow_world [Arrives (frame_bytes ''PING''), Arrives [], Arrives [], Arrives (frame_bytes ''PING'')]"
  let ?w1 = "snd (handle_message ?c ''PING'' (?w\<lparr>w_os := read_off (c_fd ?c) ''PING'' (w_os ?w)\<rparr>))"
  have ping: "handle_message ?c ''PING'' w = reply_to ?c ''PONG'' w" for w
    by (simp add: handle_message_def getFirstToken_def read_token_def is_space_def parseCommand_def handlePing_def)
  have rx: "client_rx (c_fd ?c) (w_os ?w) = Some ([], [Arrives (frame_bytes ''PING''), Arrives [], Arrives [], Arrives (frame_bytes ''PING'')])"
    by (simp add: slow_world_def client_eval client_rx_def)
  have fr: "take_frame ''PING'' ([], [Arrives (frame_bytes ''PING''), Arrives [], Arrives [], Arrives (frame_bytes ''PING'')])
      = Some ([], Arrives [] # [Arrives (frame_bytes ''PING'')])" by (simp add: take_frame_def frame_bytes_def)
  have three: "c_fd ?c = 3" and fd: "0 \<le> c_fd ?c" by (simp_all add: client_conn_def)
  have ret: "handle_message ?c ''PING'' (?w\<lparr>w_os := read_off (c_fd ?c) ''PING'' (w_os ?w)\<rparr>) = (Ret (), ?w1)"
    by (simp add: ping reply_to_def)
  obtain w' d where run: "connection_run ?c ?w = Some w'" "c_fd ?c \<notin> open_fds (w_os w')"
    "os_gone (w_os w') = os_gone (w_os ?w1) @ [d]" "rx_next (d_sock d) = [Arrives (frame_bytes ''PING'')]"
    using waiting_client_disconnected [OF rx fr _ _ fd ret] by auto
  have "handle_loop ?c [] ?w = serve ?c [''PING''] ?w"
    by (rule handle_loop_serve [OF rx, of _ "([], [Arrives [], Arrives (frame_bytes ''PING'')])"]) (simp_all add: fr)
  with run(1) have "w_os w' = sys_close 3 (read_nothing 3 (snd (send_on 3 ''PONG'' (read_off 3 ''PING'' (w_os ?w)))))"
    by (auto simp: connection_run_def ping reply_to_def three)
  then have "open_fds (w_os w') = {}" "tx_out (d_sock (hd (os_gone (w_os w')))) = frame_bytes ''PONG''" "length (os_gone (w_os w')) = 1"
    by (simp_all add: read_nothing_def read_off_def send_on_def on_sock_def sys_close_def open_fds_def slow_world_def
        client_eval take_frame_def frame_bytes_def sendMessage_room)
  then show ?thesis using run by (intro exI [of _ w'] exI [of _ d]) (cases "os_gone (w_os ?w1)", simp_all)
qed

text \<open>
  However a connection ends, by the peer, by a bad length or by an exception, its descriptor is
  closed exactly once and no other descriptor is touched, those that its handlers opened for
  forwarding included.
\<close>

theorem connection_releases_descriptor:
  assumes "connection_run c w = Some w'" and "c_fd c \<in> open_fds (w_os w)" and "0 \<le> c_fd c"
  shows "open_fds (w_os w') = open_fds (w_os w) - {c_fd c} \<and> os_ebadf (w_os w') = os_ebadf (w_os w)"
  using assms by (rule connection_run_release)

theorem connection_releases_descriptor_witness:
  "\<exists>w'. connection_run (client_conn sample_js) (client_world (frame_bytes ''PING'')) = Some w' \<and> open_fds (w_os w') = {}"
proof -
  let ?c = "client_conn sample_js" and ?w = "client_world (frame_bytes ''PING'')"
  have "handle_loop ?c [] ?w = serve ?c [''PING''] ?w"
    by (rule handle_loop_serve [of _ _ "(frame_bytes ''PING'', [])" _ "([], [])"])
      (simp_all add: client_eval client_rx_def take_frame_arrived [of "''PING''" "[]", simplified])
  then have "fst (handle_loop ?c [] ?w) = Ret ()"
    by (simp add: handle_message_def getFirstToken_def read_token_def is_space_def parseCommand_def handlePing_def
        reply_to_def)
  then obtain w' where run: "connection_run ?c ?w = Some w'"
    by (cases "handle_loop ?c [] ?w") (auto simp: connection_run_def)
  have "c_fd ?c \<in> open_fds (w_os ?w)" "0 \<le> c_fd ?c" by (simp_all add: client_eval open_fds_def)
  from connection_releases_descriptor [OF run this] run show ?thesis by (auto simp: client_eval open_fds_def)
qed

text \<open>
  STORE followed by GET: when a frame of finite numbers whose key is one word is stored on its
  own node and the write succeeds, the client is answered \<open>STORE OK\<close>, and a GET of the key is
  answered with a text that decodes to the frame that was stored.
\<close>

theorem store_then_get:
  assumes "json_lib_ok (c_js c)" and "rocksdb_ok (c_db c)"
    and "decode (c_js c) payload = Ret frame" and "list_all (box_finite (c_js c)) (boxes frame)" and "is_word (image_id frame)"
    and "pickNode (c_hash c) (c_router c) (image_id frame) = Some node" and "ni_id node = ni_id (c_self c)"
    and "encode (c_js c) frame = Ret value" and "m_db (w_store w) = Some d"
    and "put_opened (c_db c) (image_id frame) value d = (True, d')"
  shows "\<exists>st w1. w1 = snd (handle_message c (''STORE '' @ payload) w)
    \<and> handle_message c (''STORE '' @ payload) w = reply_to c ''STORE OK'' (w\<lparr>w_store := st\<rparr>)
    \<and> handle_message c (''GET '' @ image_id frame) w1 = reply_to c value w1 \<and> decode (c_js c) value = Ret frame"
proof -
  let ?st = "(w_store w)\<lparr>m_db := Some d'\<rparr>"
  have put: "storage_put (c_db c) (image_id frame) value (w_store w) = Some (True, ?st)"
    using assms(9,10) by (simp add: storage_put_def)
  note store = store_of_own_key [OF assms(3,6-8) put]
  have dec: "decode (c_js c) value = Ret frame"
    using decode_encode [OF assms(1) decode_frame_ok [OF assms(1,3)] assms(4,8)] .
  have "storage_get (c_db c) (image_id frame) ?st = Some (Some value)"
    using storage.put_get [OF assms(2) put] by simp
  then have "handle_message c (''GET '' @ image_id frame) w1 = reply_to c value w1" if "w_store w1 = ?st" for w1
    using get_of_own_key [OF assms(5-7), of w1] dec assms(8) that by simp
  then show ?thesis using store dec by auto
qed

theorem store_then_get_witness:
  "\<exists>st w1. handle_message (client_conn sample_js) (''STORE '' @ ''{...}'') (client_world [])
       = reply_to (client_conn sample_js) ''STORE OK'' ((client_world [])\<lparr>w_store := st\<rparr>)
     \<and> w1 = snd (handle_message (client_conn sample_js) (''STORE '' @ ''{...}'') (client_world []))
     \<and> handle_message (client_conn sample_js) (''GET '' @ ''img'') w1 = reply_to (client_conn sample_js) ''{...}'' w1"
proof -
  let ?c = "client_conn sample_js"
  have dec: "decode (c_js ?c) ''{...}'' = Ret sample_frame"
    using decode_encode [OF sample_js_ok sample_frame_ok sample_encode] by (simp add: client_conn_def)
  have env: "json_lib_ok (c_js ?c)" "rocksdb_ok (c_db ?c)" and fin: "list_all (box_finite (c_js ?c)) (boxes sample_frame)"
    and enc: "encode (c_js ?c) sample_frame = Ret ''{...}''"
    and pick: "pickNode (c_hash ?c) (c_router ?c) (image_id sample_frame) = Some node_b" "ni_id node_b = ni_id (c_self ?c)"
    using sample_js_ok memory_db_ok sample_frame_ok(2) sample_encode client_picks by (simp_all add: client_conn_def)
  have word: "is_word (image_id sample_frame)" by (simp add: is_word_def sample_frame_def is_space_def)
  have db: "m_db (w_store (client_world [])) = Some []"
    "put_opened (c_db ?c) (image_id sample_frame) ''{...}'' [] = (True, [(image_id sample_frame, ''{...}'')])"
    by (simp_all add: client_eval put_opened_def memory_db_def)
  from store_then_get [OF env dec fin word pick enc db]
  obtain st w1 where "w1 = snd (handle_message ?c (''STORE '' @ ''{...}'') (client_world []))"
    "handle_message ?c (''STORE '' @ ''{...}'') (client_world []) = reply_to ?c ''STORE OK'' ((client_world [])\<lparr>w_store := st\<rparr>)"
    "handle_message ?c (''GET '' @ image_id sample_frame) w1 = reply_to ?c ''{...}'' w1"
    by blast
  moreover have "image_id sample_frame = ''img''" by (simp add: sample_frame_def)
  ultimately show ?thesis by metis
qed

text \<open>
  GET of a key that is not stored is not an error: the reply is a frame with empty names, no
  boxes and whatever the two uninitialised fields for the size hold.
\<close>

theorem get_of_absent_key:
  assumes "is_word key" and "pickNode (c_hash c) (c_router c) key = Some node" and "ni_id node = ni_id (c_self c)"
    and "storage_get (c_db c) key (w_store w) = Some None"
    and "encode (c_js c) \<lparr>image_id = [], image_hash = [], boxes = [], width = fst (c_garbage c), height = snd (c_garbage c)\<rparr> = Ret v"
  shows "handle_message c (''GET '' @ key) w = reply_to c v w"
  using get_of_own_key [OF assms(1-4)] assms(5) by (simp add: default_frame_def)

theorem get_of_absent_key_witness:
  "handle_message (client_conn (table_js [(frame_json (default_frame (7, 8)), ''{}'')])) (''GET '' @ ''cat'') (client_world [])
   = reply_to (client_conn (table_js [(frame_json (default_frame (7, 8)), ''{}'')])) ''{}'' (client_world [])"
  by (rule get_of_absent_key [where node = node_b])
    (simp_all add: client_eval is_word_def is_space_def client_picks storage_get_def get_opened_def memory_db_def
      encode_def table_js_def default_frame_def)

text \<open>
  A call over the wire. The caller has got the line \<open>d\<close> to its peer, on which the reply is complete
  when it is read.
\<close>

definition line_ready ::
  "RaftNode \<Rightarrow> string \<Rightarrow> pool_os \<Rightarrow> int \<Rightarrow> net_os \<Rightarrow> desc \<Rightarrow> bytes \<Rightarrow> bool" where
  "line_ready node peerId st fd os1 d reply \<longleftrightarrow>
     (\<exists>host port p1. map_of (m_peerAddresses node) peerId = Some (host, port)
       \<and> getConnection peerId host port st = (fd, p1, os1)) \<and> 0 \<le> fd
     \<and> map_of (os_desc os1) fd = Some d \<and> tx_room (d_sock d) = [] \<and> length reply \<le> 1048576
     \<and> take_frame reply (rx_buf (d_sock d), rx_next (d_sock d)) \<noteq> None"

text \<open>A new line goes to the address of the peer.\<close>

definition dials_peer :: "RaftNode \<Rightarrow> string \<Rightarrow> pool_os \<Rightarrow> desc \<Rightarrow> bool" where
  "dials_peer node peerId st d \<longleftrightarrow>
     map_of (m_connectionPools (fst st)) peerId \<noteq> None
     \<or> (\<exists>host port. map_of (m_peerAddresses node) peerId = Some (host, port) \<and> d_addr d = Some (host, of_int port))"

lemma line_ready_dials: "line_ready node peerId st fd os1 d reply \<Longrightarrow> dials_peer node peerId st d"
  using getConnection_new by (cases st) (fastforce simp: line_ready_def dials_peer_def)

context wire_codec
begin

lemma call_over_line:
  assumes "line_ready node peerId st fd os1 d reply" and "json_lib_ok js"
    and "message js word (to_json r) = Ret reply" and "CHR '' '' \<notin> set word"
  shows "\<exists>p' os'. sendRpc js now node peerId (Ret m) (of_json js) st = (Ret (Some r), p', os')
    \<and> line_wrote os1 os' fd d (frame_bytes m)"
proof -
  have "reply \<noteq> []" using message_RetD [OF assms(3,4)] by auto
  obtain host port p1 where l: "map_of (m_peerAddresses node) peerId = Some (host, port)"
    "getConnection peerId host port (fst st, snd st) = (fd, p1, os1)"
    "0 \<le> fd" "map_of (os_desc os1) fd = Some d" "tx_room (d_sock d) = []" "length reply \<le> 1048576"
    and "take_frame reply (rx_buf (d_sock d), rx_next (d_sock d)) \<noteq> None"
    using assms(1) by (auto simp: line_ready_def)
  then obtain x where x: "take_frame reply (rx_buf (d_sock d), rx_next (d_sock d)) = Some x" by blast
  from sendRpc_line [OF l(1-5) \<open>reply \<noteq> []\<close> l(6) x, of js now m "of_json js"] show ?thesis
    unfolding reply_read [OF assms(2-4)] by simp
qed

end

text \<open>
  C13. A vote request over the wire is a call of the other node's \<open>handleRequestVote\<close>: the bytes that
  \<open>sendRequestVote\<close> writes on its line to the peer, received by a connection of the other server, make
  it run \<open>handleRequestVote\<close> on the same arguments and write its reply, and when these bytes are
  complete at the moment \<open>sendRequestVote\<close> reads, it returns exactly this reply. A new line goes to
  the address of the peer.
\<close>

theorem vote_rpc_end_to_end:
  assumes "json_lib_ok (c_js c)" and "message (c_js c) ''RAFT_REQUEST_VOTE'' (rv_json args) = Ret msg" and "length msg \<le> 1048576"
    and "arrived_at (w_os w) (c_fd c) (frame_bytes msg) got"
    and "w_raft w = Some raft" and "handleRequestVote (c_timer c) args raft = Some (r, raft')"
    and "message (c_js c) ''RAFT_REQUEST_VOTE_REPLY'' (rvr_json r) = Ret reply"
    and "line_ready node peerId st fd os1 d reply"
  shows "(\<exists>p' os'. sendRequestVote (c_js c) now node peerId args st = (Ret (Some r), p', os')
      \<and> line_wrote os1 os' fd d (frame_bytes msg) \<and> dials_peer node peerId st d)
    \<and> (\<exists>os2. handle_round c data w = (Ret (), w\<lparr>w_raft := Some raft', w_os := os2\<rparr>)
      \<and> arrived_at os2 (c_fd c) [] (got @ frame_bytes reply))"
proof
  obtain p' os' where "sendRpc (c_js c) now node peerId (Ret msg) (rvr_of_json (c_js c)) st = (Ret (Some r), p', os')"
    "line_wrote os1 os' fd d (frame_bytes msg)"
    using rvr.call_over_line [OF assms(8,1,7), where now = now and m = msg] by auto
  with line_ready_dials [OF assms(8)] assms(2)
  show "\<exists>p' os'. sendRequestVote (c_js c) now node peerId args st = (Ret (Some r), p', os')
      \<and> line_wrote os1 os' fd d (frame_bytes msg) \<and> dials_peer node peerId st d"
    by (simp add: sendRequestVote_def)
  have "msg \<noteq> []" using message_RetD [OF assms(2)] by auto
  moreover have "handle_message c msg (w\<lparr>w_os := os\<rparr>) = reply_to c reply (w\<lparr>w_os := os, w_raft := Some raft'\<rparr>)" for os
    using vote_request_served [OF assms(1,2) _ assms(6,7), of "w\<lparr>w_os := os\<rparr>"] assms(5) by simp
  ultimately show "\<exists>os2. handle_round c data w = (Ret (), w\<lparr>w_raft := Some raft', w_os := os2\<rparr>)
      \<and> arrived_at os2 (c_fd c) [] (got @ frame_bytes reply)"
    using round_replies [OF assms(4) _ assms(3), of reply "\<lambda>w. w\<lparr>w_raft := Some raft'\<rparr>" data] by auto
qed

definition caller_pool :: RaftConnectionPool where
  "caller_pool = \<lparr>m_connectionPools = [(''b'', [\<lparr>ci_fd = 4, ci_host = [], ci_port = 0, ci_lastUsed = 0, ci_inUse = False\<rparr>])],
     m_fdToPeerMap = [(4, ''b'')], cp_running = True\<rparr>"

definition caller_os :: "string \<Rightarrow> net_os" where
  "caller_os reply = dead_os\<lparr>os_desc := [(4, \<lparr>d_addr = None, d_sock = mk_socket [] [Arrives [], Arrives (frame_bytes reply)]\<rparr>)]\<rparr>"

definition caller_line :: "string \<Rightarrow> desc" where
  "caller_line reply = \<lparr>d_addr = None, d_sock = mk_socket [] [Arrives (frame_bytes reply)]\<rparr>"

lemma client_arrived: "arrived_at (w_os (client_world bs)) (c_fd (client_conn js)) bs []"
  by (simp add: arrived_at_def conn_is_def client_eval)

lemma caller_ready:
  assumes "reply \<noteq> []" and "length reply \<le> 1048576"
  shows "line_ready rpc_node ''b'' (caller_pool, caller_os reply) 4 (snd (sys_peek 4 (caller_os reply))) (caller_line reply) reply"
proof -
  have "map_of (m_peerAddresses rpc_node) ''b'' = Some (''10.0.0.2'', 8081)"
    by (simp add: rpc_node_def setPeerAddress_def RaftNode_init_def resetElectionTimer_def)
  moreover have "getConnection ''b'' ''10.0.0.2'' 8081 (caller_pool, caller_os reply)
      = (4, caller_pool\<lparr>m_connectionPools := [(''b'', [])]\<rparr>, snd (sys_peek 4 (caller_os reply)))"
    by (simp add: getConnection_def caller_pool_def isConnectionValid_def sys_peek_def on_sock_def caller_os_def peek_sock_def
        mk_socket_def)
  moreover have "map_of (os_desc (snd (sys_peek 4 (caller_os reply)))) 4
      = Some (caller_line reply)"
    by (simp add: sys_peek_def on_sock_def caller_os_def peek_sock_def mk_socket_def caller_line_def)
  moreover have "take_frame reply ([], [Arrives (frame_bytes reply)]) \<noteq> None"
    using assms(1) by (simp add: take_frame_def frame_bytes_def Suc_le_eq)
  ultimately show ?thesis using assms(2) unfolding line_ready_def by (simp add: mk_socket_def caller_line_def)
qed

lemma vote_js_ok: "json_lib_ok vote_js"
  unfolding vote_js_def by (rule table_js_ok) simp

theorem vote_rpc_end_to_end_witness:
  "\<exists>raft p' os' os2. m_votedFor raft = ''a''
     \<and> sendRequestVote vote_js 0 rpc_node ''b'' (vote_from ''a'' 1) (caller_pool, caller_os ''RAFT_REQUEST_VOTE_REPLY r1'')
       = (Ret (Some (granted 1)), p', os')
     \<and> line_wrote (snd (sys_peek 4 (caller_os ''RAFT_REQUEST_VOTE_REPLY r1''))) os' 4
         (caller_line ''RAFT_REQUEST_VOTE_REPLY r1'') (frame_bytes ''RAFT_REQUEST_VOTE q1'')
     \<and> handle_round (client_conn vote_js) [] (client_world (frame_bytes ''RAFT_REQUEST_VOTE q1''))
       = (Ret (), (client_world (frame_bytes ''RAFT_REQUEST_VOTE q1''))\<lparr>w_raft := Some raft, w_os := os2\<rparr>)
     \<and> arrived_at os2 3 [] (frame_bytes ''RAFT_REQUEST_VOTE_REPLY r1'')"
proof -
  let ?c = "client_conn vote_js" and ?w = "client_world (frame_bytes ''RAFT_REQUEST_VOTE q1'')"
  have js: "json_lib_ok (c_js ?c)" using vote_js_ok by (simp add: client_conn_def)
  have msgs: "message (c_js ?c) ''RAFT_REQUEST_VOTE'' (rv_json (vote_from ''a'' 1)) = Ret ''RAFT_REQUEST_VOTE q1''"
    "message (c_js ?c) ''RAFT_REQUEST_VOTE_REPLY'' (rvr_json (granted 1)) = Ret ''RAFT_REQUEST_VOTE_REPLY r1''"
    by (simp_all add: client_conn_def message_cases vote_js_def table_js_def rv_json_def rvr_json_def vote_from_def)
  have raft: "w_raft ?w = Some (RaftNode_init tick ''b'' [''a''])" by (simp add: client_eval)
  obtain raft' where vote: "handleRequestVote (c_timer ?c) (vote_from ''a'' 1) (RaftNode_init tick ''b'' [''a'']) = Some (granted 1, raft')"
    and for_a: "m_votedFor raft' = ''a''"
    by (simp add: client_conn_def handleRequestVote_def raft_eval granted_def Let_def)
  have fd: "c_fd ?c = 3" "c_js ?c = vote_js" by (simp_all add: client_conn_def)
  from vote_rpc_end_to_end [OF js msgs(1) _ client_arrived raft vote msgs(2) caller_ready, of 0 "[]"] for_a
  show ?thesis unfolding fd by auto
qed








definition same_data :: "'d world \<Rightarrow> 'd world \<Rightarrow> bool" where
  "same_data w w' \<longleftrightarrow> w_store w' = w_store w \<and> w_raft w' = w_raft w"

lemma same_data_simps [simp]:
  "same_data w w" "same_data w (w\<lparr>w_os := os\<rparr>)" "same_data w (snd (reply_to c s w))"
  "same_data w (snd (forward_request c node msg err w))"
  by (simp_all add: same_data_def forward_request_def Let_def reply_to_def split: prod.split)

lemma same_data_value [simp]: "same_data w (snd (with_value m (reply_to c) w))"
  by (cases m) simp_all









text \<open>
  One request can take a server down: an entry without a term is read through a constant reference,
  which the library answers with an assertion and not with an exception.
\<close>

theorem append_entry_without_term:
  assumes "js_parse (c_js c) s = Some (JObj kvs)"
    and "map_of kvs ''term'' = Some (JUInt t)" and "map_of kvs ''leaderId'' = Some (JStr l)"
    and "map_of kvs ''prevLogIndex'' = Some (JUInt pi)" and "map_of kvs ''prevLogTerm'' = Some (JUInt pt)"
    and "map_of kvs ''leaderCommit'' = Some (JUInt lc)"
    and "map_of kvs ''entries'' = Some (JArr (JObj e # es))" and "map_of e ''term'' = None"
  shows "fst (handle_message c (''RAFT_APPEND_ENTRIES '' @ s) w) = Undef"
proof -
  have "ae_of_json (c_js c) (JObj kvs) = Undef"
    using assms(2-8) by (simp add: ae_of_json_def entry_of_json_missing)
  then have "append_try c s w = (Undef, w)" using assms(1) by (simp add: append_try_def)
  then show ?thesis unfolding dispatch handleRaftAppendEntries_def payloads option.case by simp
qed

text \<open>A failed write is answered like a successful one.\<close>

theorem store_ignores_failed_write:
  assumes "decode (c_js c) payload = Ret frame" and "pickNode (c_hash c) (c_router c) (image_id frame) = Some node"
    and "ni_id node = ni_id (c_self c)" and "encode (c_js c) frame = Ret value"
    and "storage_put (c_db c) (image_id frame) value (w_store w) = Some (False, st)"
  shows "handle_message c (''STORE '' @ payload) w = reply_to c ''STORE OK'' (w\<lparr>w_store := st\<rparr>)"
  using assms by (rule store_of_own_key)

text \<open>
  A forwarded request whose reply is not there in time, or whose socket cannot be made, leaves the
  client without any answer.
\<close>

theorem forwarded_request_unanswered:
  assumes "c_fd c \<in> open_fds (w_os w)"
    and "fst (forwardToNode (c_fd c) node msg (w_os w)) \<in> {FD_FIALED, RECV_FAILED}"
  shows "fst (forward_request c node msg err w) = Ret ()
    \<and> map_of (os_desc (w_os (snd (forward_request c node msg err w)))) (c_fd c) = map_of (os_desc (w_os w)) (c_fd c)"
proof -
  obtain code os' where f: "forwardToNode (c_fd c) node msg (w_os w) = (code, os')" by fastforce
  from forwardToNode_outcomes_imp [OF assms(1) f] assms(2) f show ?thesis
    by (auto simp: forward_request_def Let_def)
qed


end
