(* ===== verification/Session.thy ===== *)
theory Session
  imports Connection_Properties
begin

text \<open>
  What the connections of a server promise together: an abstract frame store that answers one
  request after the other, and the proof that the bytes which any number of clients send and
  receive, in any interleaving of the rounds of their \<open>Connection::handle\<close> loops, are those of this
  store.
\<close>

section \<open>The abstract store\<close>

text \<open>
  A request carries its frame as \<open>'p\<close>: the text that a client sends, or the frame that it stands
  for. A missing key is answered with a frame whose two numbers are arbitrary (\<open>g\<close>).
\<close>

datatype 'p request = ReqPing | ReqStore 'p | ReqGet string

datatype 'f answer = Pong | Stored | Found "'f YoloFrame"

type_synonym 'f frames = "string \<rightharpoonup> 'f YoloFrame"

fun respond :: "int \<times> int \<Rightarrow> 'f YoloFrame request \<Rightarrow> 'f frames \<Rightarrow> 'f answer \<times> 'f frames" where
  "respond g ReqPing m = (Pong, m)"
| "respond g (ReqStore f) m = (Stored, m(image_id f \<mapsto> f))"
| "respond g (ReqGet k) m = (Found (case m k of None \<Rightarrow> default_frame g | Some f \<Rightarrow> f), m)"

text \<open>The requests of all clients in the order in which they are served; each with its client.\<close>

fun respond_all :: "(int \<Rightarrow> int \<times> int) \<Rightarrow> (int \<times> 'f YoloFrame request) list \<Rightarrow> 'f frames
    \<Rightarrow> (int \<times> 'f answer) list \<times> 'f frames" where
  "respond_all g [] m = ([], m)"
| "respond_all g ((fd, q) # qs) m =
     (let (a, m1) = respond (g fd) q m;
          (as, m2) = respond_all g qs m1 in ((fd, a) # as, m2))"

definition of_client :: "int \<Rightarrow> (int \<times> 'a) list \<Rightarrow> 'a list" where
  "of_client fd xs = map snd (filter (\<lambda>x. fst x = fd) xs)"

lemma of_client_simps [simp]:
  "of_client fd [] = []" "of_client fd ((fd', x) # xs) = (if fd' = fd then x # of_client fd xs else of_client fd xs)"
  by (simp_all add: of_client_def)

section \<open>Texts of requests and answers\<close>

fun request_text :: "string request \<Rightarrow> string" where
  "request_text ReqPing = ''PING''"
| "request_text (ReqStore payload) = ''STORE '' @ payload"
| "request_text (ReqGet key) = ''GET '' @ key"

definition ret_or :: "'a \<Rightarrow> 'a outcome \<Rightarrow> 'a" where
  "ret_or d r = (case r of Ret x \<Rightarrow> x | _ \<Rightarrow> d)"

definition frame_of :: "'f json_lib \<Rightarrow> string \<Rightarrow> 'f YoloFrame" where
  "frame_of js s = ret_or (default_frame (0, 0)) (decode js s)"

definition frame_requests :: "'f json_lib \<Rightarrow> (int \<times> string request) list \<Rightarrow> (int \<times> 'f YoloFrame request) list" where
  "frame_requests js = map (\<lambda>(fd, q). (fd, map_request (frame_of js) q))"

lemma frame_requests_simps [simp]:
  "frame_requests js [] = []" "frame_requests js ((fd, q) # qs) = (fd, map_request (frame_of js) q) # frame_requests js qs"
  by (simp_all add: frame_requests_def)

fun answer_text :: "'f json_lib \<Rightarrow> 'f answer \<Rightarrow> string" where
  "answer_text js Pong = ''PONG''"
| "answer_text js Stored = ''STORE OK''"
| "answer_text js (Found f) = ret_or [] (encode js f)"

text \<open>What a client gets back.\<close>

definition answers_bytes :: "'f json_lib \<Rightarrow> 'f answer list \<Rightarrow> bytes" where
  "answers_bytes js as = concat (map (\<lambda>a. frame_bytes (answer_text js a)) as)"

lemma session_bytes_simps [simp]:
  "answers_bytes js [] = []" "answers_bytes js (a # as) = frame_bytes (answer_text js a) @ answers_bytes js as"
  by (simp_all add: answers_bytes_def)

section \<open>The abstraction\<close>

definition can_encode :: "'f json_lib \<Rightarrow> 'f YoloFrame \<Rightarrow> bool" where
  "can_encode js f \<longleftrightarrow> (\<exists>t. encode js f = Ret t)"

text \<open>The frames that a database holds, and databases that hold nothing but frames.\<close>

definition frames :: "'f json_lib \<Rightarrow> 'd rocksdb \<Rightarrow> 'd RocksDBStorage \<Rightarrow> 'f frames" where
  "frames js db st k = (case storage_get db k st of Some (Some v) \<Rightarrow> Some (frame_of js v) | _ \<Rightarrow> None)"

definition holds_frames :: "'f json_lib \<Rightarrow> 'd rocksdb \<Rightarrow> 'd RocksDBStorage \<Rightarrow> bool" where
  "holds_frames js db st \<longleftrightarrow> m_db st \<noteq> None
     \<and> (\<forall>k v. storage_get db k st = Some (Some v) \<longrightarrow> (\<exists>f. decode js v = Ret f \<and> can_encode js f))"

text \<open>
  The writes of a sequence of requests succeed, one after the other, when they are made in this order.
  (A write that fails is answered like one that succeeds, \<open>store_ignores_failed_write\<close>.)
\<close>

fun writes_ok :: "'f json_lib \<Rightarrow> 'd rocksdb \<Rightarrow> string request list \<Rightarrow> 'd RocksDBStorage \<Rightarrow> bool" where
  "writes_ok js db [] st \<longleftrightarrow> True"
| "writes_ok js db (ReqStore payload # qs) st \<longleftrightarrow>
     (case storage_put db (image_id (frame_of js payload)) (ret_or [] (encode js (frame_of js payload))) st of
        Some (True, st') \<Rightarrow> writes_ok js db qs st'
      | _ \<Rightarrow> False)"
| "writes_ok js db (q # qs) st \<longleftrightarrow> writes_ok js db qs st"

text \<open>
  The requests that are within the contract: keys that the router gives to this node, keys of one
  word, frames of finite numbers, and texts of at most 1 MB.
\<close>

definition serves_key :: "('f, 'd) Connection \<Rightarrow> string \<Rightarrow> bool" where
  "serves_key c k \<longleftrightarrow> (case pickNode (c_hash c) (c_router c) k of None \<Rightarrow> False | Some node \<Rightarrow> ni_id node = ni_id (c_self c))"

fun request_ok :: "('f, 'd) Connection \<Rightarrow> string request \<Rightarrow> bool" where
  "request_ok c ReqPing \<longleftrightarrow> True"
| "request_ok c (ReqStore payload) \<longleftrightarrow> length (''STORE '' @ payload) \<le> 1048576
     \<and> (case decode (c_js c) payload of
          Ret f \<Rightarrow> list_all (box_finite (c_js c)) (boxes f) \<and> can_encode (c_js c) f \<and> serves_key c (image_id f)
        | _ \<Rightarrow> False)"
| "request_ok c (ReqGet key) \<longleftrightarrow> length (''GET '' @ key) \<le> 1048576 \<and> is_word key \<and> serves_key c key
     \<and> can_encode (c_js c) (default_frame (c_garbage c))"

section \<open>One request\<close>

lemma request_text_ok: "request_ok c q \<Longrightarrow> request_text q \<noteq> [] \<and> length (request_text q) \<le> 1048576"
  by (cases "(c, q)" rule: request_ok.cases) auto

lemma serves_key_picks: "serves_key c k \<Longrightarrow> \<exists>node. pickNode (c_hash c) (c_router c) k = Some node \<and> ni_id node = ni_id (c_self c)"
  by (simp add: serves_key_def split: option.splits)

lemma storage_get_opened: "m_db st \<noteq> None \<Longrightarrow> \<exists>opt. storage_get db k st = Some opt"
  by (auto simp: storage_get_def)

text \<open>
  A request is answered on the client's own connection with the text of the abstract answer, and the
  database afterwards holds the frames of the abstract store.
\<close>

lemma store_answered:
  assumes "json_lib_ok (c_js c)" and "rocksdb_ok (c_db c)" and "writes_ok (c_js c) (c_db c) (ReqStore payload # qs) (w_store w)"
    and "holds_frames (c_js c) (c_db c) (w_store w)" and "request_ok c (ReqStore payload)"
  shows "\<exists>st. handle_message c (''STORE '' @ payload) w = reply_to c ''STORE OK'' (w\<lparr>w_store := st\<rparr>)
    \<and> holds_frames (c_js c) (c_db c) st \<and> writes_ok (c_js c) (c_db c) qs st
    \<and> frames (c_js c) (c_db c) st
      = (frames (c_js c) (c_db c) (w_store w))(image_id (frame_of (c_js c) payload) \<mapsto> frame_of (c_js c) payload)"
proof -
  obtain f where f: "decode (c_js c) payload = Ret f" and fin: "list_all (box_finite (c_js c)) (boxes f)"
    and own: "serves_key c (image_id f)" and can: "can_encode (c_js c) f"
    using assms(5) by (auto split: outcome.splits)
  obtain v where v: "encode (c_js c) f = Ret v" using can by (auto simp: can_encode_def)
  have dec: "decode (c_js c) v = Ret f" using decode_encode [OF assms(1) decode_frame_ok [OF assms(1) f] fin v] .
  obtain st where put: "storage_put (c_db c) (image_id f) v (w_store w) = Some (True, st)" and more: "writes_ok (c_js c) (c_db c) qs st"
    using assms(3) f v by (auto simp: frame_of_def ret_or_def split: option.splits bool.splits)
  then have op': "m_db st \<noteq> None" by (auto simp: storage_put_def split: option.splits prod.splits)
  obtain node where node: "pickNode (c_hash c) (c_router c) (image_id f) = Some node" "ni_id node = ni_id (c_self c)"
    using serves_key_picks [OF own] by blast
  note gets = storage.put_get [OF assms(2) put]
  have "holds_frames (c_js c) (c_db c) st"
    using assms(4) op' dec can by (auto simp: holds_frames_def gets)
  moreover have "frames (c_js c) (c_db c) st = (frames (c_js c) (c_db c) (w_store w))(image_id f \<mapsto> f)"
    by (rule ext) (simp add: frames_def gets frame_of_def dec ret_or_def)
  ultimately show ?thesis
    using store_of_own_key [OF f node v put] f more by (auto simp: frame_of_def ret_or_def)
qed

lemma get_answered:
  assumes "holds_frames (c_js c) (c_db c) (w_store w)" and "request_ok c (ReqGet key)"
  shows "handle_message c (''GET '' @ key) w = reply_to c
    (answer_text (c_js c) (fst (respond (c_garbage c) (ReqGet key) (frames (c_js c) (c_db c) (w_store w))))) w"
proof -
  have word: "is_word key" and own: "serves_key c key" and can: "can_encode (c_js c) (default_frame (c_garbage c))"
    using assms(2) by simp_all
  obtain node where node: "pickNode (c_hash c) (c_router c) key = Some node" "ni_id node = ni_id (c_self c)"
    using serves_key_picks [OF own] by blast
  obtain opt where get: "storage_get (c_db c) key (w_store w) = Some opt"
    using storage_get_opened [of "w_store w" "c_db c" key] assms(1) by (auto simp: holds_frames_def)
  show ?thesis
  proof (cases opt)
    case None
    with get_of_own_key [OF word node get] get can show ?thesis
      by (auto simp: frames_def can_encode_def ret_or_def)
  next
    case (Some v)
    with assms(1) get obtain f where "decode (c_js c) v = Ret f" "can_encode (c_js c) f"
      by (auto simp: holds_frames_def)
    with get_of_own_key [OF word node get] get Some show ?thesis
      by (auto simp: frames_def can_encode_def ret_or_def frame_of_def)
  qed
qed

lemma request_answered:
  assumes "json_lib_ok (c_js c)" and "rocksdb_ok (c_db c)" and "writes_ok (c_js c) (c_db c) (q # qs) (w_store w)"
    and "holds_frames (c_js c) (c_db c) (w_store w)" and "request_ok c q"
    and "respond (c_garbage c) (map_request (frame_of (c_js c)) q) (frames (c_js c) (c_db c) (w_store w)) = (a, m)"
  shows "\<exists>st. handle_message c (request_text q) w = reply_to c (answer_text (c_js c) a) (w\<lparr>w_store := st\<rparr>)
    \<and> holds_frames (c_js c) (c_db c) st \<and> frames (c_js c) (c_db c) st = m \<and> writes_ok (c_js c) (c_db c) qs st"
proof (cases q)
  case ReqPing
  have "handle_message c ''PING'' w = reply_to c ''PONG'' (w\<lparr>w_store := w_store w\<rparr>)"
    by (simp add: handle_message_def getFirstToken_def read_token_def is_space_def parseCommand_def handlePing_def)
  with ReqPing assms(3,4,6) show ?thesis by (intro exI [of _ "w_store w"]) simp
next
  case (ReqStore payload)
  with assms store_answered [OF assms(1,2) _ assms(4), of payload qs] show ?thesis by auto
next
  case (ReqGet key)
  have "handle_message c (''GET '' @ key) w = reply_to c (answer_text (c_js c) a) (w\<lparr>w_store := w_store w\<rparr>)"
    using get_answered [OF assms(4), of key] ReqGet assms(5,6) by auto
  with ReqGet assms(3,4,6) show ?thesis by (intro exI [of _ "w_store w"]) auto
qed

section \<open>Rounds of many connections\<close>

text \<open>
  The rounds of many connections in the order in which the threads of the pool get to run them.
  \<open>conn\<close> is the connection behind a descriptor and \<open>buf\<close> its local variable \<open>data\<close>, which lives as
  long as the loop.
\<close>

fun rounds :: "(int \<Rightarrow> ('f, 'd) Connection) \<Rightarrow> (int \<Rightarrow> bytes) \<Rightarrow> int list \<Rightarrow> 'd action" where
  "rounds conn buf [] w = (Ret (), w)"
| "rounds conn buf (fd # fds) w =
     (case handle_round (conn fd) (buf fd) w of
        (Ret _, w') \<Rightarrow> rounds conn (buf(fd := snd (fst (recv_on (c_fd (conn fd)) (buf fd) (w_os w))))) fds w'
      | r \<Rightarrow> r)"

text \<open>The loop is rounds of one connection until the peer has closed.\<close>

lemma handle_loop_round:
  "handle_loop c data w =
     (if fst (fst (recv_on (c_fd c) data (w_os w))) then
        (case handle_round c data w of
           (Ret _, w') \<Rightarrow> handle_loop c (snd (fst (recv_on (c_fd c) data (w_os w)))) w'
         | r \<Rightarrow> r)
      else handle_round c data w)"
proof -
  obtain ok m os' where "recv_on (c_fd c) data (w_os w) = ((ok, m), os')" by (metis prod.collapse)
  then show ?thesis by (simp add: handle_loop.simps [of c data w] handle_round_def split: prod.split outcome.split)
qed

text \<open>
  A client that takes every answer, whose messages \<open>ms\<close> are each complete at the moment they are read,
  however the bytes are cut into segments and whenever the later ones arrive, with the bytes \<open>rest\<close> that
  follow them, and what was written to it so far.
\<close>

definition client_at :: "net_os \<Rightarrow> int \<Rightarrow> bytes list \<Rightarrow> bytes \<Rightarrow> bytes \<Rightarrow> bool" where
  "client_at os fd ms rest got \<longleftrightarrow>
     (\<exists>s x. conn_is os fd s \<and> take_frames ms (rx_buf s, rx_next s) = Some x \<and> pending_of x = rest
        \<and> tx_out s = got \<and> tx_room s = [])"

lemma arrived_client:
  assumes "arrived_at os fd (concat (map frame_bytes ms) @ rest) got" and "list_all (\<lambda>m. m \<noteq> []) ms"
  shows "client_at os fd ms rest got"
  using assms take_frames_arrived [OF assms(2), of rest] by (auto simp: arrived_at_def client_at_def pending_of_def)

lemma client_at_other:
  "on_sock fd f bad os = (r, os') \<Longrightarrow> fd' \<noteq> fd \<Longrightarrow> client_at os' fd' = client_at os fd'"
  by (intro ext) (simp add: client_at_def conn_is_def on_sock_other)

lemma client_at_recv:
  assumes "client_at os fd (m # ms) rest got" and "m \<noteq> []" and "length m \<le> 1048576"
  shows "\<exists>os'. recv_on fd out os = ((True, m), os') \<and> client_at os' fd ms rest got
    \<and> (\<forall>fd'. fd' \<noteq> fd \<longrightarrow> client_at os' fd' = client_at os fd')"
proof -
  obtain s x where s: "conn_is os fd s" "take_frames (m # ms) (rx_buf s, rx_next s) = Some x" "pending_of x = rest"
    "tx_out s = got" "tx_room s = []" using assms(1) by (auto simp: client_at_def)
  then obtain buf evs where t: "take_frame m (rx_buf s, rx_next s) = Some (buf, evs)" "take_frames ms (buf, evs) = Some x"
    by (auto split: option.splits)
  from recv_on_conn [OF s(1) recvMessage_in_time [OF assms(2,3) t(1)]] obtain os' where
    os': "recv_on fd out os = ((True, m), os')" "conn_is os' fd (s\<lparr>rx_buf := buf, rx_next := evs\<rparr>)" by blast
  then have "client_at os' fd ms rest got"
    unfolding client_at_def using t(2) s(3-5)
    by (intro exI [of _ "s\<lparr>rx_buf := buf, rx_next := evs\<rparr>"] exI [of _ x]) simp
  moreover have "\<forall>fd'. fd' \<noteq> fd \<longrightarrow> client_at os' fd' = client_at os fd'"
    using client_at_other [OF os'(1) [unfolded recv_on_def]] by simp
  ultimately show ?thesis using os'(1) by (intro exI [of _ os']) simp
qed

lemma client_at_send:
  assumes "client_at os fd ms rest got"
  shows "client_at (snd (send_on fd m os)) fd ms rest (got @ frame_bytes m)
    \<and> (\<forall>fd'. fd' \<noteq> fd \<longrightarrow> client_at (snd (send_on fd m os)) fd' = client_at os fd')"
proof -
  obtain s x where s: "conn_is os fd s" "take_frames ms (rx_buf s, rx_next s) = Some x" "pending_of x = rest"
    "tx_out s = got" "tx_room s = []" using assms by (auto simp: client_at_def)
  from send_on_conn [OF s(1,5)] obtain os' where
    os': "send_on fd m os = (True, os')" "conn_is os' fd (s\<lparr>tx_out := tx_out s @ frame_bytes m\<rparr>)" by blast
  then have "client_at os' fd ms rest (got @ frame_bytes m)"
    unfolding client_at_def using s by (intro exI [of _ "s\<lparr>tx_out := tx_out s @ frame_bytes m\<rparr>"] exI [of _ x]) simp
  moreover have "\<forall>fd'. fd' \<noteq> fd \<longrightarrow> client_at os' fd' = client_at os fd'"
    using client_at_other [OF os'(1) [unfolded send_on_def]] by simp
  ultimately show ?thesis using os'(1) by simp
qed

text \<open>The connections of one server: they share the libraries, and each is behind its own descriptor.\<close>

definition server_conns :: "'f json_lib \<Rightarrow> 'd rocksdb \<Rightarrow> (int \<Rightarrow> ('f, 'd) Connection) \<Rightarrow> bool" where
  "server_conns js db conn \<longleftrightarrow> json_lib_ok js \<and> rocksdb_ok db
     \<and> (\<forall>fd. c_fd (conn fd) = fd \<and> c_js (conn fd) = js \<and> c_db (conn fd) = db)"

lemma round_answered:
  assumes "server_conns js db conn" and "holds_frames js db (w_store w)" and "request_ok (conn fd) q"
    and "client_at (w_os w) fd (request_text q # ms) rest got" and "writes_ok js db (q # qs) (w_store w)"
    and "respond (c_garbage (conn fd)) (map_request (frame_of js) q) (frames js db (w_store w)) = (a, m)"
  shows "\<exists>w'. handle_round (conn fd) data w = (Ret (), w') \<and> holds_frames js db (w_store w')
    \<and> frames js db (w_store w') = m \<and> writes_ok js db qs (w_store w')
    \<and> client_at (w_os w') fd ms rest (got @ frame_bytes (answer_text js a))
    \<and> (\<forall>fd'. fd' \<noteq> fd \<longrightarrow> client_at (w_os w') fd' = client_at (w_os w) fd')"
proof -
  let ?c = "conn fd"
  have env: "json_lib_ok (c_js ?c)" "rocksdb_ok (c_db ?c)"
    and c: "c_fd ?c = fd" "c_js ?c = js" "c_db ?c = db" using assms(1) by (simp_all add: server_conns_def)
  obtain os' where recv: "recv_on fd data (w_os w) = ((True, request_text q), os')"
    and got: "client_at os' fd ms rest got" "\<forall>fd'. fd' \<noteq> fd \<longrightarrow> client_at os' fd' = client_at (w_os w) fd'"
    using client_at_recv [OF assms(4)] request_text_ok [OF assms(3)] by blast
  let ?w = "w\<lparr>w_os := os'\<rparr>"
  obtain st where st: "handle_message ?c (request_text q) ?w = reply_to ?c (answer_text js a) (?w\<lparr>w_store := st\<rparr>)"
    "holds_frames js db st" "frames js db st = m" "writes_ok js db qs st"
    using request_answered [OF env, of q qs ?w a m] assms(2,3,5,6) c by auto
  from client_at_send [OF got(1), of "answer_text js a"] got(2) st recv c show ?thesis
    by (simp add: handle_round_def reply_to_def)
qed

lemma rounds_answered:
  assumes "server_conns js db conn" and "holds_frames js db (w_store w)"
    and "list_all (\<lambda>(fd, q). request_ok (conn fd) q) qs"
    and "\<And>fd. fd \<in> fds \<Longrightarrow>
      client_at (w_os w) fd (map request_text (of_client fd qs)) (rest fd) (got fd)"
    and "fst ` set qs \<subseteq> fds" and "writes_ok js db (map snd qs) (w_store w)"
    and "respond_all (\<lambda>fd. c_garbage (conn fd)) (frame_requests js qs) (frames js db (w_store w)) = (as, m)"
  shows "\<exists>w'. rounds conn buf (map fst qs) w = (Ret (), w') \<and> holds_frames js db (w_store w') \<and> frames js db (w_store w') = m
    \<and> (\<forall>fd \<in> fds. client_at (w_os w') fd [] (rest fd)
         (got fd @ answers_bytes js (of_client fd as)))"
  using assms(2-7)
proof (induction qs arbitrary: w got as buf)
  case Nil
  then show ?case by auto
next
  case (Cons fq qs)
  obtain fd q where fq: "fq = (fd, q)" by fastforce
  let ?more = "\<lambda>fd'. map request_text (of_client fd' qs)"
  obtain a m1 where a: "respond (c_garbage (conn fd)) (map_request (frame_of js) q) (frames js db (w_store w)) = (a, m1)"
    by fastforce
  obtain as' where as': "respond_all (\<lambda>fd. c_garbage (conn fd)) (frame_requests js qs) m1 = (as', m)"
    and as: "as = (fd, a) # as'"
    using Cons.prems(6) a by (auto simp: fq split: prod.splits)
  have fd: "fd \<in> fds" and ok: "request_ok (conn fd) q" using Cons.prems(2,4) by (simp_all add: fq)
  have "client_at (w_os w) fd (request_text q # ?more fd) (rest fd) (got fd)" "writes_ok js db (q # map snd qs) (w_store w)"
    using Cons.prems(3) [OF fd] Cons.prems(5) by (simp_all add: fq)
  from round_answered [OF assms(1) Cons.prems(1) ok this a, of "buf fd"] obtain w1 where
    w1: "handle_round (conn fd) (buf fd) w = (Ret (), w1)" "holds_frames js db (w_store w1)" "frames js db (w_store w1) = m1"
      "client_at (w_os w1) fd (?more fd) (rest fd) (got fd @ frame_bytes (answer_text js a))"
      "\<forall>fd'. fd' \<noteq> fd \<longrightarrow> client_at (w_os w1) fd' = client_at (w_os w) fd'" "writes_ok js db (map snd qs) (w_store w1)" by blast
  let ?buf = "buf(fd := snd (fst (recv_on (c_fd (conn fd)) (buf fd) (w_os w))))"
  let ?got = "got(fd := got fd @ frame_bytes (answer_text js a))"
  have wait: "client_at (w_os w1) fd' (?more fd') (rest fd') (?got fd')" if "fd' \<in> fds" for fd'
    using w1(4,5) Cons.prems(3) [OF that] by (cases "fd' = fd") (simp_all add: fq)
  have "fst ` set qs \<subseteq> fds" "list_all (\<lambda>(fd, q). request_ok (conn fd) q) qs"
    using Cons.prems(2,4) by (simp_all add: fq)
  from Cons.IH [OF w1(2) this(2) wait this(1) w1(6), of _ ?buf] as' w1(3) obtain w' where
    "rounds conn ?buf (map fst qs) w1 = (Ret (), w')" "holds_frames js db (w_store w')" "frames js db (w_store w') = m"
    "\<forall>fd' \<in> fds. client_at (w_os w') fd' [] (rest fd')
       (?got fd' @ answers_bytes js (of_client fd' as'))" by blast
  with w1(1) show ?case by (intro exI [of _ w']) (auto simp: fq as)
qed

section \<open>Properties\<close>

text \<open>
  C1. The connections of a server refine one frame store. The contract: PING, a STORE of a frame of
  finite numbers that the library can write, and a GET of a key of one word, with keys that the router
  gives to this node and texts of at most 1 MB; every request is complete at the moment its round reads
  it; and the writes of these requests succeed. Then for any number of clients, with the rounds of their
  connections in any order and whatever their buffers hold, no round fails, each client receives exactly
  the bytes of the answers to its own requests, in their order, as one abstract store gives them that
  serves all requests one after the other, and the database ends with exactly the frames of that store.
\<close>

theorem clients_see_one_store:
  assumes "server_conns js db conn" and "holds_frames js db (w_store w)"
    and "list_all (\<lambda>(fd, q). request_ok (conn fd) q) qs"
    and "\<forall>fd \<in> fst ` set qs. client_at (w_os w) fd (map request_text (of_client fd qs)) (rest fd) (got fd)"
    and "writes_ok js db (map snd qs) (w_store w)"
  shows "\<exists>w' as m. rounds conn buf (map fst qs) w = (Ret (), w')
    \<and> respond_all (\<lambda>fd. c_garbage (conn fd)) (frame_requests js qs) (frames js db (w_store w)) = (as, m)
    \<and> frames js db (w_store w') = m
    \<and> (\<forall>fd \<in> fst ` set qs. client_at (w_os w') fd [] (rest fd) (got fd @ answers_bytes js (of_client fd as)))"
proof -
  obtain as m where r: "respond_all (\<lambda>fd. c_garbage (conn fd)) (frame_requests js qs) (frames js db (w_store w)) = (as, m)"
    by fastforce
  obtain w' where "rounds conn buf (map fst qs) w = (Ret (), w')" "frames js db (w_store w') = m"
    "\<forall>fd \<in> fst ` set qs. client_at (w_os w') fd [] (rest fd) (got fd @ answers_bytes js (of_client fd as))"
    using rounds_answered [OF assms(1-3) bspec [OF assms(4)] order.refl assms(5) r] by blast
  with r show ?thesis by (intro exI conjI)
qed

text \<open>
  Two clients: the one behind descriptor 3 stores a frame and pings, the other asks for the frame before
  and in between; its second request arrives after the answer to the first, just in time for the read.
\<close>

definition two_js :: "int json_lib" where
  "two_js = table_js [(frame_json sample_frame, ''{...}''), (frame_json (default_frame (7, 8)), ''{}'')]"

definition two_conn :: "int \<Rightarrow> (int, (string, string) umap) Connection" where
  "two_conn fd = (client_conn two_js)\<lparr>c_fd := fd\<rparr>"

definition two_requests :: "(int \<times> string request) list" where
  "two_requests = [(4, ReqGet ''img''), (3, ReqStore ''{...}''), (4, ReqGet ''img''), (3, ReqPing)]"

definition two_world :: "(string, string) umap world" where
  "two_world = (client_world [])\<lparr>w_os := (client_os [])\<lparr>os_desc :=
     [(3, \<lparr>d_addr = None, d_sock = mk_socket (frame_bytes ''STORE {...}'' @ frame_bytes ''PING'') []\<rparr>),
      (4, \<lparr>d_addr = None, d_sock = mk_socket (frame_bytes ''GET img'') [Arrives [], Arrives [], Arrives (frame_bytes ''GET img'')]\<rparr>)]\<rparr>\<rparr>"

lemma two_js_ok: "json_lib_ok two_js"
  unfolding two_js_def by (rule table_js_ok) simp

lemma two_encode: "encode two_js sample_frame = Ret ''{...}''" "encode two_js (default_frame (7, 8)) = Ret ''{}''"
  by (simp_all add: encode_def two_js_def table_js_def frame_json_def sample_frame_def default_frame_def)

lemma two_decode: "decode two_js ''{...}'' = Ret sample_frame"
proof (rule decode_encode [OF two_js_ok _ _ two_encode(1)])
  show "frame_ok two_js sample_frame" "list_all (box_finite two_js) (boxes sample_frame)"
    by (simp_all add: frame_ok_def box_ok_def box_finite_def float32_def int32_def two_js_def table_js_def sample_frame_def)
qed

lemma two_env: "server_conns two_js memory_db two_conn"
  using two_js_ok memory_db_ok
  by (simp add: server_conns_def two_conn_def client_conn_def)

lemma empty_store: "holds_frames two_js memory_db \<lparr>m_db = Some []\<rparr>" "frames two_js memory_db \<lparr>m_db = Some []\<rparr> = Map.empty"
  by (auto simp: holds_frames_def frames_def storage_get_def get_opened_def memory_db_def)

lemma two_conn_simps: "c_js (two_conn fd) = two_js" "c_garbage (two_conn fd) = (7, 8)" "serves_key (two_conn fd) k"
  using client_picks by (simp_all add: two_conn_def client_conn_def serves_key_def)

lemma two_finite: "list_all (box_finite two_js) (boxes sample_frame)"
  by (simp add: box_finite_def two_js_def table_js_def sample_frame_def)

lemma two_frame: "frame_of two_js ''{...}'' = sample_frame" "image_id sample_frame = ''img''"
  by (simp_all add: frame_of_def ret_or_def two_decode sample_frame_def)

lemma two_world_store: "w_store two_world = \<lparr>m_db = Some []\<rparr>"
  by (simp add: two_world_def client_world_def)

theorem clients_see_one_store_witness:
  "\<exists>w'. rounds two_conn (\<lambda>_. []) [4, 3, 4, 3] two_world = (Ret (), w')
     \<and> client_at (w_os w') 3 [] [] (frame_bytes ''STORE OK'' @ frame_bytes ''PONG'')
     \<and> client_at (w_os w') 4 [] [] (frame_bytes ''{}'' @ frame_bytes ''{...}'')"
proof -
  have held: "holds_frames two_js memory_db (w_store two_world)" by (simp add: two_world_store empty_store)
  have ok: "list_all (\<lambda>(fd, q). request_ok (two_conn fd) q) two_requests"
    using two_conn_simps two_decode two_encode two_finite
    by (simp add: two_requests_def can_encode_def is_word_def is_space_def)
  have wait: "client_at (w_os two_world) fd (map request_text (of_client fd two_requests)) [] []" if "fd \<in> {3, 4}" for fd
    using that by (auto simp: client_at_def conn_is_def two_world_def mk_socket_def two_requests_def take_frame_def
        frame_bytes_def pending_of_def)
  have puts: "writes_ok two_js memory_db (map snd two_requests) (w_store two_world)"
    by (simp add: two_requests_def two_world_store two_frame two_encode storage_put_def put_opened_def memory_db_def)
  have fr: "frames two_js memory_db (w_store two_world) = Map.empty" by (simp add: two_world_store empty_store)
  have clients: "fst ` set two_requests = {3, 4}" "map fst two_requests = [4, 3, 4, 3]" by (auto simp: two_requests_def)
  have spec: "respond_all (\<lambda>fd. c_garbage (two_conn fd)) (frame_requests two_js two_requests) Map.empty
      = ([(4, Found (default_frame (7, 8))), (3, Stored), (4, Found sample_frame), (3, Pong)], [''img'' \<mapsto> sample_frame])"
    by (simp add: two_requests_def two_frame two_conn_simps)
  obtain w' where "rounds two_conn (\<lambda>_. []) [4, 3, 4, 3] two_world = (Ret (), w')"
    and got: "\<forall>fd \<in> {3, 4}. client_at (w_os w') fd [] [] ([] @ answers_bytes two_js (of_client fd
      [(4, Found (default_frame (7, 8))), (3, Stored), (4, Found sample_frame), (3, Pong)]))"
    using clients_see_one_store [OF two_env held ok _ puts, where buf = "\<lambda>_. []" and rest = "\<lambda>_. []" and got = "\<lambda>_. []"] wait
    unfolding clients fr spec by auto
  moreover have "client_at (w_os w') 3 [] [] (frame_bytes ''STORE OK'' @ frame_bytes ''PONG'')"
    "client_at (w_os w') 4 [] [] (frame_bytes ''{}'' @ frame_bytes ''{...}'')"
    using got by (simp_all add: two_encode ret_or_def)
  ultimately show ?thesis by blast
qed

end
