(* ===== verification/Raft_System.thy ===== *)
theory Raft_System
  imports Raft_Properties Transition
begin

text \<open>
  A cluster as one system: all nodes with their databases, the calls between them, and every
  interleaving. An election and a heartbeat round hold the mutex of the node from the first call to
  the last, so the node answers nobody meanwhile, while the others go on: between two calls of a
  node the others take any number of steps, elections and rounds of their own included. A call is
  answered by the handler of the peer, or it fails, or it reads a reply that the peer has given to an
  earlier request of the same node: replies are not matched to requests on the pooled connections
  (\<open>Raft_Rpc.late_reply_answers_next_call\<close>). A request that was sent may be handled at any later
  time and more than once. A reply to the other kind of request lacks the member that the caller reads
  and makes the call fail.

  Nodes do not restart here, and only the nodes of the cluster send requests.
\<close>

section \<open>The state\<close>

text \<open>
  \<open>vote_wire\<close> and \<open>append_wire\<close> are the requests that have been put on the wire, with their
  receivers, and \<open>counted\<close> the votes that candidates have counted: candidate, term of the election,
  voter and reply.
\<close>

record 'd system =
  nodes :: "string \<Rightarrow> RaftNode \<times> 'd"
  history :: "string \<Rightarrow> raft_event list"
  vote_wire :: "(string \<times> RequestVoteArgs) set"
  append_wire :: "(string \<times> AppendEntriesArgs) set"
  counted :: "(string \<times> u64 \<times> string \<times> RequestVoteReply) set"

definition act :: "string \<Rightarrow> RaftNode \<times> 'd \<Rightarrow> raft_event \<Rightarrow> 'd system \<Rightarrow> 'd system" where
  "act i x ev S = S\<lparr>nodes := (nodes S)(i := x), history := (history S)(i := history S i @ [ev])\<rparr>"

definition post_vote :: "string \<Rightarrow> RequestVoteArgs \<Rightarrow> 'd system \<Rightarrow> 'd system" where
  "post_vote p a S = S\<lparr>vote_wire := insert (p, a) (vote_wire S)\<rparr>"

definition post_append :: "string \<Rightarrow> AppendEntriesArgs \<Rightarrow> 'd system \<Rightarrow> 'd system" where
  "post_append p a S = S\<lparr>append_wire := insert (p, a) (append_wire S)\<rparr>"

definition count_votes :: "string \<Rightarrow> u64 \<Rightarrow> (string \<times> RequestVoteArgs \<times> RequestVoteReply option) list \<Rightarrow> 'd system \<Rightarrow> 'd system" where
  "count_votes i t vs S =
     S\<lparr>counted := counted S \<union> {(i, t, p, r) | p a r. (p, a, Some r) \<in> set vs \<and> rvr_voteGranted r}\<rparr>"

text \<open>
  The calls of an operation with their results, for the operation to read: the receiver and the
  arguments have to be those that the operation passes. \<open>None\<close>: they were not.
\<close>

type_synonym vote_call = "string \<times> RequestVoteArgs \<times> RequestVoteReply option"
type_synonym append_call = "string \<times> AppendEntriesArgs \<times> AppendEntriesReply option"
type_synonym calls = "(vote_call list \<times> append_call list) option"

fun called_vote :: "calls rv_send" where
  "called_vote p a (Some ((p', a', r) # vs, as)) =
     (if p = p' \<and> a = a' then (r, Some (vs, as)) else (None, None))"
| "called_vote p a _ = (None, None)"

fun called_append :: "calls ae_send" where
  "called_append p a (Some (vs, (p', a', r) # as)) =
     (if p = p' \<and> a = a' then (r, Some (vs, as)) else (None, None))"
| "called_append p a _ = (None, None)"

section \<open>Steps\<close>

text \<open>
  \<open>system_step N put B\<close>: one node that is not in \<open>B\<close> (the nodes whose mutex is taken) completes an
  operation. \<open>vote_calls\<close> and \<open>append_calls\<close>: the calls of one operation, with what the other nodes do
  in the meantime. Two guards are of the machine and not of the code: a log does not outgrow the
  address space, and a term counter does not wrap around.
\<close>

inductive system_step :: "string set \<Rightarrow> 'd kv_put \<Rightarrow> string set \<Rightarrow> 'd system \<Rightarrow> 'd system \<Rightarrow> bool"
  and vote_calls :: "string set \<Rightarrow> 'd kv_put \<Rightarrow> string set \<Rightarrow> vote_call list \<Rightarrow> 'd system \<Rightarrow> 'd system \<Rightarrow> bool"
  and append_calls :: "string set \<Rightarrow> 'd kv_put \<Rightarrow> string set \<Rightarrow> append_call list \<Rightarrow> 'd system \<Rightarrow> 'd system \<Rightarrow> bool"
  for N put where
  submits: "i \<in> N \<Longrightarrow> i \<notin> B \<Longrightarrow> nodes S i = (s, d) \<Longrightarrow> length (m_logs s) + 1 < 2 ^ 64 \<Longrightarrow> submitLog k v s = Some (ok, s') \<Longrightarrow>
    system_step N put B S (act i (s', d) (EvSubmit k v ok) S)"
| late_vote: "i \<in> N \<Longrightarrow> i \<notin> B \<Longrightarrow> (i, a) \<in> vote_wire S \<Longrightarrow> nodes S i = (s, d) \<Longrightarrow>
    handleRequestVote t a s = Some (r, s') \<Longrightarrow> system_step N put B S (act i (s', d) (EvVote a r) S)"
| late_append: "i \<in> N \<Longrightarrow> i \<notin> B \<Longrightarrow> (i, b) \<in> append_wire S \<Longrightarrow> nodes S i = (s, d) \<Longrightarrow>
    handleAppendEntries put t b s d = Some (q, s', d') \<Longrightarrow> system_step N put B S (act i (s', d') (EvAppend b q) S)"
| elects: "i \<in> N \<Longrightarrow> i \<notin> B \<Longrightarrow> nodes S i = (s, d) \<Longrightarrow> m_state s \<noteq> Leader \<Longrightarrow> m_currentTerm s + 1 \<noteq> 0 \<Longrightarrow>
    vote_calls N put (insert i B) vs S S1 \<Longrightarrow>
    startElection called_vote t s (Some (vs, [])) = Some (s', Some ([], [])) \<Longrightarrow>
    system_step N put B S
      (act i (s', d) (EvElection (m_currentTerm s + 1)
         (granters called_vote (vote_request s) (m_peers s) (m_currentTerm s + 1) (Some (vs, []))) (m_state s' = Leader))
        (count_votes i (m_currentTerm s + 1) vs S1))"
| beats: "i \<in> N \<Longrightarrow> i \<notin> B \<Longrightarrow> nodes S i = (s, d) \<Longrightarrow> append_calls N put (insert i B) as S S1 \<Longrightarrow>
    heartbeatLoop_round called_append put s (Some ([], as)) d = Some (s', Some ([], []), d') \<Longrightarrow>
    system_step N put B S (act i (s', d') EvHeartbeat S1)"
| votes_done: "vote_calls N put B [] S S"
| vote_fails: "vote_calls N put B vs (post_vote p a S) S' \<Longrightarrow> vote_calls N put B ((p, a, None) # vs) S S'"
| vote_answered: "p \<in> N \<Longrightarrow> p \<notin> B \<Longrightarrow> nodes S p = (s, d) \<Longrightarrow> handleRequestVote t a s = Some (r, s') \<Longrightarrow>
    vote_calls N put B vs (act p (s', d) (EvVote a r) (post_vote p a S)) S' \<Longrightarrow>
    vote_calls N put B ((p, a, Some r) # vs) S S'"
| vote_stale: "EvVote a' r \<in> set (history S p) \<Longrightarrow> rv_candidateId a' = rv_candidateId a \<Longrightarrow>
    vote_calls N put B vs (post_vote p a S) S' \<Longrightarrow> vote_calls N put B ((p, a, Some r) # vs) S S'"
| vote_meanwhile: "system_step N put B S S1 \<Longrightarrow> vote_calls N put B vs S1 S' \<Longrightarrow> vote_calls N put B vs S S'"
| appends_done: "append_calls N put B [] S S"
| append_fails: "append_calls N put B as (post_append p b S) S' \<Longrightarrow> append_calls N put B ((p, b, None) # as) S S'"
| append_answered: "p \<in> N \<Longrightarrow> p \<notin> B \<Longrightarrow> nodes S p = (s, d) \<Longrightarrow> handleAppendEntries put t b s d = Some (q, s', d') \<Longrightarrow>
    append_calls N put B as (act p (s', d') (EvAppend b q) (post_append p b S)) S' \<Longrightarrow>
    append_calls N put B ((p, b, Some q) # as) S S'"
| append_stale: "EvAppend b' q \<in> set (history S p) \<Longrightarrow> ae_leaderId b' = ae_leaderId b \<Longrightarrow>
    append_calls N put B as (post_append p b S) S' \<Longrightarrow> append_calls N put B ((p, b, Some q) # as) S S'"
| append_meanwhile: "system_step N put B S S1 \<Longrightarrow> append_calls N put B as S1 S' \<Longrightarrow> append_calls N put B as S S'"

definition system_init :: "(string \<Rightarrow> timer) \<Rightarrow> (string \<Rightarrow> string list) \<Rightarrow> (string \<Rightarrow> 'd) \<Rightarrow> 'd system" where
  "system_init tm ps d0 = \<lparr>nodes = (\<lambda>i. (RaftNode_init (tm i) i (ps i), d0 i)), history = (\<lambda>_. []),
     vote_wire = {}, append_wire = {}, counted = {}\<rparr>"

definition system_reach ::
  "string set \<Rightarrow> 'd kv_put \<Rightarrow> (string \<Rightarrow> timer) \<Rightarrow> (string \<Rightarrow> string list) \<Rightarrow> (string \<Rightarrow> 'd) \<Rightarrow> 'd system \<Rightarrow> bool" where
  "system_reach N put tm ps d0 = (system_step N put {})\<^sup>*\<^sup>* (system_init tm ps d0)"

section \<open>What a node sends\<close>

text \<open>The calls that an election has used up are requests for its own candidacy.\<close>

lemma election_loop_stuck [simp]: "snd (election_loop called_vote args ps votes s None) = None"
  by (induction ps arbitrary: votes) simp_all

lemma called_vote_cases:
  "called_vote p a w = (r, w') \<Longrightarrow> w' = None \<and> r = None \<or> (\<exists>vs as. w = Some ((p, a, r) # vs, as) \<and> w' = Some (vs, as))"
  by (cases "(p, a, w)" rule: called_vote.cases) (auto split: if_splits)

lemma called_append_cases:
  "called_append p a w = (r, w') \<Longrightarrow> w' = None \<and> r = None \<or> (\<exists>vs as. w = Some (vs, (p, a, r) # as) \<and> w' = Some (vs, as))"
  by (cases "(p, a, w)" rule: called_append.cases) (auto split: if_splits)

lemma election_loop_calls:
  "election_loop called_vote args ps votes s (Some (vs, as)) = (res, Some ([], [])) \<Longrightarrow>
   \<forall>(p, a, r) \<in> set vs. a = args"
proof (induction ps arbitrary: votes vs)
  case (Cons p ps)
  obtain r w where c: "called_vote p args (Some (vs, as)) = (r, w)" by fastforce
  show ?case
  proof (cases w)
    case None
    with called_vote_cases [OF c] have "r = None" by simp
    with Cons.prems c None have "snd (election_loop called_vote args ps votes s None) = Some ([], [])" by simp
    then show ?thesis by simp
  next
    case (Some x)
    with called_vote_cases [OF c] obtain vs' where vs: "vs = (p, args, r) # vs'" and w: "w = Some (vs', as)" by auto
    with Cons.prems c have "vs' = [] \<or> (\<exists>votes. election_loop called_vote args ps votes s (Some (vs', as)) = (res, Some ([], [])))"
      by (auto split: option.splits if_splits)
    with Cons.IH [of _ vs'] vs show ?thesis by fastforce
  qed
qed simp

lemma granters_calls:
  "p \<in> set (granters called_vote args ps t (Some (vs, as))) \<Longrightarrow> \<exists>r. (p, args, Some r) \<in> set vs \<and> rvr_voteGranted r"
proof (induction ps arbitrary: vs)
  case (Cons q ps)
  have stuck: "granters called_vote args ps t None = []" for ps by (induction ps) simp_all
  obtain r w where c: "called_vote q args (Some (vs, as)) = (r, w)" by fastforce
  show ?case
  proof (cases w)
    case None
    with called_vote_cases [OF c] Cons.prems c stuck show ?thesis by simp
  next
    case (Some x)
    with called_vote_cases [OF c] obtain vs' where vs: "vs = (q, args, r) # vs'" and w: "w = Some (vs', as)" by auto
    with Cons.prems c have "p = q \<and> (\<exists>x. r = Some x \<and> rvr_voteGranted x) \<or> p \<in> set (granters called_vote args ps t (Some (vs', as)))"
      by (auto split: option.splits if_splits)
    with Cons.IH [of vs'] vs show ?thesis by auto
  qed
qed simp

lemma startElection_calls:
  assumes "startElection called_vote t s (Some (vs, [])) = Some (s', Some ([], []))"
  shows "\<forall>(p, a, r) \<in> set vs. a = vote_request s"
proof -
  from startElection_unfold [OF assms] obtain s1 res where
    "election_loop called_vote (vote_request s) (m_peers s) 1 s1 (Some (vs, [])) = (res, Some ([], []))" by blast
  then show ?thesis by (rule election_loop_calls)
qed

text \<open>
  The calls of a heartbeat round carry no entries, and the entry before them is one of the leader's.
\<close>

definition sent_append :: "LogEntry list \<Rightarrow> AppendEntriesArgs \<Rightarrow> bool" where
  "sent_append logs b \<longleftrightarrow> ae_entries b = [] \<and> unat (ae_prevLogIndex b) < length logs"

lemma heartbeat_peer_calls:
  assumes "heartbeat_peer called_append put p s w d = Some (brk, s', w', d')"
  shows "m_logs s' = m_logs s \<and> (w' = None \<and> brk = False
    \<or> (\<exists>vs b r as. w = Some (vs, (p, b, r) # as) \<and> w' = Some (vs, as) \<and> sent_append (m_logs s) b))"
proof -
  obtain n ni where n: "um_index 0 p (m_nextIndex s) = (n, ni)" by fastforce
  let ?s = "s\<lparr>m_nextIndex := ni\<rparr>"
  obtain e where e: "vec_at (m_logs s) (n - 1) = Some e"
    using assms n by (auto simp: heartbeat_peer_def Let_def split: option.splits)
  let ?b = "\<lparr>ae_term = m_currentTerm s, ae_leaderId = m_nodeId s, ae_prevLogIndex = n - 1,
    ae_prevLogTerm = log_term e, ae_entries = [], ae_leaderCommit = m_commitIndex s\<rparr>"
  obtain r w1 where c: "called_append p ?b w = (r, w1)" by fastforce
  have "sent_append (m_logs s) ?b" using e by (simp add: sent_append_def vec_at_eq_Some)
  moreover have "w' = w1" "m_logs s' = m_logs s" "r = None \<Longrightarrow> brk = False"
    using assms n e c
    by (auto simp: heartbeat_peer_def Let_def dest!: advanceCommit_frame split: option.splits if_splits prod.splits)
  ultimately show ?thesis using called_append_cases [OF c] by auto
qed

lemma heartbeat_peers_stuck:
  "heartbeat_peers called_append put ps s None d = Some (s', w', d') \<Longrightarrow> w' = None"
proof (induction ps arbitrary: s d)
  case (Cons p ps)
  from Cons.prems obtain brk s1 w1 d1 where h: "heartbeat_peer called_append put p s None d = Some (brk, s1, w1, d1)"
    by (auto split: option.splits)
  from heartbeat_peer_calls [OF h] have "w1 = None" "brk = False" by auto
  with Cons h show ?case by auto
qed simp

lemma heartbeat_peers_calls:
  "heartbeat_peers called_append put ps s (Some (vs, as)) d = Some (s', Some ([], []), d') \<Longrightarrow>
   m_logs s' = m_logs s \<and> (\<forall>(p, b, r) \<in> set as. sent_append (m_logs s) b)"
proof (induction ps arbitrary: s as d)
  case (Cons p ps)
  from Cons.prems obtain brk s1 w1 d1 where h: "heartbeat_peer called_append put p s (Some (vs, as)) d = Some (brk, s1, w1, d1)"
    by (auto split: option.splits)
  note c = heartbeat_peer_calls [OF h]
  show ?case
  proof (cases w1)
    case None
    with c h Cons.prems show ?thesis using heartbeat_peers_stuck by fastforce
  next
    case (Some x)
    with c obtain b r as' where as: "as = (p, b, r) # as'" and w1: "w1 = Some (vs, as')" and b: "sent_append (m_logs s) b" by auto
    show ?thesis
    proof (cases brk)
      case True
      with Cons.prems h w1 c as b show ?thesis by auto
    next
      case False
      with Cons.prems h w1 have "heartbeat_peers called_append put ps s1 (Some (vs, as')) d1 = Some (s', Some ([], []), d')" by simp
      from Cons.IH [OF this] c as b show ?thesis by auto
    qed
  qed
qed simp

lemma heartbeatLoop_round_calls:
  assumes "heartbeatLoop_round called_append put s (Some ([], as)) d = Some (s', Some ([], []), d')"
  shows "m_logs s' = m_logs s \<and> (\<forall>(p, b, r) \<in> set as. sent_append (m_logs s) b)"
  using assms heartbeat_peers_calls [of put "m_peers s" s "[]" as d s' d']
  by (cases "m_state s = Leader") (simp_all add: heartbeatLoop_round_def)

section \<open>Leaders and logs of one node\<close>

text \<open>A leader has won an election of its present term.\<close>

lemma heartbeat_peer_leader:
  assumes "heartbeat_peer send put p s w d = Some (brk, s', w', d')" and "m_state s' = Leader"
  shows "m_state s = Leader \<and> m_currentTerm s' = m_currentTerm s"
  using assms unfolding heartbeat_peer_def
  by (auto simp: Let_def dest!: advanceCommit_frame split: prod.splits option.splits if_splits)

lemma heartbeat_peers_leader:
  "heartbeat_peers send put ps s w d = Some (s', w', d') \<Longrightarrow> m_state s' = Leader \<Longrightarrow>
   m_state s = Leader \<and> m_currentTerm s' = m_currentTerm s"
proof (induction ps arbitrary: s w d)
  case (Cons p ps)
  from Cons.prems obtain brk s1 w1 d1 where h: "heartbeat_peer send put p s w d = Some (brk, s1, w1, d1)"
    by (auto split: option.splits)
  with Cons have "m_state s1 = Leader \<and> m_currentTerm s' = m_currentTerm s1" by (cases brk) auto
  with heartbeat_peer_leader [OF h] show ?case by simp
qed simp

lemma raft_step_leader:
  assumes "raft_step rvs aes put (s, d) ev (s', d')" and "m_state s' = Leader"
  shows "m_state s = Leader \<and> m_currentTerm s' = m_currentTerm s \<or> (\<exists>gs. ev = EvElection (m_currentTerm s') gs True)"
  using assms(1)
proof cases
  case (vote t args r)
  with assms(2) show ?thesis
    by (auto simp: handleRequestVote_def Let_def split: if_splits option.splits)
next
  case (append t args r)
  then have "s' = s"
    using assms(2)
    by (auto simp: handleAppendEntries_def Let_def dest!: applyCommittedLogs_frame
        split: if_splits option.splits prod.splits)
  with assms(2) show ?thesis by simp
next
  case (submit k v ok)
  with assms(2) show ?thesis by (auto simp: submitLog_def Let_def split: if_splits option.splits)
next
  case (election t w w')
  from startElection_unfold [OF election(4)] obtain s1 s2 down votes w2 where
    s1: "s1 = resetElectionTimer t
        (s\<lparr>m_state := Candidate, m_currentTerm := m_currentTerm s + 1, m_votedFor := m_nodeId s\<rparr>)"
    and loop: "election_loop rvs (vote_request s) (m_peers s) 1 s1 w = ((down, votes, s2), w2)"
    and res: "if \<not> down \<and> votes \<ge> majority (m_peers s)
       then s' = init_indices (m_peers s) (vec_size (m_logs s)) (s1\<lparr>m_state := Leader\<rparr>) \<and> s2 = s1
       else s' = s2" by blast
  have "m_state s2 \<noteq> Leader" using election_loop_fields [OF loop] s1 by (cases down) auto
  then have "m_currentTerm s' = m_currentTerm s + 1" using res assms(2) s1 by (auto split: if_splits)
  with election assms(2) show ?thesis by auto
next
  case (heartbeat w w')
  with assms(2) show ?thesis
    using heartbeat_peers_leader [of aes put "m_peers s" s w d s' w' d']
    by (cases "m_state s = Leader") (simp_all add: heartbeatLoop_round_def)
qed

lemma raft_run_leader:
  assumes "raft_run rvs aes put x evs y" and "m_state (fst x) \<noteq> Leader" and "m_state (fst y) = Leader"
  shows "\<exists>gs. EvElection (m_currentTerm (fst y)) gs True \<in> set evs"
  using assms
proof (induction rule: raft_run.induct)
  case (step evs y ev z)
  from step.hyps(2) have "raft_step rvs aes put (fst y, snd y) ev (fst z, snd z)" by simp
  from raft_step_leader [OF this step.prems(2)] step show ?case by auto
qed simp

text \<open>
  The events of a cluster: candidates have names, and the only requests for entries are heartbeats.
\<close>

fun event_sent :: "raft_event \<Rightarrow> bool" where
  "event_sent (EvVote a r) \<longleftrightarrow> rv_candidateId a \<noteq> []"
| "event_sent (EvAppend b q) \<longleftrightarrow> ae_entries b = [] \<and> ae_ok b"
| "event_sent (EvElection t gs l) \<longleftrightarrow> t \<noteq> 0"
| "event_sent _ \<longleftrightarrow> True"

lemma event_sent_ok: "event_sent ev \<Longrightarrow> event_ok ev \<and> vote_ok ev"
  by (cases ev) simp_all

text \<open>The entries that a node has accepted as leader, and its log without the first entry.\<close>

fun event_submitted :: "raft_event \<Rightarrow> (string \<times> string) list" where
  "event_submitted (EvSubmit k v ok) = (if ok then [(k, v)] else [])"
| "event_submitted _ = []"

definition submitted :: "raft_event list \<Rightarrow> (string \<times> string) list" where
  "submitted evs = concat (map event_submitted evs)"

lemma submitted_simps [simp]: "submitted [] = []" "submitted (evs @ [ev]) = submitted evs @ event_submitted ev"
  by (simp_all add: submitted_def)

definition log_pairs :: "LogEntry list \<Rightarrow> (string \<times> string) list" where
  "log_pairs logs = map (\<lambda>e. (log_key e, log_value e)) (tl logs)"

lemma raft_step_log:
  assumes "raft_step rvs aes put (s, d) ev (s', d')" and "event_sent ev" and "raft_wf s"
  shows "log_pairs (m_logs s') = log_pairs (m_logs s) @ event_submitted ev"
  using assms(1)
proof cases
  case (vote t args r)
  then show ?thesis using handleRequestVote_fields(1) [OF vote(3)] by (simp add: same_log_def)
next
  case (append t args r)
  with assms(2) have "ae_entries args = []" and ok: "ae_ok args" by simp_all
  moreover have "ae_spec put t args s d = (r, s', d')"
    using handleAppendEntries_spec [OF _ ok, of s put t d] append assms(3) by (simp add: raft_wf_def)
  ultimately have "m_logs s' = m_logs s" using ae_spec_logs [of put t args s d] by (simp split: if_splits)
  with append show ?thesis by simp
next
  case (submit k v ok)
  have "m_logs s \<noteq> []" using assms(3) by (simp add: raft_wf_def)
  with submit show ?thesis
    by (auto simp: submitLog_def Let_def log_pairs_def split: if_splits)
next
  case (election t w w')
  then show ?thesis using startElection_wf [OF assms(3), of rvs t w] by (auto simp: same_log_def)
next
  case (heartbeat w w')
  then show ?thesis using heartbeatLoop_round_wf [OF assms(3), of aes put w d] by (auto simp: same_log_def)
qed

section \<open>The invariant\<close>

definition member_ok :: "'d kv_put \<Rightarrow> string \<Rightarrow> string list \<Rightarrow> raft_event list \<Rightarrow> RaftNode \<times> 'd \<Rightarrow> bool" where
  "member_ok put i ps evs y \<longleftrightarrow>
     (\<exists>t d0. raft_run called_vote called_append put (RaftNode_init t i ps, d0) evs y)
   \<and> (\<forall>ev \<in> set evs. event_sent ev) \<and> raft_wf (fst y) \<and> log_pairs (m_logs (fst y)) = submitted evs"

text \<open>
  Every counted vote was given to the candidate, in the term of its reply, and every voter of an
  election has been counted.
\<close>

definition counted_ok :: "string set \<Rightarrow> 'd system \<Rightarrow> bool" where
  "counted_ok N S \<longleftrightarrow> (\<forall>(i, t, p, r) \<in> counted S. (rvr_term r, i) \<in> votes_of p (history S p))
   \<and> (\<forall>i \<in> N. \<forall>t gs l p. EvElection t gs l \<in> set (history S i) \<longrightarrow> p \<in> set gs \<longrightarrow> (\<exists>r. (i, t, p, r) \<in> counted S))"

definition system_inv :: "string set \<Rightarrow> 'd kv_put \<Rightarrow> (string \<Rightarrow> string list) \<Rightarrow> 'd system \<Rightarrow> bool" where
  "system_inv N put ps S \<longleftrightarrow> (\<forall>i \<in> N. member_ok put i (ps i) (history S i) (nodes S i))
   \<and> counted_ok N S
   \<and> (\<forall>(p, a) \<in> vote_wire S. rv_candidateId a \<noteq> []) \<and> (\<forall>(p, b) \<in> append_wire S. ae_entries b = [] \<and> ae_ok b)"

lemma member_init: "member_ok put i ps [] (RaftNode_init t i ps, d)"
proof -
  have "log_pairs (m_logs (RaftNode_init t i ps)) = []" by (simp add: RaftNode_init_def log_pairs_def)
  then show ?thesis using RaftNode_init_wf [of t i ps] raft_run.start unfolding member_ok_def by fastforce
qed

lemma member_step:
  assumes "member_ok put i ps evs (s, d)" and "raft_step called_vote called_append put (s, d) ev (s', d')"
    and "event_sent ev" and "length (m_logs s) + event_entries ev < 2 ^ 64"
  shows "member_ok put i ps (evs @ [ev]) (s', d')"
proof -
  from assms(1) obtain t d0 where run: "raft_run called_vote called_append put (RaftNode_init t i ps, d0) evs (s, d)"
    and ok: "\<forall>ev \<in> set evs. event_sent ev" and wf: "raft_wf s" and log: "log_pairs (m_logs s) = submitted evs"
    by (auto simp: member_ok_def)
  have "raft_wf s'" using raft_step_wf [OF assms(2) wf _ assms(4)] event_sent_ok [OF assms(3)] by simp
  moreover have "log_pairs (m_logs s') = submitted (evs @ [ev])" using raft_step_log [OF assms(2,3) wf] log by simp
  ultimately show ?thesis using raft_run.step [OF run assms(2)] ok assms(3) by (auto simp: member_ok_def)
qed

text \<open>A node under its name and with its peers; its log leaves room for a heartbeat.\<close>

lemma member_facts:
  assumes "member_ok put i ps evs (s, d)" and "i \<noteq> []"
  shows "m_nodeId s = i" "m_peers s = ps" "length (m_logs s) < 2 ^ 64"
proof -
  from assms(1) obtain t d0 where run: "raft_run called_vote called_append put (RaftNode_init t i ps, d0) evs (s, d)"
    and ok: "\<forall>ev \<in> set evs. vote_ok ev" and wf: "raft_wf s"
    using event_sent_ok by (auto simp: member_ok_def)
  from raft_run_votes [OF run refl assms(2) ok] show "m_nodeId s = i" "m_peers s = ps" by simp_all
  from wf show "length (m_logs s) < 2 ^ 64" by (simp add: raft_wf_def log_ok_def)
qed

lemma sent_append_ok: "sent_append logs b \<Longrightarrow> length logs < 2 ^ 64 \<Longrightarrow> ae_entries b = [] \<and> ae_ok b"
  by (simp add: sent_append_def ae_ok_def)

text \<open>Votes that have been given stay given.\<close>

lemma votes_of_mono: "set evs \<subseteq> set evs' \<Longrightarrow> votes_of i evs \<subseteq> votes_of i evs'"
  by (auto simp: votes_of_def)

lemma counted_ok_act:
  assumes "counted_ok N S"
    and "\<And>t gs l p. ev = EvElection t gs l \<Longrightarrow> p \<in> set gs \<Longrightarrow> \<exists>r. (i, t, p, r) \<in> counted S"
  shows "counted_ok N (act i x ev S)"
proof -
  have "votes_of p (history S p) \<subseteq> votes_of p (history (act i x ev S) p)" for p
    by (rule votes_of_mono) (auto simp: act_def)
  then show ?thesis using assms by (fastforce simp: counted_ok_def act_def)
qed

lemma inv_act:
  assumes "system_inv N put ps S" and "i \<in> N" and "nodes S i = (s, d)"
    and "raft_step called_vote called_append put (s, d) ev (s', d')" and "event_sent ev"
    and "length (m_logs s) + event_entries ev < 2 ^ 64"
    and "\<And>t gs l p. ev = EvElection t gs l \<Longrightarrow> p \<in> set gs \<Longrightarrow> \<exists>r. (i, t, p, r) \<in> counted S"
  shows "system_inv N put ps (act i (s', d') ev S)"
proof -
  have "member_ok put i (ps i) (history S i) (s, d)" using assms(1-3) by (auto simp: system_inv_def)
  from member_step [OF this assms(4-6)] counted_ok_act [of N S ev i "(s', d')"] assms(1,7) show ?thesis
    by (auto simp: system_inv_def) (auto simp: act_def)
qed

lemma inv_post:
  "system_inv N put ps S \<Longrightarrow> rv_candidateId a \<noteq> [] \<Longrightarrow> system_inv N put ps (post_vote p a S)"
  "system_inv N put ps S \<Longrightarrow> ae_entries b = [] \<Longrightarrow> ae_ok b \<Longrightarrow> system_inv N put ps (post_append p b S)"
  by (auto simp: system_inv_def counted_ok_def post_vote_def post_append_def)

text \<open>What a step does not touch: the nodes whose mutex is taken, and the past.\<close>

definition grows :: "string set \<Rightarrow> 'd system \<Rightarrow> 'd system \<Rightarrow> bool" where
  "grows B S S' \<longleftrightarrow> (\<forall>i \<in> B. nodes S' i = nodes S i \<and> history S' i = history S i)
     \<and> (\<forall>i. set (history S i) \<subseteq> set (history S' i))"

lemma grows_refl [simp]: "grows B S S"
  by (simp add: grows_def)

lemma grows_trans: "grows B S S1 \<Longrightarrow> grows B S1 S' \<Longrightarrow> grows B S S'"
  unfolding grows_def by (metis subset_trans)

lemma grows_act: "grows B S S1 \<Longrightarrow> i \<notin> B \<Longrightarrow> grows B S (act i x ev S1)"
  by (auto simp: grows_def act_def)

lemma grows_post [simp]: "grows B S (post_vote p a S)" "grows B S (post_append p b S)"
  by (simp_all add: grows_def post_vote_def post_append_def)

lemma grows_less: "grows (insert i B) S S' \<Longrightarrow> grows B S S'"
  by (simp add: grows_def)

lemma post_simps [simp]:
  "nodes (post_vote p a S) = nodes S" "history (post_vote p a S) = history S"
  "nodes (post_append p b S) = nodes S" "history (post_append p b S) = history S"
  "nodes (count_votes i t vs S) = nodes S" "history (count_votes i t vs S) = history S"
  by (simp_all add: post_vote_def post_append_def count_votes_def)

text \<open>The granted votes of a list of calls were given to the candidate, in the term of the reply.\<close>

definition calls_recorded :: "vote_call list \<Rightarrow> 'd system \<Rightarrow> bool" where
  "calls_recorded vs S \<longleftrightarrow> (\<forall>p a r. (p, a, Some r) \<in> set vs \<longrightarrow> rvr_voteGranted r \<longrightarrow>
     (rvr_term r, rv_candidateId a) \<in> votes_of p (history S p))"

lemma given_vote: "EvVote a r \<in> set evs \<Longrightarrow> rvr_voteGranted r \<Longrightarrow> (rvr_term r, rv_candidateId a) \<in> votes_of p evs"
  by (force simp: votes_of_def)

lemma inv_count:
  assumes "system_inv N put ps S" and "calls_recorded vs S" and "\<forall>(p, a, r) \<in> set vs. rv_candidateId a = i"
  shows "system_inv N put ps (count_votes i t vs S)"
proof -
  have "counted_ok N (count_votes i t vs S)"
    using assms by (fastforce simp: system_inv_def counted_ok_def calls_recorded_def count_votes_def)
  with assms(1) show ?thesis by (simp add: system_inv_def) (simp add: count_votes_def)
qed

lemma inv_room:
  assumes "system_inv N put ps S" and "i \<in> N" and "nodes S i = (s, d)"
  shows "length (m_logs s) < 2 ^ 64"
proof -
  have "raft_wf (fst (nodes S i))" using assms(1,2) by (simp add: system_inv_def member_ok_def)
  with assms(3) show ?thesis by (simp add: raft_wf_def log_ok_def)
qed

lemma inv_vote:
  assumes "system_inv N put ps S" and "i \<in> N" and "nodes S i = (s, d)"
    and "handleRequestVote t a s = Some (r, s')" and "rv_candidateId a \<noteq> []"
  shows "system_inv N put ps (act i (s', d) (EvVote a r) S)"
  using inv_room [OF assms(1-3)] assms(5) by (intro inv_act [OF assms(1-3) raft_step.vote [OF assms(4)]]) simp_all

lemma inv_append:
  assumes "system_inv N put ps S" and "i \<in> N" and "nodes S i = (s, d)"
    and "handleAppendEntries put t b s d = Some (q, s', d')" and "ae_entries b = []" and "ae_ok b"
  shows "system_inv N put ps (act i (s', d') (EvAppend b q) S)"
  using inv_room [OF assms(1-3)] assms(5,6) by (intro inv_act [OF assms(1-3) raft_step.append [OF assms(4)]]) simp_all

lemma inv_elects:
  assumes "system_inv N put ps S1" and "i \<in> N" and "i \<noteq> []" and "nodes S1 i = (s, d)"
    and "m_state s \<noteq> Leader" and "m_currentTerm s + 1 \<noteq> 0" and "calls_recorded vs S1"
    and "startElection called_vote t s (Some (vs, [])) = Some (s', Some ([], []))"
  shows "system_inv N put ps (act i (s', d) (EvElection (m_currentTerm s + 1)
     (granters called_vote (vote_request s) (m_peers s) (m_currentTerm s + 1) (Some (vs, []))) (m_state s' = Leader))
     (count_votes i (m_currentTerm s + 1) vs S1))"
proof (rule inv_act [OF inv_count [OF assms(1,7)] assms(2) _ raft_step.election [OF assms(5,8)]])
  have "m_nodeId s = i" using member_facts(1) [of put i "ps i" "history S1 i"] assms(1-4) by (auto simp: system_inv_def)
  then show "\<forall>(p, a, r) \<in> set vs. rv_candidateId a = i"
    using startElection_calls [OF assms(8)] by (auto simp: vote_request_def)
  fix tt gs l p
  assume "EvElection (m_currentTerm s + 1)
      (granters called_vote (vote_request s) (m_peers s) (m_currentTerm s + 1) (Some (vs, []))) (m_state s' = Leader)
    = EvElection tt gs l" and "p \<in> set gs"
  then have tt: "tt = m_currentTerm s + 1"
    and "p \<in> set (granters called_vote (vote_request s) (m_peers s) (m_currentTerm s + 1) (Some (vs, [])))" by auto
  with granters_calls [of p "vote_request s"] obtain r where "(p, vote_request s, Some r) \<in> set vs" "rvr_voteGranted r" by blast
  with tt show "\<exists>r. (i, tt, p, r) \<in> counted (count_votes i (m_currentTerm s + 1) vs S1)" by (auto simp: count_votes_def)
qed (use assms(4,6) inv_room [OF assms(1,2,4)] in simp_all)

lemma calls_recorded_Cons:
  assumes "calls_recorded vs S'" and "grows B S1 S'"
    and "\<And>x. r = Some x \<Longrightarrow> rvr_voteGranted x \<Longrightarrow> (rvr_term x, rv_candidateId a) \<in> votes_of p (history S1 p)"
  shows "calls_recorded ((p, a, r) # vs) S'"
  using assms votes_of_mono [of "history S1 p" "history S' p" p] by (auto simp: calls_recorded_def grows_def)

text \<open>One lemma per kind of step that makes or takes calls.\<close>

lemma preserved_elects:
  assumes "system_inv N put ps S" and "i \<in> N" and "i \<notin> B" and "i \<noteq> []" and "nodes S i = (s, d)"
    and "m_state s \<noteq> Leader" and "m_currentTerm s + 1 \<noteq> 0"
    and "startElection called_vote t s (Some (vs, [])) = Some (s', Some ([], []))"
    and "\<forall>(p, a, r) \<in> set vs. rv_candidateId a \<noteq> [] \<Longrightarrow>
      system_inv N put ps S1 \<and> grows (insert i B) S S1 \<and> calls_recorded vs S1"
    and "ev = EvElection (m_currentTerm s + 1)
      (granters called_vote (vote_request s) (m_peers s) (m_currentTerm s + 1) (Some (vs, []))) (m_state s' = Leader)"
  shows "system_inv N put ps (act i (s', d) ev (count_votes i (m_currentTerm s + 1) vs S1))
    \<and> grows B S (act i (s', d) ev (count_votes i (m_currentTerm s + 1) vs S1))"
proof -
  have "m_nodeId s = i"
    using member_facts(1) [of put i "ps i" "history S i" s d] assms(1,2,4,5) by (auto simp: system_inv_def)
  then have "\<forall>(p, a, r) \<in> set vs. rv_candidateId a \<noteq> []"
    using startElection_calls [OF assms(8)] assms(4) by (auto simp: vote_request_def)
  with assms(9) have S1: "system_inv N put ps S1" "grows (insert i B) S S1" "calls_recorded vs S1" by auto
  then have "nodes S1 i = (s, d)" using assms(5) by (simp add: grows_def)
  have "grows B S (count_votes i (m_currentTerm s + 1) vs S1)" using grows_less [OF S1(2)] by (simp add: grows_def)
  from inv_elects [OF S1(1) assms(2,4) \<open>nodes S1 i = (s, d)\<close> assms(6,7) S1(3) assms(8)] grows_act [OF this assms(3)]
  show ?thesis unfolding assms(10) by blast
qed

lemma preserved_beats:
  assumes "system_inv N put ps S" and "i \<in> N" and "i \<notin> B" and "nodes S i = (s, d)"
    and "heartbeatLoop_round called_append put s (Some ([], as)) d = Some (s', Some ([], []), d')"
    and "\<forall>(p, b, r) \<in> set as. ae_entries b = [] \<and> ae_ok b \<Longrightarrow> system_inv N put ps S1 \<and> grows (insert i B) S S1"
  shows "system_inv N put ps (act i (s', d') EvHeartbeat S1) \<and> grows B S (act i (s', d') EvHeartbeat S1)"
proof -
  have "\<forall>(p, b, r) \<in> set as. ae_entries b = [] \<and> ae_ok b"
    using heartbeatLoop_round_calls [OF assms(5)] sent_append_ok inv_room [OF assms(1,2,4)] by fast
  with assms(6) have S1: "system_inv N put ps S1" "grows (insert i B) S S1" by auto
  then have n: "nodes S1 i = (s, d)" using assms(4) by (simp add: grows_def)
  from inv_act [OF S1(1) assms(2) n raft_step.heartbeat [OF assms(5)]] inv_room [OF S1(1) assms(2) n]
    grows_act [OF grows_less [OF S1(2)] assms(3)]
  show ?thesis by simp
qed

lemma preserved_vote_answered:
  assumes "system_inv N put ps S" and "p \<in> N" and "p \<notin> B" and "nodes S p = (s, d)"
    and "handleRequestVote t a s = Some (r, s')" and "rv_candidateId a \<noteq> []"
    and "T = act p (s', d) (EvVote a r) (post_vote p a S)"
    and "system_inv N put ps T \<Longrightarrow> system_inv N put ps S' \<and> grows B T S' \<and> calls_recorded vs S'"
  shows "system_inv N put ps S' \<and> grows B S S' \<and> calls_recorded ((p, a, Some r) # vs) S'"
proof -
  have "system_inv N put ps T"
    using inv_vote [OF inv_post(1) [OF assms(1,6)] assms(2) _ assms(5,6)] assms(4,7) by simp
  with assms(8) have S': "system_inv N put ps S'" "grows B T S'" "calls_recorded vs S'" by auto
  have "rvr_voteGranted r \<Longrightarrow> (rvr_term r, rv_candidateId a) \<in> votes_of p (history T p)"
    using given_vote [of a r "history T p" p] assms(7) by (simp add: act_def)
  with S' have "calls_recorded ((p, a, Some r) # vs) S'" by (intro calls_recorded_Cons [OF S'(3,2)]) simp
  with S' show ?thesis using grows_trans [OF grows_act [OF grows_post(1) assms(3)]] assms(7) by blast
qed

lemma preserved_append_answered:
  assumes "system_inv N put ps S" and "p \<in> N" and "p \<notin> B" and "nodes S p = (s, d)"
    and "handleAppendEntries put t b s d = Some (q, s', d')" and "ae_entries b = []" and "ae_ok b"
    and "T = act p (s', d') (EvAppend b q) (post_append p b S)"
    and "system_inv N put ps T \<Longrightarrow> system_inv N put ps S' \<and> grows B T S'"
  shows "system_inv N put ps S' \<and> grows B S S'"
proof -
  have "system_inv N put ps T"
    using inv_append [OF inv_post(2) [OF assms(1,6,7)] assms(2) _ assms(5-7)] assms(4,8) by simp
  with assms(8,9) show ?thesis using grows_trans [OF grows_act [OF grows_post(2) assms(3)]] by blast
qed

lemma system_preserved:
  assumes "[] \<notin> N"
  shows "system_step N put B S S' \<Longrightarrow> system_inv N put ps S \<Longrightarrow> system_inv N put ps S' \<and> grows B S S'"
    and "vote_calls N put B vs S S' \<Longrightarrow> system_inv N put ps S \<Longrightarrow> \<forall>(p, a, r) \<in> set vs. rv_candidateId a \<noteq> [] \<Longrightarrow>
      system_inv N put ps S' \<and> grows B S S' \<and> calls_recorded vs S'"
    and "append_calls N put B as S S' \<Longrightarrow> system_inv N put ps S \<Longrightarrow> \<forall>(p, b, r) \<in> set as. ae_entries b = [] \<and> ae_ok b \<Longrightarrow>
      system_inv N put ps S' \<and> grows B S S'"
proof (induction rule: system_step_vote_calls_append_calls.inducts)
  case (submits i B S s d k v ok s')
  then show ?case
    using inv_act [OF submits(6,1,3) raft_step.submit [OF submits(5)]] by (simp add: grows_act)
next
  case (late_vote i B a S s d t r s')
  then have "rv_candidateId a \<noteq> []" by (auto simp: system_inv_def)
  then show ?case using inv_vote [OF late_vote(6,1,4,5)] late_vote(2) by (simp add: grows_act)
next
  case (late_append i B b S s d t q s' d')
  then have "ae_entries b = []" "ae_ok b" by (auto simp: system_inv_def)
  with late_append show ?case using inv_append [of N put ps S i s d t b q s' d'] by (simp add: grows_act)
next
  case (elects i B S s d vs S1 t s')
  then show ?case using assms by (intro preserved_elects [OF elects.prems elects.IH(1) elects.hyps(1) _ elects.hyps(2-5) _ refl]) auto
next
  case (beats i B S s d as S1 s' d')
  show ?case
    using preserved_beats [OF beats.prems beats.IH(1) beats.hyps(1,2) beats.IH(4)] beats.IH(3) beats.prems by blast
next
  case (vote_fails B vs p a S S')
  then have "system_inv N put ps S'" "grows B (post_vote p a S) S'" "calls_recorded vs S'"
    using inv_post(1) [of N put ps S a p] by auto
  then show ?case using calls_recorded_Cons [of vs S' B] grows_trans [OF grows_post(1)] by fastforce
next
  case (vote_answered p B S s d t a r s' vs S')
  have "rv_candidateId a \<noteq> []" using vote_answered.prems(2) by simp
  from preserved_vote_answered [OF vote_answered.prems(1) vote_answered.IH(1) vote_answered.hyps(1-3) this refl]
  show ?case using vote_answered.IH vote_answered.prems(2) by auto
next
  case (vote_stale a' r S p a B vs S')
  then have S': "system_inv N put ps S'" "grows B (post_vote p a S) S'" "calls_recorded vs S'"
    using inv_post(1) [of N put ps S a p] by auto
  have "calls_recorded ((p, a, Some r) # vs) S'"
    using given_vote [of a' r "history S p" p] vote_stale.hyps by (intro calls_recorded_Cons [OF S'(3,2)]) simp
  with S' show ?case using grows_trans [OF grows_post(1)] by blast
next
  case (append_stale b' q S p b B as S')
  then show ?case using inv_post(2) [of N put ps S b p] grows_trans [OF grows_post(2)] by (fastforce simp del: grows_post)
next
  case (append_fails B as p b S S')
  then show ?case using inv_post(2) [of N put ps S b p] grows_trans [OF grows_post(2)] by (fastforce simp del: grows_post)
next
  case (append_answered p B S s d t b q s' d' as S')
  have "ae_entries b = []" "ae_ok b" using append_answered.prems(2) by simp_all
  from preserved_append_answered [OF append_answered.prems(1) append_answered.IH(1) append_answered.hyps(1,2) append_answered.IH(2) this refl]
  show ?case using append_answered.IH append_answered.prems(2) by auto
qed (simp_all add: calls_recorded_def, (meson grows_trans)+)

text \<open>The invariant is one of all runs.\<close>

interpretation cluster_run: step_invariant "system_step N put {}" "\<lambda>S. [] \<notin> N \<and> system_inv N put ps S"
  by unfold_locales (use system_preserved(1) in blast)

lemma system_reach_inv:
  assumes "cluster ps N" and "system_reach N put tm ps d0 S"
  shows "system_inv N put ps S"
proof -
  have "[] \<notin> N" using assms(1) by (simp add: cluster_def)
  moreover have "system_inv N put ps (system_init tm ps d0)"
    using member_init by (auto simp: system_inv_def system_init_def counted_ok_def)
  ultimately show ?thesis using cluster_run.run_kept assms(2) unfolding system_reach_def by blast
qed

section \<open>Properties\<close>

lemma system_inv_run:
  assumes "system_inv N put ps S" and "i \<in> N"
  shows "\<exists>t d. raft_run called_vote called_append put (RaftNode_init t i (ps i), d) (history S i) (nodes S i)"
    and "\<forall>ev \<in> set (history S i). vote_ok ev" and "raft_wf (fst (nodes S i))"
    and "log_pairs (m_logs (fst (nodes S i))) = submitted (history S i)"
  using assms event_sent_ok by (auto simp: system_inv_def member_ok_def)

text \<open>Votes counted in the terms in which they were given were given in the elections they decide.\<close>

definition votes_fresh :: "'d system \<Rightarrow> bool" where
  "votes_fresh S \<longleftrightarrow> (\<forall>(i, t, p, r) \<in> counted S. rvr_term r = t)"

lemma fresh_faithful: "counted_ok N S \<Longrightarrow> votes_fresh S \<Longrightarrow> faithful_votes N (history S)"
  by (fastforce simp: counted_ok_def votes_fresh_def faithful_votes_def)

text \<open>
  C2. One leader per term, up to stale votes: in every state that a cluster can reach, by any
  interleaving of elections, heartbeat rounds, client requests and calls that are answered, lost,
  handled late or answered with an old reply, two leaders of the same term are the same node, provided
  that no candidate has counted a vote whose reply names another term than the one of the election. The
  code does not make this test (\<open>stale_vote_elects_two_leaders\<close>).
\<close>

theorem one_leader_per_term:
  assumes "cluster ps N" and "system_reach N put tm ps d0 S" and "votes_fresh S" and "i \<in> N" and "j \<in> N"
    and "m_state (fst (nodes S i)) = Leader" and "m_state (fst (nodes S j)) = Leader"
    and "m_currentTerm (fst (nodes S i)) = m_currentTerm (fst (nodes S j))"
  shows "i = j"
proof -
  note inv = system_reach_inv [OF assms(1,2)]
  from system_inv_run(1) [OF inv] obtain t d where
    runs: "\<forall>k \<in> N. raft_run called_vote called_append put (RaftNode_init (t k) k (ps k), d k) (history S k) (nodes S k)"
    by metis
  have won: "\<exists>gs. EvElection (m_currentTerm (fst (nodes S k))) gs True \<in> set (history S k)"
    if "k \<in> N" "m_state (fst (nodes S k)) = Leader" for k
    using raft_run_leader [OF bspec [OF runs that(1)] _ that(2)] by (simp add: RaftNode_init_def)
  have "faithful_votes N (history S)" using inv fresh_faithful assms(3) by (auto simp: system_inv_def)
  moreover have "\<forall>k \<in> N. \<forall>ev \<in> set (history S k). vote_ok ev" using system_inv_run(2) [OF inv] by blast
  moreover obtain gs gs' where "EvElection (m_currentTerm (fst (nodes S i))) gs True \<in> set (history S i)"
    "EvElection (m_currentTerm (fst (nodes S i))) gs' True \<in> set (history S j)"
    using won [OF assms(4,6)] won [OF assms(5,7)] assms(8) by metis
  ultimately show ?thesis
    using election_agreement [OF assms(1) _ runs _ assms(4) _ assms(5)] by blast
qed

text \<open>
  C12. A cluster replicates nothing: in every reachable state the log of a node holds exactly the
  entries that clients submitted at this node while it was leader, in their order, so an entry
  submitted at one node never reaches another; and every node is well-formed, so that no operation of
  it reads its log out of range.
\<close>

theorem log_is_own_submissions:
  assumes "cluster ps N" and "system_reach N put tm ps d0 S" and "i \<in> N"
  shows "map (\<lambda>e. (log_key e, log_value e)) (tl (m_logs (fst (nodes S i)))) = submitted (history S i)
    \<and> raft_wf (fst (nodes S i))"
  using system_inv_run(3,4) [OF system_reach_inv [OF assms(1,2)] assms(3)] by (simp add: log_pairs_def)

text \<open>
  Three nodes: \<open>a\<close> is elected in term 1 with the vote of \<open>b\<close>, while the call of \<open>c\<close> fails, accepts
  an entry and sends a round of heartbeats.
\<close>

definition three_init :: "(string \<times> string) list system" where
  "three_init = system_init (\<lambda>_. tick) three_peers (\<lambda>_. [])"

definition node_a :: RaftNode where
  "node_a = RaftNode_init tick ''a'' [''b'', ''c'']"

definition leader_a :: RaftNode where
  "leader_a = node_a\<lparr>m_state := Leader, m_currentTerm := 1, m_votedFor := ''a'',
     m_nextIndex := [(''b'', 1), (''c'', 1)], m_matchIndex := [(''b'', 0), (''c'', 0)]\<rparr>"

definition votes_a :: "vote_call list" where
  "votes_a = [(''b'', vote_from ''a'' 1, Some (grant 1)), (''c'', vote_from ''a'' 1, None)]"

definition elected_a :: "(string \<times> string) list system" where
  "elected_a = act ''a'' (leader_a, []) (EvElection 1 [''b''] True) (count_votes ''a'' 1 votes_a
     (post_vote ''c'' (vote_from ''a'' 1)
       (act ''b'' ((RaftNode_init tick ''b'' [''a'', ''c''])\<lparr>m_currentTerm := 1, m_votedFor := ''a''\<rparr>, [])
         (EvVote (vote_from ''a'' 1) (grant 1)) (post_vote ''b'' (vote_from ''a'' 1) three_init))))"

lemma three_elects: "system_step {''a'', ''b'', ''c''} list_put {} three_init elected_a"
proof -
  have s: "nodes three_init ''a'' = (node_a, [])"
    by (simp add: three_init_def system_init_def node_a_def three_peers_def)
  have st: "startElection called_vote tick node_a (Some (votes_a, [])) = Some (leader_a, Some ([], []))"
    by (simp add: startElection_def Let_def node_a_def votes_a_def leader_a_def raft_eval majority_def vec_size_def)
  have "vote_calls {''a'', ''b'', ''c''} list_put {''a''} votes_a three_init
     (post_vote ''c'' (vote_from ''a'' 1)
       (act ''b'' ((RaftNode_init tick ''b'' [''a'', ''c''])\<lparr>m_currentTerm := 1, m_votedFor := ''a''\<rparr>, [])
         (EvVote (vote_from ''a'' 1) (grant 1)) (post_vote ''b'' (vote_from ''a'' 1) three_init)))"
    unfolding votes_a_def
  proof (rule vote_answered [where t = tick])
    show "nodes three_init ''b'' = (RaftNode_init tick ''b'' [''a'', ''c''], [])"
      by (simp add: three_init_def system_init_def three_peers_def)
    show "handleRequestVote tick (vote_from ''a'' 1) (RaftNode_init tick ''b'' [''a'', ''c''])
        = Some (grant 1, (RaftNode_init tick ''b'' [''a'', ''c''])\<lparr>m_currentTerm := 1, m_votedFor := ''a''\<rparr>)"
      by (simp add: handleRequestVote_def Let_def raft_eval)
  qed (simp_all add: vote_fails votes_done)
  from elects [OF _ _ s _ _ this st] show ?thesis
    by (simp add: elected_a_def node_a_def leader_a_def raft_eval votes_a_def)
qed

lemma three_reach: "system_reach {''a'', ''b'', ''c''} list_put (\<lambda>_. tick) three_peers (\<lambda>_. []) elected_a"
  using three_elects by (simp add: system_reach_def three_init_def)

lemma elected_fresh: "votes_fresh elected_a"
  by (auto simp: votes_fresh_def elected_a_def act_def count_votes_def votes_a_def post_vote_def three_init_def
      system_init_def grant_def)

theorem one_leader_per_term_witness:
  "{j. j \<in> {''a'', ''b'', ''c''} \<and> m_state (fst (nodes elected_a j)) = Leader
     \<and> m_currentTerm (fst (nodes elected_a j)) = 1} = {''a''}"
proof -
  have a: "m_state (fst (nodes elected_a ''a'')) = Leader" "m_currentTerm (fst (nodes elected_a ''a'')) = 1"
    by (simp_all add: elected_a_def act_def leader_a_def)
  then show ?thesis
    using one_leader_per_term [OF three_cluster three_reach elected_fresh _ _ _ a(1)] by auto
qed

text \<open>The leader accepts an entry, and after a round of heartbeats it has it in its database.\<close>

definition beat_a :: AppendEntriesArgs where
  "beat_a = \<lparr>ae_term = 1, ae_leaderId = ''a'', ae_prevLogIndex = 0, ae_prevLogTerm = 0, ae_entries = [], ae_leaderCommit = 0\<rparr>"

definition entry_a :: LogEntry where
  "entry_a = \<lparr>log_term = 1, log_index = 1, log_key = ''k'', log_value = ''v''\<rparr>"

lemma three_submits:
  "system_step {''a'', ''b'', ''c''} list_put {} elected_a
     (act ''a'' (leader_a\<lparr>m_logs := [dummy_entry, entry_a]\<rparr>, []) (EvSubmit ''k'' ''v'' True) elected_a)"
proof (rule submits)
  show "nodes elected_a ''a'' = (leader_a, [])" by (simp add: elected_a_def act_def)
qed (simp_all add: submitLog_def leader_a_def node_a_def RaftNode_init_def resetElectionTimer_def dummy_entry_def entry_a_def)

lemma leader_beats:
  "\<exists>s'. heartbeatLoop_round called_append list_put (leader_a\<lparr>m_logs := [dummy_entry, entry_a]\<rparr>)
     (Some ([], [(''b'', beat_a, Some \<lparr>aer_term = 1, aer_success = True\<rparr>), (''c'', beat_a\<lparr>ae_leaderCommit := 1\<rparr>, None)])) []
     = Some (s', Some ([], []), [(''k'', ''v'')])"
  by (simp add: heartbeat_eval append_eval leader_a_def node_a_def beat_a_def entry_a_def vec_at_def)

lemma b_answers_beat:
  assumes "s = (RaftNode_init tick ''b'' [''a'', ''c''])\<lparr>m_currentTerm := 1, m_votedFor := ''a''\<rparr>"
  shows "\<exists>s'. handleAppendEntries list_put tick beat_a s [] = Some (\<lparr>aer_term = 1, aer_success = True\<rparr>, s', [])"
  using assms by (simp add: heartbeat_eval append_eval beat_a_def)

theorem log_is_own_submissions_witness:
  "\<exists>S. system_reach {''a'', ''b'', ''c''} list_put (\<lambda>_. tick) three_peers (\<lambda>_. []) S
     \<and> snd (nodes S ''a'') = [(''k'', ''v'')] \<and> tl (m_logs (fst (nodes S ''b''))) = []
     \<and> map (\<lambda>e. (log_key e, log_value e)) (tl (m_logs (fst (nodes S ''a'')))) = [(''k'', ''v'')]"
proof -
  let ?N = "{''a'', ''b'', ''c''}" and ?r = "\<lparr>aer_term = 1, aer_success = True\<rparr> :: AppendEntriesReply"
  let ?S = "act ''a'' (leader_a\<lparr>m_logs := [dummy_entry, entry_a]\<rparr>, []) (EvSubmit ''k'' ''v'' True) elected_a"
  let ?as = "[(''b'', beat_a, Some ?r), (''c'', beat_a\<lparr>ae_leaderCommit := 1\<rparr>, None)]"
  obtain sa where sa: "heartbeatLoop_round called_append list_put (leader_a\<lparr>m_logs := [dummy_entry, entry_a]\<rparr>)
     (Some ([], ?as)) [] = Some (sa, Some ([], []), [(''k'', ''v'')])" using leader_beats by blast
  obtain sb where sb: "handleAppendEntries list_put tick beat_a
      ((RaftNode_init tick ''b'' [''a'', ''c''])\<lparr>m_currentTerm := 1, m_votedFor := ''a''\<rparr>) [] = Some (?r, sb, [])"
    using b_answers_beat by blast
  let ?S1 = "post_append ''c'' (beat_a\<lparr>ae_leaderCommit := 1\<rparr>) (act ''b'' (sb, []) (EvAppend beat_a ?r) (post_append ''b'' beat_a ?S))"
  have "append_calls ?N list_put {''a''} ?as ?S ?S1"
  proof (rule append_answered [OF _ _ _ sb])
    show "nodes ?S ''b'' = ((RaftNode_init tick ''b'' [''a'', ''c''])\<lparr>m_currentTerm := 1, m_votedFor := ''a''\<rparr>, [])"
      by (simp add: act_def elected_a_def)
  qed (simp_all add: append_fails appends_done)
  from beats [OF _ _ _ this sa] have step: "system_step ?N list_put {} ?S (act ''a'' (sa, [(''k'', ''v'')]) EvHeartbeat ?S1)"
    by (simp add: act_def)
  let ?T = "act ''a'' (sa, [(''k'', ''v'')]) EvHeartbeat ?S1"
  have reach: "system_reach ?N list_put (\<lambda>_. tick) three_peers (\<lambda>_. []) ?T"
    using three_reach three_submits step unfolding system_reach_def by (meson rtranclp.rtrancl_into_rtrancl)
  have hist: "submitted (history ?T ''a'') = [(''k'', ''v'')]" "submitted (history ?T ''b'') = []"
    by (simp_all add: act_def elected_a_def three_init_def system_init_def submitted_def)
  from log_is_own_submissions [OF three_cluster reach, of "''a''"] log_is_own_submissions [OF three_cluster reach, of "''b''"]
    hist have "map (\<lambda>e. (log_key e, log_value e)) (tl (m_logs (fst (nodes ?T ''a'')))) = [(''k'', ''v'')]"
    "tl (m_logs (fst (nodes ?T ''b''))) = []" by simp_all
  moreover have "snd (nodes ?T ''a'') = [(''k'', ''v'')]" by (simp add: act_def)
  ultimately show ?thesis using reach by (intro exI [of _ ?T] conjI)
qed

end
