(* ===== verification/Service.thy ===== *)
theory Service
  imports Program Session Raft_System
begin

text \<open>
  A running server as a whole: its accept loop, its connections, the threads of its Raft node, the
  cleanup thread of the connection pool and the signal handler, on one table of descriptors. Each
  step is one call of the code that runs without giving up what it holds: a turn of the accept loop,
  one message of one connection, one Raft call to a peer, one cleanup round. The steps of all threads
  come in any order.
\<close>

section \<open>The state\<close>

text \<open>\<open>ru_conns\<close>: the descriptors of the connections that have been accepted and not yet destroyed.\<close>

record 'd running =
  ru_server :: Server
  ru_os :: net_os
  ru_store :: "'d RocksDBStorage"
  ru_conns :: "int set"

text \<open>What a handler sees of it, and what it leaves.\<close>

definition ru_world :: "'d running \<Rightarrow> 'd world" where
  "ru_world S = \<lparr>w_os = ru_os S, w_store = ru_store S, w_raft = srv_raft (ru_server S)\<rparr>"

definition ru_after :: "'d world \<Rightarrow> 'd running \<Rightarrow> 'd running" where
  "ru_after w S = S\<lparr>ru_server := (ru_server S)\<lparr>srv_raft := w_raft w\<rparr>, ru_os := w_os w, ru_store := w_store w\<rparr>"

definition ru_pool :: "'d running \<Rightarrow> pool_os" where
  "ru_pool S = (srv_raft_pool (ru_server S), ru_os S)"

definition ru_pool_after :: "pool_os \<Rightarrow> 'd running \<Rightarrow> 'd running" where
  "ru_pool_after st S = S\<lparr>ru_server := (ru_server S)\<lparr>srv_raft_pool := fst st\<rparr>, ru_os := snd st\<rparr>"

definition raft_runs :: "'d running \<Rightarrow> bool" where
  "raft_runs S \<longleftrightarrow> rn_running (srv_raft_threads (ru_server S))"

section \<open>Steps\<close>

text \<open>
  What the threads of the Raft node, the cleanup thread and the signal handler do. \<open>c\<close> holds what the
  connections share. A Raft call may be to any peer and with any arguments, and an election or a
  heartbeat round may see any replies; both are more than the threads of one node do.
\<close>

inductive background_step :: "('f, 'd) Connection \<Rightarrow> 'd running \<Rightarrow> 'd running \<Rightarrow> bool" for c where
  asks_vote: "raft_runs S \<Longrightarrow> sendRequestVote (c_js c) now node peerId a (ru_pool S) = (Ret r, st) \<Longrightarrow>
    background_step c S (ru_pool_after st S)"
| asks_append: "raft_runs S \<Longrightarrow> sendAppendEntries (c_js c) now node peerId b (ru_pool S) = (Ret q, st) \<Longrightarrow>
    background_step c S (ru_pool_after st S)"
| decides: "raft_runs S \<Longrightarrow> srv_raft (ru_server S) = Some raft \<Longrightarrow>
    raft_step called_vote called_append (store_put (c_db c)) (raft, Some (ru_store S)) ev (raft', Some st') \<Longrightarrow>
    background_step c S (ru_after ((ru_world S)\<lparr>w_raft := Some raft', w_store := st'\<rparr>) S)"
| cleans: "background_step c S (ru_pool_after (cleanup_round now (ru_pool S)) S)"
| stops: "server_stop (ru_server S) (ru_os S) = (s', os') \<Longrightarrow>
    background_step c S (S\<lparr>ru_server := s', ru_os := os'\<rparr>)"

text \<open>The accept loop and the connections beside them; the buffer \<open>data\<close> of a connection may hold anything.\<close>

inductive service_step :: "('f, 'd) Connection \<Rightarrow> 'd running \<Rightarrow> 'd running \<Rightarrow> bool" for c where
  accepts: "srv_running (ru_server S) \<Longrightarrow>
    acceptLoop_round (srv_listen_fd (ru_server S)) evs queue (ru_os S) = (fds, rest, os') \<Longrightarrow>
    service_step c S (S\<lparr>ru_os := os', ru_conns := ru_conns S \<union> set fds\<rparr>)"
| serves: "fd \<in> ru_conns S \<Longrightarrow> fst (fst (recv_on fd data (ru_os S))) \<Longrightarrow>
    handle_round (c\<lparr>c_fd := fd\<rparr>) data (ru_world S) = (Ret (), w) \<Longrightarrow> service_step c S (ru_after w S)"
| ends: "fd \<in> ru_conns S \<Longrightarrow> handle_round (c\<lparr>c_fd := fd\<rparr>) data (ru_world S) = (r, w) \<Longrightarrow>
    r = Throws \<or> r = Ret () \<and> \<not> fst (fst (recv_on fd data (ru_os S))) \<Longrightarrow>
    service_step c S ((ru_after w S)\<lparr>ru_os := sys_close fd (w_os w), ru_conns := ru_conns S - {fd}\<rparr>)"
| background: "background_step c S S' \<Longrightarrow> service_step c S S'"

text \<open>A started server before its first connection.\<close>

definition service_init :: "Server \<Rightarrow> net_os \<Rightarrow> 'd RocksDBStorage \<Rightarrow> 'd running" where
  "service_init s os st = \<lparr>ru_server = s, ru_os = os, ru_store = st, ru_conns = {}\<rparr>"

section \<open>The books\<close>

definition listening :: "Server \<Rightarrow> int set" where
  "listening s = (if srv_running s then {srv_listen_fd s, srv_epoll_fd s} else {})"

text \<open>
  \<open>B\<close> was open before the start. The rest of the table belongs to the listening sockets, to the
  connections and to the pool, each descriptor to one of them.
\<close>

definition service_ok :: "int set \<Rightarrow> nat \<Rightarrow> 'd running \<Rightarrow> bool" where
  "service_ok B e S \<longleftrightarrow>
     pool_ok (B \<union> listening (ru_server S) \<union> ru_conns S) e (srv_raft_pool (ru_server S)) (ru_os S) []
   \<and> ru_conns S \<inter> (B \<union> listening (ru_server S)) = {} \<and> B \<inter> listening (ru_server S) = {} \<and> (\<forall>fd \<in> ru_conns S. 0 \<le> fd)
   \<and> (if srv_running (ru_server S)
      then 0 \<le> srv_listen_fd (ru_server S) \<and> 0 \<le> srv_epoll_fd (ru_server S)
        \<and> srv_listen_fd (ru_server S) \<noteq> srv_epoll_fd (ru_server S) \<and> srv_raft (ru_server S) \<noteq> None
        \<and> raft_runs S \<and> cp_running (srv_raft_pool (ru_server S))
      else \<not> raft_runs S \<and> m_connectionPools (srv_raft_pool (ru_server S)) = [] \<and> \<not> cp_running (srv_raft_pool (ru_server S)))"

text \<open>The part that is not the pool's may grow and shrink.\<close>

lemma pool_ok_grow:
  assumes "pool_ok B e p os L" and "open_fds os' = open_fds os \<union> F" and "F \<inter> open_fds os = {}" and "os_ebadf os' = os_ebadf os"
  shows "pool_ok (B \<union> F) e p os' L"
  using assms unfolding pool_ok_def owns_def by auto

lemma pool_ok_shrink:
  assumes "pool_ok B e p os L" and "fd \<in> B"
  shows "pool_ok (B - {fd}) e p (sys_close fd os) L"
proof -
  have "fd \<in> open_fds os" and "fd \<notin> snd ` set (pooled (m_connectionPools p) @ L)"
    using assms unfolding pool_ok_def owns_def by auto
  with assms show ?thesis unfolding pool_ok_def owns_def by (auto simp: pool_simps)
qed

text \<open>A Raft call that returns has given its connection back, and the pool still runs.\<close>

lemma sendRpc_ok:
  assumes "pool_ok B e (fst st) (snd st) L" and "sendRpc js now node peerId (message js word j) of_json st = (Ret r, st')"
  shows "pool_ok B e (fst st') (snd st') L"
proof (cases "map_of (m_peerAddresses node) peerId")
  case (Some a)
  obtain host port where a: "a = (host, port)" by fastforce
  obtain fd p os where g: "getConnection peerId host port st = (fd, p, os)" by (metis prod_cases3)
  show ?thesis
  proof (cases "fd < 0")
    case True
    with assms(2) Some a g pool.failed_session_inv [OF assms(1) g] show ?thesis by (auto simp: sendRpc_def)
  next
    case False
    then have fd: "0 \<le> fd" by simp
    from assms(2) Some a g False obtain body where body: "message js word j = Ret body"
      by (cases "message js word j") (auto simp: sendRpc_def)
    obtain sent os1 where s: "send_on fd body os = (sent, os1)" by fastforce
    obtain received response os2 where rc: "recv_on fd [] os1 = ((received, response), os2)" by (metis prod.collapse)
    have t1: "traffic fd (p, os) (p, os1)" and t2: "traffic fd (p, os) (p, os2)"
      using send_on_traffic [OF s] recv_on_traffic [OF rc] by (auto simp: traffic_def)
    note after = pool.session_inv [OF assms(1) g fd t1, of now] pool.session_inv [OF assms(1) g fd t2, of now]
    with assms(2) Some a g False body s rc show ?thesis by (auto simp: sendRpc_def split: if_splits)
  qed
qed (use assms in \<open>simp add: sendRpc_def\<close>)

lemma new_connection_running: "new_connection k h port (p, os) = (fd, p', os') \<Longrightarrow> cp_running p' = cp_running p"
  by (auto simp: new_connection_def split: prod.splits if_splits)

lemma getConnection_running: "getConnection k h port (p, os) = (fd, p', os') \<Longrightarrow> cp_running p' = cp_running p"
  by (auto simp: getConnection_def Let_def dest!: new_connection_running split: option.splits list.splits prod.splits if_splits)

lemma releaseConnection_running: "cp_running (fst (releaseConnection now k fd (p, os))) = cp_running p"
  by (auto simp: releaseConnection_def Let_def split: prod.splits)

lemma sendRpc_running:
  "sendRpc js now node peerId msg of_json st = (r, st') \<Longrightarrow> cp_running (fst st') = cp_running (fst st)"
  using getConnection_running [of peerId _ _ "fst st" "snd st"] releaseConnection_running
  by (auto simp: sendRpc_def split: option.splits prod.splits if_splits outcome.splits)

lemma cleanup_running: "cp_running (fst (cleanup_round now (p, os))) = cp_running p"
  by (auto simp: cleanup_round_def Let_def split: prod.splits)

text \<open>No handler takes the Raft node away.\<close>

definition keeps_node :: "'d action \<Rightarrow> bool" where
  "keeps_node f \<longleftrightarrow> (\<forall>w. w_raft (snd (f w)) = None \<longleftrightarrow> w_raft w = None)"

lemma keeps_node_reply: "keeps_node (reply_to c s)"
  by (simp add: keeps_node_def reply_to_def)

lemma keeps_node_skip: "keeps_node (\<lambda>w. (r, w))"
  by (simp add: keeps_node_def)

lemma keeps_node_forward: "keeps_node (forward_request c node msg err)"
  by (simp add: keeps_node_def forward_request_def reply_to_def Let_def split: prod.split)

lemma keeps_node_value: "(\<And>x. keeps_node (f x)) \<Longrightarrow> keeps_node (\<lambda>w. with_value (m w) f w)"
  by (simp add: keeps_node_def with_value_def split: outcome.split)

lemma keeps_node_value': "(\<And>x. keeps_node (f x)) \<Longrightarrow> keeps_node (with_value m f)"
  using keeps_node_value [of f "\<lambda>_. m"] by simp

lemma keeps_node_try: "keeps_node f \<Longrightarrow> keeps_node h \<Longrightarrow> keeps_node (try_catch f h)"
  unfolding keeps_node_def
proof (intro allI)
  fix w
  assume f: "\<forall>w. (w_raft (snd (f w)) = None) = (w_raft w = None)" and h: "\<forall>w. (w_raft (snd (h w)) = None) = (w_raft w = None)"
  obtain r w' where fw: "f w = (r, w')" by fastforce
  with f [THEN spec, of w] h [THEN spec, of w'] show "(w_raft (snd (try_catch f h w)) = None) = (w_raft w = None)"
    by (cases r) (simp_all add: try_catch_def)
qed

lemma keeps_node_store: "keeps_node (store_local c frame)"
  unfolding store_local_def
  by (rule keeps_node_value') (auto simp: keeps_node_def reply_to_def split: option.split)

lemma keeps_node_get: "keeps_node (get_local c i)"
  unfolding get_local_def by (intro keeps_node_value keeps_node_value' keeps_node_reply)

lemma reply_value_node: "w_raft (snd (with_value m (reply_to c) w)) = w_raft w"
  by (simp add: with_value_def reply_to_def split: outcome.split)

lemma keeps_node_raft: "keeps_node (vote_try c payload)" "keeps_node (append_try c payload)"
  unfolding vote_try_def append_try_def
  by (rule keeps_node_value', simp add: keeps_node_def reply_value_node split: option.split)+

lemmas keeps_node_intros = keeps_node_reply keeps_node_skip keeps_node_forward keeps_node_value' keeps_node_try
  keeps_node_store keeps_node_get keeps_node_raft

lemma keeps_node_message: "keeps_node (handle_message c msg)"
proof -
  have store: "keeps_node (store_try c msg s)" for s
    unfolding store_try_def by (intro keeps_node_intros) (auto intro: keeps_node_intros)
  have "keeps_node (handleGet c msg)"
    unfolding handleGet_def Let_def by (auto split: prod.split intro!: keeps_node_intros)
  then show ?thesis
    using store
    by (cases "parseCommand (getFirstToken msg)")
      (auto simp: handle_message_def handlePing_def handleUnknown_def handleStore_def handleRaftRequestVote_def
        handleRaftAppendEntries_def split: option.split intro!: keeps_node_intros)
qed

text \<open>A round of a connection leaves the table of descriptors as it was.\<close>

lemma handle_round_frame:
  assumes "handle_round c data w = (r, w')"
  shows "open_fds (w_os w') = open_fds (w_os w) \<and> os_ebadf (w_os w') = os_ebadf (w_os w)
    \<and> (w_raft w' = None \<longleftrightarrow> w_raft w = None)"
proof -
  obtain received os' where rc: "recv_on (c_fd c) data (w_os w) = (received, os')" by fastforce
  note fr = recv_on_frame [OF rc]
  show ?thesis
  proof (cases "fst received")
    case True
    let ?w = "w\<lparr>w_os := os'\<rparr>"
    have h: "handle_message c (snd received) ?w = (r, w')" using assms rc True by (simp add: handle_round_def)
    have "c_fd c \<in> open_fds os'"
      using unread_recv [of "c_fd c" data "w_os w" "snd received" os'] rc True by (metis prod.collapse)
    with keepsD [OF keeps_message, of c ?w "snd received"] h fr
    have "open_fds (w_os w') = open_fds (w_os w) \<and> os_ebadf (w_os w') = os_ebadf (w_os w)" by (simp add: kept_def)
    moreover have "w_raft w' = None \<longleftrightarrow> w_raft w = None"
      using keeps_node_message [of c "snd received", unfolded keeps_node_def, THEN spec, of ?w] h by simp
    ultimately show ?thesis by simp
  next
    case False
    with assms rc have "w' = w\<lparr>w_os := os'\<rparr>" by (simp add: handle_round_def)
    with fr show ?thesis by simp
  qed
qed

section \<open>Preservation\<close>

lemma service_ok_frame:
  assumes "service_ok B e S" and "open_fds (w_os w) = open_fds (ru_os S)" and "os_ebadf (w_os w) = os_ebadf (ru_os S)"
    and "w_raft w = None \<longleftrightarrow> srv_raft (ru_server S) = None"
  shows "service_ok B e (ru_after w S)"
  using assms pool_ok_traffic by (auto simp: service_ok_def ru_after_def listening_def raft_runs_def)

lemma service_ok_pool:
  assumes "service_ok B e S"
    and "\<And>B'. pool_ok B' e (fst (ru_pool S)) (snd (ru_pool S)) [] \<Longrightarrow> pool_ok B' e (fst st) (snd st) []"
    and "cp_running (fst st) = cp_running (fst (ru_pool S))"
    and "\<not> cp_running (fst (ru_pool S)) \<Longrightarrow> fst st = fst (ru_pool S)"
  shows "service_ok B e (ru_pool_after st S)"
  using assms by (auto simp: service_ok_def ru_pool_def ru_pool_after_def listening_def raft_runs_def)

lemma service_ok_close:
  assumes "service_ok B e S" and "fd \<in> ru_conns S"
  shows "service_ok B e (S\<lparr>ru_os := sys_close fd (ru_os S), ru_conns := ru_conns S - {fd}\<rparr>)"
proof -
  let ?B = "B \<union> listening (ru_server S) \<union> ru_conns S"
  have "fd \<in> ?B" and "B \<union> listening (ru_server S) \<union> (ru_conns S - {fd}) = ?B - {fd}"
    using assms by (auto simp: service_ok_def)
  with pool_ok_shrink [of ?B e "srv_raft_pool (ru_server S)" "ru_os S" "[]" fd] assms show ?thesis
    by (auto simp: service_ok_def raft_runs_def)
qed

lemma service_ok_accept:
  assumes "service_ok B e S" and "acceptLoop_round l evs queue (ru_os S) = (fds, rest, os')"
  shows "service_ok B e (S\<lparr>ru_os := os', ru_conns := ru_conns S \<union> set fds\<rparr>)"
proof -
  let ?B = "B \<union> listening (ru_server S) \<union> ru_conns S"
  note fresh = acceptLoop_round_fresh [OF assms(2)] and nonneg = acceptLoop_round_nonneg [OF assms(2)]
  have "pool_ok ?B e (srv_raft_pool (ru_server S)) (ru_os S) []" using assms(1) by (simp add: service_ok_def)
  moreover from this have "?B \<subseteq> open_fds (ru_os S)" by (auto simp: pool_ok_def owns_def)
  ultimately have "pool_ok (?B \<union> set fds) e (srv_raft_pool (ru_server S)) os' []" "set fds \<inter> ?B = {}"
    using pool_ok_grow [of ?B e _ "ru_os S" "[]" os' "set fds"] fresh by auto
  moreover have "?B \<union> set fds = B \<union> listening (ru_server S) \<union> (ru_conns S \<union> set fds)" by auto
  ultimately show ?thesis using assms(1) nonneg by (auto simp: service_ok_def raft_runs_def)
qed

lemma service_ok_stop:
  assumes "service_ok B e S" and "server_stop (ru_server S) (ru_os S) = (s', os')"
  shows "service_ok B e (S\<lparr>ru_server := s', ru_os := os'\<rparr>)"
proof (cases "srv_running (ru_server S)")
  case True
  let ?s = "ru_server S" and ?l = "srv_listen_fd (ru_server S)" and ?ep = "srv_epoll_fd (ru_server S)"
  let ?B = "B \<union> {?l, ?ep} \<union> ru_conns S"
  have ok: "pool_ok ?B e (srv_raft_pool ?s) (ru_os S) []" and fds: "0 \<le> ?l" "0 \<le> ?ep" "?l \<noteq> ?ep"
    and own: "?l \<notin> B" "?ep \<notin> B" "?l \<notin> ru_conns S" "?ep \<notin> ru_conns S"
    and run: "rn_running (srv_raft_threads ?s)" "cp_running (srv_raft_pool ?s)" "srv_raft ?s \<noteq> None"
    using assms(1) True by (auto simp: service_ok_def listening_def raft_runs_def)
  obtain p os1 where st: "pool_stop (srv_raft_pool ?s, ru_os S) = (p, os1)" by fastforce
  have p: "p = (srv_raft_pool ?s)\<lparr>cp_running := False, m_connectionPools := [], m_fdToPeerMap := []\<rparr>"
    using st run(2) by (simp add: pool_stop_def)
  have "pool_ok ?B e p os1 []" using pool_stop_ok [OF ok st] .
  from pool_ok_shrink [OF pool_ok_shrink [OF this, of ?ep], of ?l] own fds
  have ok': "pool_ok (B \<union> ru_conns S) e p (sys_close ?l (sys_close ?ep os1)) []"
    by (auto simp: insert_Diff_if Un_Diff)
  obtain raft where raft: "srv_raft ?s = Some raft" using run(3) by blast
  have s': "s' = ?s\<lparr>srv_running := False, srv_raft_threads := (srv_raft_threads ?s)\<lparr>rn_running := False,
      rn_electionThread := False, rn_heartbeatThread := False\<rparr>, srv_raft_pool := p, srv_epoll_fd := -1, srv_listen_fd := -1\<rparr>"
    "os' = sys_close ?l (sys_close ?ep os1)"
    using assms(2) True raft run(1) st fds by (auto simp: server_stop_def stop_raft_def raft_stop_def)
  show ?thesis
    using ok' assms(1) True p unfolding s' by (auto simp: service_ok_def listening_def raft_runs_def)
qed (use assms in \<open>auto simp: server_stop_def\<close>)

lemma service_ok_rpc:
  assumes "service_ok B e S" and "raft_runs S"
    and "sendRpc js now node peerId (message js word j) of_json (ru_pool S) = (Ret r, st)"
  shows "service_ok B e (ru_pool_after st S)"
proof (rule service_ok_pool [OF assms(1) sendRpc_ok [OF _ assms(3)] sendRpc_running [OF assms(3)]])
  have "srv_running (ru_server S)" using assms(1,2) by (auto simp: service_ok_def split: if_splits)
  then show "\<not> cp_running (fst (ru_pool S)) \<Longrightarrow> fst st = fst (ru_pool S)"
    using assms(1) by (simp add: service_ok_def ru_pool_def)
qed

lemma background_step_ok: "background_step c S S' \<Longrightarrow> service_ok B e S \<Longrightarrow> service_ok B e S'"
proof (induction rule: background_step.induct)
  case (asks_vote S now node peerId a r st)
  then show ?case unfolding sendRequestVote_def using service_ok_rpc by blast
next
  case (asks_append S now node peerId b q st)
  then show ?case unfolding sendAppendEntries_def using service_ok_rpc by blast
next
  case (decides S raft ev raft' st')
  then show ?case by (intro service_ok_frame) (simp_all add: ru_world_def)
next
  case (cleans S now)
  obtain p os where st: "cleanup_round now (ru_pool S) = (p, os)" by fastforce
  then show ?case
    using cleans cleanup_round_ok [of _ e "fst (ru_pool S)" "snd (ru_pool S)" "[]" now p os]
      cleanup_running [of now "fst (ru_pool S)" "snd (ru_pool S)"]
    by (intro service_ok_pool) (auto simp: cleanup_round_def ru_pool_def)
next
  case (stops S s' os')
  then show ?case using service_ok_stop by blast
qed

lemma service_step_ok: "service_step c S S' \<Longrightarrow> service_ok B e S \<Longrightarrow> service_ok B e S'"
proof (induction rule: service_step.induct)
  case (accepts S evs queue fds rest os')
  then show ?case using service_ok_accept by blast
next
  case (serves fd S data w)
  then show ?case using handle_round_frame [OF serves(3)] by (intro service_ok_frame) (simp_all add: ru_world_def)
next
  case (ends fd S data r w)
  have "service_ok B e (ru_after w S)"
    using handle_round_frame [OF ends(2)] ends(4) by (intro service_ok_frame) (simp_all add: ru_world_def)
  from service_ok_close [OF this, of fd] ends(1) show ?case by (simp add: ru_after_def)
next
  case (background S S')
  then show ?case by (rule background_step_ok)
qed

interpretation service: step_invariant "service_step c" "service_ok B e"
  by unfold_locales (rule service_step_ok)

text \<open>Nothing is left of a server that has stopped and whose connections have ended.\<close>

lemma service_ok_closed:
  assumes "service_ok B e S" and "\<not> srv_running (ru_server S)" and "ru_conns S = {}"
  shows "open_fds (ru_os S) = B" "os_ebadf (ru_os S) = e"
  using assms by (auto simp: service_ok_def listening_def pool_ok_def owns_def)

lemma service_init_ok:
  assumes "server_start ls db t s os st = Inr (True, s1, os1, st1)"
  shows "service_ok (open_fds os) (os_ebadf os) (service_init s1 os1 st1)"
proof -
  obtain s' where su: "setupSocket ls s os = (True, s', os1)" and s1: "srv_running s1" "srv_listen_fd s1 = srv_listen_fd s'"
    "srv_epoll_fd s1 = srv_epoll_fd s'" "srv_raft s1 \<noteq> None" "rn_running (srv_raft_threads s1)"
    "srv_raft_pool s1 = pool_start RaftConnectionPool_init"
    using assms
    by (auto simp: server_start_def raft_start_def raft_threads_init_def split: sum.splits prod.splits if_splits)
  have p: "pool_ok (open_fds os1) (os_ebadf os1) (pool_start RaftConnectionPool_init) os1 []"
    using pool_init_ok [of os1] by (simp add: pool_ok_def pool_start_def RaftConnectionPool_init_def)
  from setupSocket_fds(1,3) [OF su] s1 p show ?thesis
    by (auto simp: service_ok_def service_init_def listening_def raft_runs_def pool_start_def)
qed

text \<open>
  The steps of a connection are its whole life: what \<open>connection_run\<close> does is a sequence of steps.
\<close>

lemma ru_world_after [simp]: "ru_world (ru_after w S) = w"
  by (simp add: ru_world_def ru_after_def)

lemma ru_after_after [simp]: "ru_after w' (ru_after w S) = ru_after w' S" "ru_conns (ru_after w S) = ru_conns S"
  "ru_os (ru_after w S) = w_os w"
  by (simp_all add: ru_after_def)

lemma handle_loop_steps:
  assumes "fd \<in> ru_conns S" and "handle_loop (c\<lparr>c_fd := fd\<rparr>) data (ru_world S) = (r, w)" and "r \<noteq> Undef"
  shows "(service_step c)\<^sup>*\<^sup>* S ((ru_after w S)\<lparr>ru_os := sys_close fd (w_os w), ru_conns := ru_conns S - {fd}\<rparr>)"
  using assms
proof (induction "unread fd (ru_os S)" arbitrary: S data rule: less_induct)
  case less
  let ?c = "c\<lparr>c_fd := fd\<rparr>"
  obtain ok m os' where rc: "recv_on fd data (ru_os S) = ((ok, m), os')" by (metis prod.collapse)
  obtain r1 w1 where h: "handle_round ?c data (ru_world S) = (r1, w1)" by fastforce
  have os: "w_os (ru_world S) = ru_os S" by (simp add: ru_world_def)
  note loop = less.prems(2) [unfolded handle_loop_round [of ?c data "ru_world S"]]
  show ?case
  proof (cases "ok \<and> r1 = Ret ()")
    case True
    then have rest: "handle_loop ?c m (ru_world (ru_after w1 S)) = (r, w)" using loop h rc os by simp
    have step: "service_step c S (ru_after w1 S)" using serves [OF less.prems(1) _ h [unfolded conjunct2 [OF True]]] rc True by simp
    have "unread fd (ru_os (ru_after w1 S)) < unread fd (ru_os S)"
    proof -
      have hm: "handle_message ?c m ((ru_world S)\<lparr>w_os := os'\<rparr>) = (r1, w1)" using h rc os True by (simp add: handle_round_def)
      have "unread fd os' < unread fd (ru_os S)" "fd \<in> open_fds os'"
        using unread_recv [of fd data "ru_os S" m os'] rc True by auto
      with keepsD [OF keeps_message, of ?c "(ru_world S)\<lparr>w_os := os'\<rparr>" m] hm show ?thesis by (simp add: kept_def unread_def)
    qed
    from less.hyps [OF this _ rest less.prems(3)] less.prems(1) step show ?thesis
      by (simp add: converse_rtranclp_into_rtranclp)
  next
    case False
    have "r = r1" "w = w1" using loop h rc os False less.prems(3) by (cases r1; simp split: if_splits)+
    moreover have "r1 = Throws \<or> r1 = Ret () \<and> \<not> ok" using False \<open>r = r1\<close> less.prems(3) by (cases r1) auto
    ultimately have "service_step c S ((ru_after w S)\<lparr>ru_os := sys_close fd (w_os w), ru_conns := ru_conns S - {fd}\<rparr>)"
      using ends [OF less.prems(1) h] rc by simp
    then show ?thesis by (rule r_into_rtranclp)
  qed
qed

lemma connection_run_steps:
  assumes "fd \<in> ru_conns S" and "0 \<le> fd" and "connection_run (c\<lparr>c_fd := fd\<rparr>) (ru_world S) = Some w"
  shows "(service_step c)\<^sup>*\<^sup>* S ((ru_after w S)\<lparr>ru_conns := ru_conns S - {fd}\<rparr>)"
proof -
  obtain r w1 where l: "handle_loop (c\<lparr>c_fd := fd\<rparr>) [] (ru_world S) = (r, w1)" by fastforce
  with assms(2,3) have w: "r \<noteq> Undef" "w = w1\<lparr>w_os := sys_close fd (w_os w1)\<rparr>"
    by (cases r; simp add: connection_run_def)+
  have "(ru_after w S)\<lparr>ru_conns := ru_conns S - {fd}\<rparr>
      = (ru_after w1 S)\<lparr>ru_os := sys_close fd (w_os w1), ru_conns := ru_conns S - {fd}\<rparr>"
    unfolding w(2) by (simp add: ru_after_def)
  with handle_loop_steps [OF assms(1) l w(1)] show ?thesis by simp
qed

section \<open>Properties\<close>

text \<open>
  C20. Every descriptor has one owner: in every state that a started server can reach, whatever the
  accept loop, the connections, the Raft threads, the cleanup thread and signals do in whatever order,
  the open descriptors are those from before the start, the two listening ones while the server runs,
  those of the live connections and those in the Raft pool, and no descriptor is counted twice; no
  \<open>close\<close> has hit a descriptor that was not open; and once the server is stopped and its connections
  have ended, everything it opened is closed.
\<close>

theorem descriptors_have_one_owner:
  assumes "server_start ls db t s0 os0 st0 = Inr (True, s1, os1, st1)"
    and "(service_step c)\<^sup>*\<^sup>* (service_init s1 os1 st1) S"
    and "idle = map snd (pooled (m_connectionPools (srv_raft_pool (ru_server S))))"
  shows "open_fds (ru_os S) = open_fds os0 \<union> listening (ru_server S) \<union> ru_conns S \<union> set idle
    \<and> os_ebadf (ru_os S) = os_ebadf os0 \<and> distinct idle
    \<and> open_fds os0 \<inter> listening (ru_server S) = {} \<and> ru_conns S \<inter> (open_fds os0 \<union> listening (ru_server S)) = {}
    \<and> set idle \<inter> (open_fds os0 \<union> listening (ru_server S) \<union> ru_conns S) = {}
    \<and> (\<not> srv_running (ru_server S) \<and> ru_conns S = {} \<longrightarrow> open_fds (ru_os S) = open_fds os0)"
proof -
  have ok: "service_ok (open_fds os0) (os_ebadf os0) S"
    using service.run_kept [OF assms(2) service_init_ok [OF assms(1)]] .
  then have "pool_ok (open_fds os0 \<union> listening (ru_server S) \<union> ru_conns S) (os_ebadf os0) (srv_raft_pool (ru_server S)) (ru_os S) []"
    by (simp add: service_ok_def)
  then have pool: "open_fds (ru_os S) = open_fds os0 \<union> listening (ru_server S) \<union> ru_conns S \<union> set idle"
    "(open_fds os0 \<union> listening (ru_server S) \<union> ru_conns S) \<inter> set idle = {}" "distinct idle" "os_ebadf (ru_os S) = os_ebadf os0"
    unfolding pool_ok_def owns_def assms(3) by auto
  moreover have "ru_conns S \<inter> (open_fds os0 \<union> listening (ru_server S)) = {}" "open_fds os0 \<inter> listening (ru_server S) = {}"
    using ok by (auto simp: service_ok_def)
  moreover have "open_fds (ru_os S) = open_fds os0" if "\<not> srv_running (ru_server S)" "ru_conns S = {}"
    using service_ok_closed(1) [OF ok that] .
  ultimately show ?thesis by (simp add: Int_commute)
qed

text \<open>
  A server that nobody else is configured for: it accepts one connection, serves it until the client
  has closed, and is stopped by a signal.
\<close>

lemma shipped_started:
  "\<exists>s os st. server_start all_listen memory_db tick shipped_server idle_os RocksDBStorage_init = Inr (True, s, os, st)
     \<and> srv_running s \<and> srv_listen_fd s = 3 \<and> map fst (os_desc os) = [4, 3] \<and> os_limit os = 8"
  by (simp add: server_start_def setupSocket_def sys_epoll_create_def sys_socket_def lowest_free_def idle_os_def
      all_listen_def storage_open_def memory_db_def raft_start_def raft_threads_init_def)

lemma accept_silent_client:
  assumes "map fst (os_desc os) = [4, 3]" and "os_limit os = 8"
  shows "\<exists>os'. acceptLoop_round 3 [3] [Some (mk_socket [] [])] os = ([5], [], os') \<and> client_rx 5 os' = Some ([], [])"
proof -
  have "length (os_desc os) = 2" "lowest_free (map fst (os_desc os)) = 5"
    using assms(1) by (metis length_map list.size(3,4) One_nat_def Suc_1 add.commute plus_1_eq_Suc, simp add: lowest_free_def)
  then show ?thesis using assms(2) by (simp add: sys_socket_def client_rx_def mk_socket_def)
qed

theorem descriptors_have_one_owner_witness:
  "\<exists>s1 os1 st1 S1 S. server_start all_listen memory_db tick shipped_server idle_os RocksDBStorage_init = Inr (True, s1, os1, st1)
     \<and> service_step (client_conn sample_js) (service_init s1 os1 st1) S1 \<and> ru_conns S1 = {5}
     \<and> (service_step (client_conn sample_js))\<^sup>*\<^sup>* S1 S \<and> open_fds (ru_os S) = {}"
proof -
  let ?c = "client_conn sample_js"
  obtain s1 os1 st1 where start: "server_start all_listen memory_db tick shipped_server idle_os RocksDBStorage_init = Inr (True, s1, os1, st1)"
    and s1: "srv_running s1" "srv_listen_fd s1 = 3" "map fst (os_desc os1) = [4, 3]" "os_limit os1 = 8"
    using shipped_started by (elim exE conjE)
  obtain os2 where acc: "acceptLoop_round 3 [3] [Some (mk_socket [] [])] os1 = ([5], [], os2)" and rx: "client_rx 5 os2 = Some ([], [])"
    using accept_silent_client [OF s1(3,4)] by blast
  let ?init = "service_init s1 os1 st1" and ?one = "(service_init s1 os1 st1)\<lparr>ru_os := os2, ru_conns := {5}\<rparr>"
  have step1: "service_step ?c ?init ?one"
    using accepts [of ?init "[3]" "[Some (mk_socket [] [])]" "[5]" "[]" os2 ?c] acc s1 by (simp add: service_init_def)
  have "handle_round (?c\<lparr>c_fd := 5\<rparr>) [] (ru_world ?one) = (Ret (), ru_world ?one)"
    using recv_on_closed [OF rx, of "[]"] by (simp add: handle_round_def ru_world_def)
  from ends [OF _ this] recv_on_closed [OF rx, of "[]"]
  obtain S2 where step2: "service_step ?c ?one S2" and S2: "ru_conns S2 = {}" "srv_running (ru_server S2)"
    using s1(1) by (force simp: ru_after_def service_init_def)
  obtain s' os' where stop: "server_stop (ru_server S2) (ru_os S2) = (s', os')" by fastforce
  let ?last = "S2\<lparr>ru_server := s', ru_os := os'\<rparr>"
  have step3: "service_step ?c S2 ?last" using background [OF stops [OF stop]] .
  have off: "\<not> srv_running s'" using stop S2(2) by (auto simp: server_stop_def stop_raft_def split: option.splits prod.splits if_splits)
  from step2 step3 have run: "(service_step ?c)\<^sup>*\<^sup>* ?one ?last" by simp
  have "(service_step ?c)\<^sup>*\<^sup>* ?init ?last" using converse_rtranclp_into_rtranclp [OF step1 run] .
  from descriptors_have_one_owner [OF start this refl] off S2(1) have "open_fds (ru_os ?last) = open_fds idle_os" by auto
  then have "open_fds (ru_os ?last) = {}" by (simp add: idle_os_def open_fds_def)
  with start step1 run show ?thesis by (intro exI [of _ s1] exI [of _ os1] exI [of _ st1] exI [of _ ?one] exI [of _ ?last]) simp
qed

end
