(* ===== verification/Workers.thy ===== *)
theory Workers
  imports Service
begin

text \<open>
  The running server with its thread pool: \<open>main\<close> accepts a connection and submits it
  (\<open>Server::acceptLoop\<close>), a worker takes the task, builds a \<open>Connection\<close> and runs its rounds, the other
  threads go on beside them, and at the end \<open>main\<close> destroys the server. The pool is that of
  \<open>ThreadPool\<close> with descriptors as tasks, the rest that of \<open>Service\<close>; every step here is a step of each of
  them or leaves it alone, so that what is known of both holds together.
\<close>

section \<open>The state\<close>

text \<open>
  Where \<open>main\<close> is: about to accept (or waiting for a signal), in the three steps of \<open>submit\<close> with a
  descriptor, or in the destructor of the server, which destroys \<open>m_raft_node\<close> before the thread pool
  because it is declared after it.
\<close>

datatype main_at = Accepting | Submitting int | Pushing int | Notifying | Destroying

text \<open>
  \<open>pd_built\<close>: the descriptors of which the \<open>Connection\<close> has been built. \<open>pd_accepted\<close>: all descriptors
  that \<open>accept\<close> has returned, in order. \<open>pd_undefined\<close>: a task has copied the destroyed \<open>m_raft_node\<close>.
\<close>

record 'd pooled_server =
  pd_run :: "'d running"
  pd_tp :: "int tp_world"
  pd_main :: main_at
  pd_built :: "int set"
  pd_accepted :: "int list"
  pd_undefined :: bool

definition pooled_init :: "Server \<Rightarrow> net_os \<Rightarrow> 'd RocksDBStorage \<Rightarrow> 'd pooled_server" where
  "pooled_init s os st = \<lparr>pd_run = service_init s os st, pd_tp = tp_init (srv_threads s), pd_main = Accepting,
     pd_built = {}, pd_accepted = [], pd_undefined = False\<rparr>"

section \<open>Steps\<close>

text \<open>
  An \<open>accept\<close> that fails changes nothing. A worker that has run into undefined behaviour takes no
  further step here.
\<close>

inductive pooled_step :: "('f, 'd) Connection \<Rightarrow> 'd pooled_server \<Rightarrow> 'd pooled_server \<Rightarrow> bool" for c where
  main_accepts: "pd_main P = Accepting \<Longrightarrow> srv_running (ru_server (pd_run P)) \<Longrightarrow>
    accept_all [Some sock] (ru_os (pd_run P)) = ([fd], [], os') \<Longrightarrow>
    pooled_step c P (P\<lparr>pd_run := (pd_run P)\<lparr>ru_os := os', ru_conns := ru_conns (pd_run P) \<union> {fd}\<rparr>,
      pd_accepted := pd_accepted P @ [fd], pd_main := Submitting fd\<rparr>)"
| main_refused: "pd_main P = Submitting fd \<Longrightarrow> submit_refused (tp_pool (pd_tp P)) \<Longrightarrow>
    pooled_step c P (P\<lparr>pd_main := Accepting\<rparr>)"
| main_tests: "pd_main P = Submitting fd \<Longrightarrow> \<not> submit_refused (tp_pool (pd_tp P)) \<Longrightarrow>
    pooled_step c P (P\<lparr>pd_tp := (pd_tp P)\<lparr>tp_passed := fd # tp_passed (pd_tp P)\<rparr>, pd_main := Pushing fd\<rparr>)"
| main_pushes: "pd_main P = Pushing fd \<Longrightarrow> mutex_free (tp_pool (pd_tp P)) \<Longrightarrow>
    pooled_step c P (P\<lparr>pd_main := Notifying, pd_tp := (pd_tp P)\<lparr>tp_pool := submit_push fd (tp_pool (pd_tp P)),
      tp_passed := remove1 fd (tp_passed (pd_tp P)), tp_to_notify := tp_to_notify (pd_tp P) + 1,
      tp_pushed := tp_pushed (pd_tp P) @ [fd],
      tp_late := (if m_stopping (tp_pool (pd_tp P)) then tp_late (pd_tp P) @ [fd] else tp_late (pd_tp P))\<rparr>\<rparr>)"
| main_notifies: "pd_main P = Notifying \<Longrightarrow> notify_one_picks who (tp_pool (pd_tp P)) \<Longrightarrow>
    pooled_step c P (P\<lparr>pd_main := Accepting, pd_tp := (pd_tp P)\<lparr>tp_pool := notify_one who (tp_pool (pd_tp P)),
      tp_to_notify := tp_to_notify (pd_tp P) - 1\<rparr>\<rparr>)"
| main_leaves: "pd_main P = Accepting \<Longrightarrow> \<not> srv_running (ru_server (pd_run P)) \<Longrightarrow>
    pooled_step c P (P\<lparr>pd_main := Destroying\<rparr>)"
| main_stores: "pd_main P = Destroying \<Longrightarrow> tp_destructor (pd_tp P) = NotCalled \<Longrightarrow>
    pooled_step c P (P\<lparr>pd_tp := (pd_tp P)\<lparr>tp_pool := destroy_store (tp_pool (pd_tp P)), tp_destructor := destructor.Stored\<rparr>\<rparr>)"
| main_wakes: "pd_main P = Destroying \<Longrightarrow> tp_destructor (pd_tp P) = destructor.Stored \<Longrightarrow>
    pooled_step c P (P\<lparr>pd_tp := (pd_tp P)\<lparr>tp_pool := notify_all (tp_pool (pd_tp P)), tp_destructor := Notified\<rparr>\<rparr>)"
| worker_locks: "worker_at i AtLock (pd_tp P) \<Longrightarrow> mutex_free (tp_pool (pd_tp P)) \<Longrightarrow>
    pooled_step c P (P\<lparr>pd_tp := (pd_tp P)\<lparr>tp_pool := worker_lock i (tp_pool (pd_tp P)),
      tp_taken := tp_taken (pd_tp P) @ take 1 (m_tasks (tp_pool (pd_tp P)))\<rparr>\<rparr>)"
| worker_sleeps: "worker_at i BeforeSleep (pd_tp P) \<Longrightarrow>
    pooled_step c P (P\<lparr>pd_tp := (pd_tp P)\<lparr>tp_pool := worker_sleep i (tp_pool (pd_tp P))\<rparr>\<rparr>)"
| worker_wakes: "worker_at i Asleep (pd_tp P) \<Longrightarrow>
    pooled_step c P (P\<lparr>pd_tp := (pd_tp P)\<lparr>tp_pool := worker_wake i (tp_pool (pd_tp P))\<rparr>\<rparr>)"
| worker_builds: "worker_at i (Busy fd) (pd_tp P) \<Longrightarrow> fd \<notin> pd_built P \<Longrightarrow> pd_main P \<noteq> Destroying \<Longrightarrow>
    pooled_step c P (P\<lparr>pd_built := insert fd (pd_built P)\<rparr>)"
| worker_builds_late: "worker_at i (Busy fd) (pd_tp P) \<Longrightarrow> fd \<notin> pd_built P \<Longrightarrow> pd_main P = Destroying \<Longrightarrow>
    pooled_step c P (P\<lparr>pd_undefined := True\<rparr>)"
| worker_serves: "worker_at i (Busy fd) (pd_tp P) \<Longrightarrow> fd \<in> pd_built P \<Longrightarrow> fst (fst (recv_on fd data (ru_os (pd_run P)))) \<Longrightarrow>
    handle_round (c\<lparr>c_fd := fd\<rparr>) data (ru_world (pd_run P)) = (Ret (), w) \<Longrightarrow>
    pooled_step c P (P\<lparr>pd_run := ru_after w (pd_run P)\<rparr>)"
| worker_ends: "worker_at i (Busy fd) (pd_tp P) \<Longrightarrow> fd \<in> pd_built P \<Longrightarrow>
    handle_round (c\<lparr>c_fd := fd\<rparr>) data (ru_world (pd_run P)) = (r, w) \<Longrightarrow>
    r = Throws \<or> r = Ret () \<and> \<not> fst (fst (recv_on fd data (ru_os (pd_run P)))) \<Longrightarrow>
    pooled_step c P (P\<lparr>pd_run := (ru_after w (pd_run P))\<lparr>ru_os := sys_close fd (w_os w), ru_conns := ru_conns (pd_run P) - {fd}\<rparr>,
      pd_tp := (pd_tp P)\<lparr>tp_pool := worker_done i (tp_pool (pd_tp P)), tp_finished := tp_finished (pd_tp P) @ [fd]\<rparr>,
      pd_built := pd_built P - {fd}\<rparr>)"
| others: "background_step c (pd_run P) S' \<Longrightarrow> pooled_step c P (P\<lparr>pd_run := S'\<rparr>)"

section \<open>Both views of a step\<close>

text \<open>What \<open>main\<close> holds: a descriptor it has accepted and not yet pushed.\<close>

fun in_hand :: "main_at \<Rightarrow> int list" where
  "in_hand (Submitting fd) = [fd]"
| "in_hand (Pushing fd) = [fd]"
| "in_hand _ = []"

definition busy_fds :: "int tp_world \<Rightarrow> int list" where
  "busy_fds w = concat (map busy_task (m_workers (tp_pool w)))"

text \<open>The descriptors of live connections: in the hand of \<open>main\<close>, queued, or with a worker.\<close>

definition live_fds :: "'d pooled_server \<Rightarrow> int multiset" where
  "live_fds P = mset (in_hand (pd_main P)) + mset (m_tasks (tp_pool (pd_tp P))) + busy (m_workers (tp_pool (pd_tp P)))"

definition main_ok :: "main_at \<Rightarrow> int tp_world \<Rightarrow> bool \<Rightarrow> bool" where
  "main_ok m w up \<longleftrightarrow> tp_passed w = (case m of Pushing fd \<Rightarrow> [fd] | _ \<Rightarrow> [])
     \<and> tp_to_notify w = (if m = Notifying then 1 else 0) \<and> tp_late w = []
     \<and> (m \<noteq> Destroying \<longrightarrow> tp_destructor w = NotCalled) \<and> (m = Destroying \<longrightarrow> \<not> up)"

definition books_ok :: "'d pooled_server \<Rightarrow> bool" where
  "books_ok P \<longleftrightarrow> main_ok (pd_main P) (pd_tp P) (srv_running (ru_server (pd_run P)))
     \<and> pd_accepted P = tp_pushed (pd_tp P) @ in_hand (pd_main P)
     \<and> finite (ru_conns (pd_run P)) \<and> live_fds P = mset_set (ru_conns (pd_run P))
     \<and> (\<forall>fd \<in> pd_built P. fd \<in># busy (m_workers (tp_pool (pd_tp P))))"

definition pooled_ok :: "int set \<Rightarrow> nat \<Rightarrow> nat \<Rightarrow> 'd pooled_server \<Rightarrow> bool" where
  "pooled_ok B e n P \<longleftrightarrow> service_ok B e (pd_run P) \<and> (tp_history (pd_tp P) \<and> tp_live n (pd_tp P)) \<and> books_ok P"

lemma worker_at_busy:
  assumes "worker_at i (Busy fd) w"
  shows "fd \<in># busy (m_workers (tp_pool w))"
proof -
  have "Busy fd \<in> set (m_workers (tp_pool w))" using assms by (auto simp: worker_at_def in_set_conv_nth)
  then have "\<exists>x \<in> set (m_workers (tp_pool w)). fd \<in> set (busy_task x)" by (intro bexI [of _ "Busy fd"]) simp_all
  then show ?thesis by (simp add: busy_def)
qed

lemma worker_conn:
  assumes "books_ok P" and "worker_at i (Busy fd) (pd_tp P)"
  shows "fd \<in> ru_conns (pd_run P)"
proof -
  have "fd \<in># live_fds P" using worker_at_busy [OF assms(2)] by (simp add: live_fds_def)
  with assms(1) show ?thesis by (simp add: books_ok_def)
qed

text \<open>The pool takes at most one step.\<close>

lemma pooled_tp:
  assumes "pooled_step c P P'" and "books_ok P"
  shows "tp_move\<^sup>*\<^sup>* (pd_tp P) (pd_tp P')"
  using assms(1)
proof cases
  case (main_tests fd)
  then show ?thesis using tp_step.test [of "pd_tp P" fd] by (auto intro: program)
next
  case (main_pushes fd)
  then have "fd \<in> set (tp_passed (pd_tp P))" using assms(2) by (simp add: books_ok_def main_ok_def)
  from program [OF tp_step.push [OF this main_pushes(3)]] have "tp_move (pd_tp P) (pd_tp P')"
    unfolding main_pushes(1) by simp
  then show ?thesis ..
next
  case (main_notifies who)
  then have "0 < tp_to_notify (pd_tp P)" using assms(2) by (simp add: books_ok_def main_ok_def)
  then show ?thesis using main_notifies tp_step.notify [of "pd_tp P" who] by (auto intro: program)
next
  case main_stores
  then show ?thesis using tp_step.destroy [of "pd_tp P"] by (auto intro: program)
next
  case main_wakes
  then show ?thesis using tp_step.notify_all [of "pd_tp P"] by (auto intro: program)
next
  case (worker_locks i)
  then show ?thesis using tp_step.lock [of i "pd_tp P"] by (auto intro: program)
next
  case (worker_sleeps i)
  then show ?thesis using tp_step.sleep [of i "pd_tp P"] by (auto intro: program)
next
  case (worker_wakes i)
  then show ?thesis using tp_move.spurious [of i "pd_tp P"] by auto
next
  case (worker_ends i fd data r w)
  then show ?thesis using tp_step.finish [of i fd "pd_tp P"] by (auto intro: program)
qed simp_all

text \<open>And so does the server without its pool.\<close>

lemma pooled_service:
  assumes "pooled_step c P P'" and "books_ok P"
  shows "(service_step c)\<^sup>*\<^sup>* (pd_run P) (pd_run P')"
  using assms(1)
proof cases
  case (main_accepts sock fd os')
  let ?l = "srv_listen_fd (ru_server (pd_run P))"
  have "acceptLoop_round ?l [?l] [Some sock] (ru_os (pd_run P)) = ([fd], [], os')" using main_accepts(4) by simp
  from accepts [OF main_accepts(3) this, of c] main_accepts(1) show ?thesis by auto
next
  case (worker_serves i fd data w)
  then show ?thesis using serves [OF worker_conn [OF assms(2) worker_serves(2)], of data c w] by auto
next
  case (worker_ends i fd data r w)
  then show ?thesis using ends [OF worker_conn [OF assms(2) worker_ends(2)], of c data r w] by auto
next
  case (others S')
  then show ?thesis by (auto intro: background)
qed simp_all

section \<open>The books\<close>

lemma background_books:
  "background_step c S S' \<Longrightarrow> ru_conns S' = ru_conns S \<and> (srv_running (ru_server S') \<longrightarrow> srv_running (ru_server S))"
  by (induction rule: background_step.induct)
    (auto simp: ru_pool_after_def ru_after_def server_stop_def stop_raft_def split: if_splits prod.splits option.splits)

lemma busy_set_worker:
  "worker_at i x w \<Longrightarrow> busy ((m_workers (tp_pool w))[i := y]) + mset (busy_task x) = busy (m_workers (tp_pool w)) + mset (busy_task y)"
  using busy_update [of i "m_workers (tp_pool w)" y] by (simp add: worker_at_def)

lemma books_lock:
  assumes "books_ok P" and "worker_at i AtLock (pd_tp P)"
  shows "books_ok (P\<lparr>pd_tp := (pd_tp P)\<lparr>tp_pool := worker_lock i (tp_pool (pd_tp P)), tp_taken := ts\<rparr>\<rparr>)"
proof -
  note set = busy_set_worker [OF assms(2)]
  show ?thesis
    using assms(1) set [of Exited] set [of BeforeSleep] set [of "Busy (hd (m_tasks (tp_pool (pd_tp P))))"]
    by (cases "m_tasks (tp_pool (pd_tp P))") (auto simp: books_ok_def main_ok_def live_fds_def worker_lock_def)
qed

lemma books_quiet:
  assumes "books_ok P" and "worker_at i x (pd_tp P)" and "busy_task x = []" and "busy_task y = []"
  shows "books_ok (P\<lparr>pd_tp := (pd_tp P)\<lparr>tp_pool := (tp_pool (pd_tp P))\<lparr>m_workers := (m_workers (tp_pool (pd_tp P)))[i := y]\<rparr>\<rparr>\<rparr>)"
  using assms busy_set_worker [OF assms(2), of y] by (simp add: books_ok_def main_ok_def live_fds_def)

lemma books_ends:
  assumes "books_ok P" and "worker_at i (Busy fd) (pd_tp P)" and "ru_conns S' = ru_conns (pd_run P) - {fd}"
    and "srv_running (ru_server S') = srv_running (ru_server (pd_run P))"
  shows "books_ok (P\<lparr>pd_run := S', pd_tp := (pd_tp P)\<lparr>tp_pool := worker_done i (tp_pool (pd_tp P)), tp_finished := ts\<rparr>,
    pd_built := pd_built P - {fd}\<rparr>)"
proof -
  let ?ws = "m_workers (tp_pool (pd_tp P))"
  have b: "busy ?ws = add_mset fd (busy (?ws[i := AtLock]))" using busy_set_worker [OF assms(2), of AtLock] by simp
  have fd: "fd \<in> ru_conns (pd_run P)" using worker_conn [OF assms(1,2)] .
  have live: "live_fds P = mset_set (ru_conns (pd_run P))" "finite (ru_conns (pd_run P))" using assms(1) by (simp_all add: books_ok_def)
  have "mset_set (ru_conns (pd_run P)) = add_mset fd (mset_set (ru_conns (pd_run P) - {fd}))"
    using live(2) fd by (metis mset_set.remove)
  with live b have "mset (in_hand (pd_main P)) + mset (m_tasks (tp_pool (pd_tp P))) + busy (?ws[i := AtLock])
      = mset_set (ru_conns (pd_run P) - {fd})" by (simp add: live_fds_def)
  with assms b show ?thesis by (auto simp: books_ok_def main_ok_def live_fds_def worker_done_def)
qed

lemma books_accept:
  assumes "books_ok P" and "pd_main P = Accepting" and "fd \<notin> ru_conns (pd_run P)"
  shows "books_ok (P\<lparr>pd_run := (pd_run P)\<lparr>ru_os := os', ru_conns := ru_conns (pd_run P) \<union> {fd}\<rparr>,
    pd_accepted := pd_accepted P @ [fd], pd_main := Submitting fd\<rparr>)"
  using assms by (auto simp: books_ok_def main_ok_def live_fds_def)

lemma books_step:
  assumes "pooled_step c P P'" and "pooled_ok B e n P"
  shows "books_ok P'"
proof -
  have books: "books_ok P" and live: "tp_live n (pd_tp P)" and serv: "service_ok B e (pd_run P)"
    using assms(2) by (simp_all add: pooled_ok_def)
  from assms(1) show ?thesis
  proof cases
    case (main_accepts sock fd os')
    have "ru_conns (pd_run P) \<subseteq> open_fds (ru_os (pd_run P))" using serv by (auto simp: service_ok_def pool_ok_def owns_def)
    then have "fd \<notin> ru_conns (pd_run P)" using accept_all_fresh [OF main_accepts(4)] by auto
    from books_accept [OF books main_accepts(2) this] main_accepts(1) show ?thesis by simp
  next
    case (main_refused fd)
    then show ?thesis using books live by (simp add: books_ok_def main_ok_def tp_live_def submit_refused_def Let_def)
  next
    case (main_pushes fd)
    then show ?thesis
      using books live by (auto simp: books_ok_def main_ok_def live_fds_def submit_push_def tp_live_def Let_def)
  next
    case (main_notifies who)
    then show ?thesis
      using books books_quiet [OF books, of _ Asleep AtLock]
      by (cases who) (auto simp: books_ok_def main_ok_def live_fds_def notify_one_def notify_one_picks_def worker_wake_def worker_at_def)
  next
    case (worker_locks i)
    then show ?thesis using books_lock [OF books] by simp
  next
    case (worker_sleeps i)
    then show ?thesis using books_quiet [OF books, of i BeforeSleep Asleep] by (simp add: worker_sleep_def)
  next
    case (worker_wakes i)
    then show ?thesis using books_quiet [OF books, of i Asleep AtLock] by (simp add: worker_wake_def)
  next
    case (worker_builds i fd)
    then show ?thesis using books worker_at_busy by (auto simp: books_ok_def live_fds_def)
  next
    case (worker_ends i fd data r w)
    from books_ends [OF books worker_ends(2), of "(ru_after w (pd_run P))\<lparr>ru_os := sys_close fd (w_os w), ru_conns := ru_conns (pd_run P) - {fd}\<rparr>"]
    show ?thesis unfolding worker_ends(1) by (simp add: ru_after_def)
  next
    case (others S')
    then show ?thesis using books background_books [OF others(2)] by (auto simp: books_ok_def main_ok_def live_fds_def)
  qed (use books in \<open>auto simp: books_ok_def main_ok_def live_fds_def ru_after_def destroy_store_def notify_all_def busy_wake\<close>)
qed

section \<open>Two simulations\<close>

lemma pooled_kept:
  assumes "pooled_step c P P'" and "pooled_ok B e n P"
  shows "pooled_ok B e n P'"
proof -
  have ok: "service_ok B e (pd_run P)" "tp_history (pd_tp P) \<and> tp_live n (pd_tp P)" "books_ok P"
    using assms(2) by (simp_all add: pooled_ok_def)
  from service.run_kept [OF pooled_service [OF assms(1) ok(3)] ok(1)]
    tp.run_kept [OF pooled_tp [OF assms(1) ok(3)] ok(2)] books_step [OF assms]
  show ?thesis unfolding pooled_ok_def by blast
qed

lemma pooled_books: "pooled_ok B e n P \<Longrightarrow> books_ok P"
  by (simp add: pooled_ok_def)

interpretation with_service: step_simulation "pooled_step c" "pooled_ok B e n" "service_step c" pd_run
  by unfold_locales (blast intro: pooled_kept pooled_service pooled_books)+

interpretation with_pool: step_simulation "pooled_step c" "pooled_ok B e n" tp_move pd_tp
  by unfold_locales (blast intro: pooled_tp pooled_books)

lemma pooled_init_ok:
  assumes "server_start ls db t s os st = Inr (True, s1, os1, st1)"
  shows "pooled_ok (open_fds os) (os_ebadf os) (srv_threads s1) (pooled_init s1 os1 st1)"
proof -
  have "tp_history (tp_init (srv_threads s1) :: int tp_world) \<and> tp_live (srv_threads s1) (tp_init (srv_threads s1) :: int tp_world)"
    by (rule tp_reach_inv [OF tp_reach_init])
  moreover have "busy (replicate k AtLock :: int worker list) = {#}" for k by (induction k) (simp_all add: busy_def)
  ultimately show ?thesis
    using service_init_ok [OF assms]
    by (simp add: pooled_ok_def pooled_init_def books_ok_def main_ok_def live_fds_def tp_init_def ThreadPool_init_def service_init_def)
qed

lemma pooled_ok_joined:
  assumes "pooled_ok B e n P" and "join_all (tp_pool (pd_tp P))"
  shows "pd_main P = Destroying" "m_tasks (tp_pool (pd_tp P)) = []" "ru_conns (pd_run P) = {}"
    "\<not> srv_running (ru_server (pd_run P))" "mset (pd_accepted P) = mset (tp_finished (pd_tp P))"
proof -
  let ?ws = "m_workers (tp_pool (pd_tp P))"
  have books: "books_ok P" and live: "tp_live n (pd_tp P)" and hist: "tp_history (pd_tp P)"
    using assms(1) by (simp_all add: pooled_ok_def)
  have "?ws \<noteq> []" using live by (auto simp: tp_live_def Let_def)
  then have "Exited \<in> set ?ws" using assms(2) hd_in_set [of ?ws] unfolding join_all_def by metis
  then have stop: "m_stopping (tp_pool (pd_tp P))" "m_tasks (tp_pool (pd_tp P)) = []"
    using live books by (auto simp: tp_live_def Let_def books_ok_def main_ok_def)
  with live books show main: "pd_main P = Destroying" by (auto simp: tp_live_def Let_def books_ok_def main_ok_def)
  show "m_tasks (tp_pool (pd_tp P)) = []" by (rule stop(2))
  have none: "busy ?ws = {#}" using assms(2) by (auto simp: join_all_def busy_def)
  with main stop books have "mset_set (ru_conns (pd_run P)) = {#}" "finite (ru_conns (pd_run P))"
    by (simp_all add: books_ok_def live_fds_def)
  then show "ru_conns (pd_run P) = {}" by (simp add: mset_set_empty_iff)
  show "\<not> srv_running (ru_server (pd_run P))" using main books by (simp add: books_ok_def main_ok_def)
  show "mset (pd_accepted P) = mset (tp_finished (pd_tp P))"
    using main none stop hist books by (simp add: tp_history_def books_ok_def)
qed

section \<open>Properties\<close>

text \<open>
  C4. Every accepted connection is served once: in every state that a started server can reach, with
  its accept loop, its pool, the Raft threads, the cleanup thread and signals in any interleaving, the
  accepted connections in their order are those the workers have taken, those queued and the one \<open>main\<close>
  is submitting; every connection taken has ended or is with exactly one worker, so no two workers share
  a connection; the live connections are those with a worker, in the queue or in submission, each once;
  at most as many are served at a time as the pool has threads.
\<close>

theorem accepted_served_once:
  assumes "server_start ls db t s0 os0 st0 = Inr (True, s1, os1, st1)"
    and "(pooled_step c)\<^sup>*\<^sup>* (pooled_init s1 os1 st1) P"
  shows "pd_accepted P = tp_taken (pd_tp P) @ m_tasks (tp_pool (pd_tp P)) @ in_hand (pd_main P)
    \<and> mset (tp_taken (pd_tp P)) = mset (tp_finished (pd_tp P)) + mset (busy_fds (pd_tp P))
    \<and> distinct (busy_fds (pd_tp P) @ m_tasks (tp_pool (pd_tp P)) @ in_hand (pd_main P))
    \<and> ru_conns (pd_run P) = set (busy_fds (pd_tp P) @ m_tasks (tp_pool (pd_tp P)) @ in_hand (pd_main P))
    \<and> length (busy_fds (pd_tp P)) \<le> max 1 (srv_threads s1)"
proof -
  let ?w = "pd_tp P" and ?fds = "busy_fds (pd_tp P) @ m_tasks (tp_pool (pd_tp P)) @ in_hand (pd_main P)"
  have ok: "pooled_ok (open_fds os0) (os_ebadf os0) (srv_threads s1) P"
    using with_service.run_kept [OF assms(2) pooled_init_ok [OF assms(1)]] .
  then have books: "books_ok P" and live: "tp_live (srv_threads s1) ?w" and hist: "tp_history ?w"
    by (simp_all add: pooled_ok_def)
  have "mset ?fds = mset_set (ru_conns (pd_run P))" "finite (ru_conns (pd_run P))"
    using books by (simp_all add: books_ok_def live_fds_def busy_fds_def busy_def ac_simps)
  then have conns: "distinct ?fds" "ru_conns (pd_run P) = set ?fds"
    by (metis distinct_count_atmost_1 count_mset_set(1) count_mset_set(3) set_mset_mset finite_set_mset_mset_set,
        metis set_mset_mset finite_set_mset_mset_set)
  have "length (concat (map busy_task ws)) \<le> length ws" for ws :: "int worker list"
    by (induction ws) (auto simp: busy_task_def split: worker.splits)
  then have "length (busy_fds ?w) \<le> max 1 (srv_threads s1)"
    using live by (metis busy_fds_def tp_live_def)
  with conns hist books show ?thesis by (simp add: tp_history_def books_ok_def busy_fds_def busy_def)
qed

text \<open>
  C5. The program leaves nothing open: when the destructor of the thread pool has joined its workers, every
  connection that was ever accepted has been served to its end, no task is left in the queue, and the
  open descriptors are those from before the start, none of them closed twice.
\<close>

theorem exit_closes_everything:
  assumes "server_start ls db t s0 os0 st0 = Inr (True, s1, os1, st1)"
    and "(pooled_step c)\<^sup>*\<^sup>* (pooled_init s1 os1 st1) P" and "join_all (tp_pool (pd_tp P))"
  shows "mset (pd_accepted P) = mset (tp_finished (pd_tp P)) \<and> m_tasks (tp_pool (pd_tp P)) = []
    \<and> open_fds (ru_os (pd_run P)) = open_fds os0 \<and> os_ebadf (ru_os (pd_run P)) = os_ebadf os0"
proof -
  have ok: "pooled_ok (open_fds os0) (os_ebadf os0) (srv_threads s1) P"
    using with_service.run_kept [OF assms(2) pooled_init_ok [OF assms(1)]] .
  then have "service_ok (open_fds os0) (os_ebadf os0) (pd_run P)" by (simp add: pooled_ok_def)
  with pooled_ok_joined [OF ok assms(3)] service_ok_closed show ?thesis by blast
qed

section \<open>Instances\<close>

text \<open>A server with one worker that has accepted a client, which says nothing, and has queued it.\<close>

definition small_server :: Server where
  "small_server = shipped_server\<lparr>srv_threads := 1\<rparr>"

lemma small_started:
  "\<exists>s os st. server_start all_listen memory_db tick small_server idle_os RocksDBStorage_init = Inr (True, s, os, st)
     \<and> srv_running s \<and> srv_threads s = 1 \<and> map fst (os_desc os) = [4, 3] \<and> os_limit os = 8"
  by (simp add: server_start_def setupSocket_def sys_epoll_create_def sys_socket_def lowest_free_def idle_os_def
      all_listen_def storage_open_def memory_db_def raft_start_def raft_threads_init_def small_server_def shipped_server_def)

definition one_worker :: "int worker \<Rightarrow> int list \<Rightarrow> int list \<Rightarrow> int list \<Rightarrow> int tp_world" where
  "one_worker x queue taken served = \<lparr>tp_pool = \<lparr>m_workers = [x], m_tasks = queue, m_stopping = False\<rparr>, tp_passed = [], tp_to_notify = 0,
     tp_destructor = NotCalled, tp_pushed = taken @ queue, tp_taken = taken, tp_finished = served, tp_late = []\<rparr>"

definition one_client :: "'d running \<Rightarrow> int worker \<Rightarrow> int list \<Rightarrow> int list \<Rightarrow> int list \<Rightarrow> main_at \<Rightarrow> 'd pooled_server" where
  "one_client S x queue taken served m = \<lparr>pd_run = S, pd_tp = one_worker x queue taken served,
     pd_main = m, pd_built = {}, pd_accepted = [5], pd_undefined = False\<rparr>"

lemma client_queued:
  assumes "srv_running s" and "srv_threads s = 1" and "accept_all [Some sock] os = ([5], [], os')"
  shows "(pooled_step c)\<^sup>*\<^sup>* (pooled_init s os st)
    (one_client ((service_init s os st)\<lparr>ru_os := os', ru_conns := {5}\<rparr>) AtLock [5] [] [] Accepting)"
proof -
  let ?P = "pooled_init s os st" and ?S = "(service_init s os st)\<lparr>ru_os := os', ru_conns := {5}\<rparr>"
  let ?at = "\<lambda>m w. \<lparr>pd_run = ?S, pd_tp = w, pd_main = m, pd_built = {}, pd_accepted = [5], pd_undefined = False\<rparr>"
  let ?w = "tp_init 1 :: int tp_world"
  have 1: "pooled_step c ?P (?at (Submitting 5) ?w)"
    using main_accepts [of ?P sock 5 os' c] assms by (simp add: pooled_init_def service_init_def)
  have 2: "pooled_step c (?at (Submitting 5) ?w) (?at (Pushing 5) (?w\<lparr>tp_passed := [5]\<rparr>))"
    using main_tests [of "?at (Submitting 5) ?w" 5 c] by (simp add: submit_refused_def tp_init_def ThreadPool_init_def)
  have 3: "pooled_step c (?at (Pushing 5) (?w\<lparr>tp_passed := [5]\<rparr>)) (?at Notifying ((one_worker AtLock [5] [] [])\<lparr>tp_to_notify := 1\<rparr>))"
    using main_pushes [of "?at (Pushing 5) (?w\<lparr>tp_passed := [5]\<rparr>)" 5 c]
    by (simp add: mutex_free_def submit_push_def tp_init_def ThreadPool_init_def one_worker_def)
  have 4: "pooled_step c (?at Notifying ((one_worker AtLock [5] [] [])\<lparr>tp_to_notify := 1\<rparr>)) (?at Accepting (one_worker AtLock [5] [] []))"
    using main_notifies [of "?at Notifying ((one_worker AtLock [5] [] [])\<lparr>tp_to_notify := 1\<rparr>)" None c]
    by (simp add: notify_one_picks_def notify_one_def one_worker_def)
  from 1 2 3 4 show ?thesis unfolding one_client_def by (meson rtranclp.rtrancl_refl converse_rtranclp_into_rtranclp)
qed

lemma worker_takes_client:
  "pooled_step c (one_client S AtLock [5] [] [] m) (one_client S (Busy 5) [] [5] [] m)"
  using worker_locks [of 0 "one_client S AtLock [5] [] [] m" c]
  by (simp add: one_client_def one_worker_def worker_at_def mutex_free_def worker_lock_def)

lemma main_stops:
  assumes "srv_running (ru_server S)"
  shows "\<exists>S'. \<not> srv_running (ru_server S') \<and> ru_conns S' = ru_conns S
    \<and> (pooled_step c)\<^sup>*\<^sup>* (one_client S x queue taken served Accepting) (one_client S' x queue taken served Destroying)"
proof -
  obtain s' os' where stop: "server_stop (ru_server S) (ru_os S) = (s', os')" by fastforce
  let ?S = "S\<lparr>ru_server := s', ru_os := os'\<rparr>"
  have off: "\<not> srv_running s'" using stop assms by (auto simp: server_stop_def stop_raft_def split: option.splits prod.splits if_splits)
  have "background_step c S ?S" using stops [OF stop] .
  then have "pooled_step c (one_client S x queue taken served Accepting) (one_client ?S x queue taken served Accepting)"
    using others [of c "one_client S x queue taken served Accepting" ?S] by (simp add: one_client_def)
  moreover have "pooled_step c (one_client ?S x queue taken served Accepting) (one_client ?S x queue taken served Destroying)"
    using main_leaves [of "one_client ?S x queue taken served Accepting" c] off by (simp add: one_client_def)
  ultimately show ?thesis using off by (intro exI [of _ ?S]) (simp add: converse_rtranclp_into_rtranclp)
qed

lemma small_server_queues:
  "\<exists>s os st S. server_start all_listen memory_db tick small_server idle_os RocksDBStorage_init = Inr (True, s, os, st)
     \<and> srv_running (ru_server S) \<and> ru_conns S = {5} \<and> client_rx 5 (ru_os S) = Some ([], [])
     \<and> (pooled_step c)\<^sup>*\<^sup>* (pooled_init s os st) (one_client S AtLock [5] [] [] Accepting)"
proof -
  obtain s os st where start: "server_start all_listen memory_db tick small_server idle_os RocksDBStorage_init = Inr (True, s, os, st)"
    and s: "srv_running s" "srv_threads s = 1" "map fst (os_desc os) = [4, 3]" "os_limit os = 8"
    using small_started by (elim exE conjE)
  obtain os' where "accept_all [Some (mk_socket [] [])] os = ([5], [], os')" "client_rx 5 os' = Some ([], [])"
    using accept_silent_client [OF s(3,4)] by (auto split: prod.splits)
  with client_queued [OF s(1,2) this(1), of c st] start s(1) show ?thesis
    by (intro exI [of _ s] exI [of _ os] exI [of _ st] exI [of _ "(service_init s os st)\<lparr>ru_os := os', ru_conns := {5}\<rparr>"])
      (simp add: service_init_def)
qed

text \<open>
  The destructor of the server destroys \<open>m_raft_node\<close> before it joins the workers: a connection that is
  still queued then is built from a destroyed member.
\<close>

theorem queued_task_reads_destroyed_member:
  "\<exists>s os st P. server_start all_listen memory_db tick small_server idle_os RocksDBStorage_init = Inr (True, s, os, st)
     \<and> (pooled_step (client_conn sample_js))\<^sup>*\<^sup>* (pooled_init s os st) P \<and> pd_undefined P"
proof -
  let ?c = "client_conn sample_js"
  obtain s os st S where start: "server_start all_listen memory_db tick small_server idle_os RocksDBStorage_init = Inr (True, s, os, st)"
    and S: "srv_running (ru_server S)" "(pooled_step ?c)\<^sup>*\<^sup>* (pooled_init s os st) (one_client S AtLock [5] [] [] Accepting)"
    using small_server_queues [of ?c] by (elim exE conjE)
  obtain S' where leave: "(pooled_step ?c)\<^sup>*\<^sup>* (one_client S AtLock [5] [] [] Accepting) (one_client S' AtLock [5] [] [] Destroying)"
    using main_stops [OF S(1)] by blast
  let ?P = "one_client S' (Busy 5) [] [5] [] Destroying"
  have late: "pooled_step ?c ?P (?P\<lparr>pd_undefined := True\<rparr>)"
    by (rule worker_builds_late [of 0 5]) (simp_all add: one_client_def one_worker_def worker_at_def)
  have "(pooled_step ?c)\<^sup>*\<^sup>* (pooled_init s os st) (one_client S' AtLock [5] [] [] Destroying)" using S(2) leave by (rule rtranclp_trans)
  then have "(pooled_step ?c)\<^sup>*\<^sup>* (pooled_init s os st) ?P" using worker_takes_client by (rule rtranclp.rtrancl_into_rtrancl)
  then have "(pooled_step ?c)\<^sup>*\<^sup>* (pooled_init s os st) (?P\<lparr>pd_undefined := True\<rparr>)" using late by (rule rtranclp.rtrancl_into_rtrancl)
  then show ?thesis using start by (intro exI [of _ s] exI [of _ os] exI [of _ st] exI [of _ "?P\<lparr>pd_undefined := True\<rparr>"]) simp
qed

theorem accepted_served_once_witness:
  "\<exists>s os st S P. server_start all_listen memory_db tick small_server idle_os RocksDBStorage_init = Inr (True, s, os, st)
     \<and> P = one_client S (Busy 5) [] [5] [] Accepting \<and> (pooled_step (client_conn sample_js))\<^sup>*\<^sup>* (pooled_init s os st) P
     \<and> busy_fds (pd_tp P) = [5] \<and> ru_conns (pd_run P) = {5}"
proof -
  let ?c = "client_conn sample_js"
  obtain s os st S where start: "server_start all_listen memory_db tick small_server idle_os RocksDBStorage_init = Inr (True, s, os, st)"
    and S: "(pooled_step ?c)\<^sup>*\<^sup>* (pooled_init s os st) (one_client S AtLock [5] [] [] Accepting)"
    using small_server_queues [of ?c] by (elim exE conjE)
  let ?P = "one_client S (Busy 5) [] [5] [] Accepting"
  have run: "(pooled_step ?c)\<^sup>*\<^sup>* (pooled_init s os st) ?P" using S worker_takes_client by (rule rtranclp.rtrancl_into_rtrancl)
  have "busy_fds (pd_tp ?P) = [5]" by (simp add: busy_fds_def one_client_def one_worker_def)
  moreover from this accepted_served_once [OF start run] have "ru_conns (pd_run ?P) = {5}"
    by (simp add: one_client_def one_worker_def)
  ultimately show ?thesis using start run by blast
qed

text \<open>The silent client is served, the server is stopped and its worker joined.\<close>

lemma client_served:
  assumes "client_rx 5 (ru_os S) = Some ([], [])" and "srv_running (ru_server S)"
  shows "\<exists>S'. srv_running (ru_server S')
    \<and> (pooled_step c)\<^sup>*\<^sup>* (one_client S (Busy 5) [] [5] [] Accepting) (one_client S' AtLock [] [5] [5] Accepting)"
proof -
  let ?P = "one_client S (Busy 5) [] [5] [] Accepting" and ?w = "ru_world S"
  let ?S = "(ru_after ?w S)\<lparr>ru_os := sys_close 5 (w_os ?w), ru_conns := ru_conns S - {5}\<rparr>"
  have built: "pooled_step c ?P (?P\<lparr>pd_built := {5}\<rparr>)"
    using worker_builds [of 0 5 ?P c] by (simp add: one_client_def one_worker_def worker_at_def)
  have "handle_round (c\<lparr>c_fd := 5\<rparr>) [] ?w = (Ret (), ?w)" "\<not> fst (fst (recv_on 5 [] (ru_os S)))"
    using recv_on_closed [OF assms(1), of "[]"] by (simp_all add: handle_round_def ru_world_def)
  then have "pooled_step c (?P\<lparr>pd_built := {5}\<rparr>) (one_client ?S AtLock [] [5] [5] Accepting)"
    using worker_ends [of 0 5 "?P\<lparr>pd_built := {5}\<rparr>" c "[]" "Ret ()" ?w]
    by (simp add: one_client_def one_worker_def worker_at_def worker_done_def)
  with built have "(pooled_step c)\<^sup>*\<^sup>* ?P (one_client ?S AtLock [] [5] [5] Accepting)" by (simp add: converse_rtranclp_into_rtranclp)
  with assms(2) show ?thesis by (intro exI [of _ ?S]) (simp add: ru_after_def)
qed

lemma worker_joined:
  "\<exists>P. (pooled_step c)\<^sup>*\<^sup>* (one_client S AtLock [] [5] [5] Destroying) P \<and> join_all (tp_pool (pd_tp P)) \<and> pd_run P = S"
proof -
  let ?P = "one_client S AtLock [] [5] [5] Destroying"
  let ?w = "(one_worker AtLock [] [5] [5])\<lparr>tp_pool := \<lparr>m_workers = [AtLock], m_tasks = [], m_stopping = True\<rparr>, tp_destructor := destructor.Stored\<rparr>"
  let ?w' = "?w\<lparr>tp_pool := \<lparr>m_workers = [Exited], m_tasks = [], m_stopping = True\<rparr>\<rparr>"
  have 1: "pooled_step c ?P (?P\<lparr>pd_tp := ?w\<rparr>)"
    using main_stores [of ?P c] by (simp add: one_client_def one_worker_def destroy_store_def)
  have "pooled_step c (?P\<lparr>pd_tp := ?w\<rparr>) (?P\<lparr>pd_tp := ?w'\<rparr>)"
    using worker_locks [of 0 "?P\<lparr>pd_tp := ?w\<rparr>" c]
    by (simp add: one_client_def one_worker_def worker_at_def mutex_free_def worker_lock_def)
  with 1 have "(pooled_step c)\<^sup>*\<^sup>* ?P (?P\<lparr>pd_tp := ?w'\<rparr>)" by (simp add: converse_rtranclp_into_rtranclp)
  then show ?thesis by (intro exI [of _ "?P\<lparr>pd_tp := ?w'\<rparr>"]) (simp add: join_all_def one_client_def)
qed

theorem exit_closes_everything_witness:
  "\<exists>s os st P. server_start all_listen memory_db tick small_server idle_os RocksDBStorage_init = Inr (True, s, os, st)
     \<and> (pooled_step (client_conn sample_js))\<^sup>*\<^sup>* (pooled_init s os st) P \<and> join_all (tp_pool (pd_tp P))
     \<and> open_fds (ru_os (pd_run P)) = {}"
proof -
  let ?c = "client_conn sample_js"
  obtain s os st S where start: "server_start all_listen memory_db tick small_server idle_os RocksDBStorage_init = Inr (True, s, os, st)"
    and S: "srv_running (ru_server S)" "client_rx 5 (ru_os S) = Some ([], [])"
      "(pooled_step ?c)\<^sup>*\<^sup>* (pooled_init s os st) (one_client S AtLock [5] [] [] Accepting)"
    using small_server_queues [of ?c] by (elim exE conjE)
  have 1: "(pooled_step ?c)\<^sup>*\<^sup>* (pooled_init s os st) (one_client S (Busy 5) [] [5] [] Accepting)"
    using S(3) worker_takes_client by (rule rtranclp.rtrancl_into_rtrancl)
  obtain S1 where S1: "srv_running (ru_server S1)"
    "(pooled_step ?c)\<^sup>*\<^sup>* (one_client S (Busy 5) [] [5] [] Accepting) (one_client S1 AtLock [] [5] [5] Accepting)"
    using client_served [OF S(2,1)] by blast
  obtain S2 where S2: "(pooled_step ?c)\<^sup>*\<^sup>* (one_client S1 AtLock [] [5] [5] Accepting) (one_client S2 AtLock [] [5] [5] Destroying)"
    using main_stops [OF S1(1)] by blast
  obtain P where P: "(pooled_step ?c)\<^sup>*\<^sup>* (one_client S2 AtLock [] [5] [5] Destroying) P" "join_all (tp_pool (pd_tp P))"
    using worker_joined by blast
  have run: "(pooled_step ?c)\<^sup>*\<^sup>* (pooled_init s os st) P"
    using rtranclp_trans [OF rtranclp_trans [OF 1 S1(2)] rtranclp_trans [OF S2 P(1)]] .
  have "open_fds (ru_os (pd_run P)) = open_fds idle_os" using exit_closes_everything [OF start run P(2)] by simp
  then have "open_fds (ru_os (pd_run P)) = {}" by (simp add: idle_os_def open_fds_def)
  with start run P(2) show ?thesis by blast
qed

end
