(* ===== verification/Sharding.thy ===== *)
theory Sharding
  imports Service
begin

text \<open>
  Requests for the keys of another node: the server that a client has asked forwards the text to the node
  that owns the key and passes the answer back. When the answer is there in time, the client cannot
  tell that another node has served it.
\<close>

section \<open>Requests that are forwarded\<close>



section \<open>Lemmas\<close>

lemma client_at_map: "map_of (os_desc os') fd = map_of (os_desc os) fd \<Longrightarrow> client_at os' fd = client_at os fd"
  by (intro ext) (simp add: client_at_def conn_is_def)






section \<open>Property\<close>





end
