(* ===== verification/Raft_Liveness.thy ===== *)
theory Raft_Liveness
  imports Raft_System
begin

text \<open>
  A cluster can always elect a leader: whatever has happened, there is a continuation in which a node
  becomes leader. The node with the most up-to-date log starts elections until its term is the greatest
  of all; the next one it wins, when its requests are answered.
\<close>

section \<open>Logs that are up to date\<close>

definition newer :: "LogEntry \<Rightarrow> LogEntry \<Rightarrow> bool" where
  "newer e e' \<longleftrightarrow> log_term e > log_term e' \<or> log_term e = log_term e' \<and> log_index e \<ge> log_index e'"

lemma newer_order: "newer e e" "newer e e' \<or> newer e' e" "newer e1 e2 \<Longrightarrow> newer e2 e3 \<Longrightarrow> newer e1 e3"
  by (auto simp: newer_def)

definition last_of :: "'d system \<Rightarrow> string \<Rightarrow> LogEntry" where
  "last_of S i = last (m_logs (fst (nodes S i)))"

lemma newest_exists:
  assumes "finite N" and "N \<noteq> {}"
  shows "\<exists>b \<in> N. \<forall>j \<in> N. newer (last_of S b) (last_of S j)"
  using assms
proof (induction rule: finite_ne_induct)
  case (insert x F)
  then obtain b where b: "b \<in> F" "\<forall>j \<in> F. newer (last_of S b) (last_of S j)" by blast
  show ?case
  proof (cases "newer (last_of S b) (last_of S x)")
    case False
    then have x: "newer (last_of S x) (last_of S b)" using newer_order(2) by blast
    have "newer (last_of S x) (last_of S j)" if "j \<in> insert x F" for j
      using that x b(2) newer_order(1,3) by blast
    then show ?thesis by blast
  qed (use b in auto)
qed (simp add: newer_order)

section \<open>An election whose calls are all lost\<close>

definition lost_calls :: "RequestVoteArgs \<Rightarrow> string list \<Rightarrow> vote_call list" where
  "lost_calls a ps = map (\<lambda>p. (p, a, None)) ps"

lemma lost_calls_loop:
  "election_loop called_vote a ps votes s (Some (lost_calls a ps, [])) = ((False, votes, s), Some ([], []))"
  by (induction ps) (simp_all add: lost_calls_def)

lemma lost_calls_made: "\<exists>S'. vote_calls N put B (lost_calls a ps) S S' \<and> nodes S' = nodes S"
proof (induction ps arbitrary: S)
  case Nil
  then show ?case using votes_done by (fastforce simp: lost_calls_def)
next
  case (Cons p ps)
  obtain S' where "vote_calls N put B (lost_calls a ps) (post_vote p a S) S'" "nodes S' = nodes S"
    using Cons [of "post_vote p a S"] by auto
  then show ?case using vote_fails [of N put B "lost_calls a ps" p a S S'] by (auto simp: lost_calls_def)
qed

text \<open>An election that no reply ends.\<close>

lemma startElection_result:
  assumes "m_logs s \<noteq> []"
    and "\<And>s1. election_loop send (vote_request s) (m_peers s) 1 s1 w = ((False, votes, s1), w')"
  shows "\<exists>s'. startElection send t s w = Some (s', w') \<and> m_currentTerm s' = m_currentTerm s + 1 \<and> m_logs s' = m_logs s
    \<and> (votes \<ge> majority (m_peers s) \<longrightarrow> m_state s' = Leader)"
proof -
  let ?s1 = "resetElectionTimer t (s\<lparr>m_state := Candidate, m_currentTerm := m_currentTerm s + 1, m_votedFor := m_nodeId s\<rparr>)"
  have "m_logs ?s1 = m_logs s" "m_peers ?s1 = m_peers s" "m_currentTerm ?s1 = m_currentTerm s + 1" "m_nodeId ?s1 = m_nodeId s"
    by (simp_all add: resetElectionTimer_def)
  then show ?thesis
    using assms(1) assms(2) [of ?s1] by (simp add: startElection_def Let_def vec_back_def vote_request_def)
qed

text \<open>It raises the term of the candidate by one and changes nothing else that matters.\<close>

lemma lost_election:
  assumes "i \<in> N" and "nodes S i = (s, d)" and "m_state s \<noteq> Leader" and "m_currentTerm s + 1 \<noteq> 0" and "m_logs s \<noteq> []"
  shows "\<exists>S' s'. system_step N put {} S S' \<and> nodes S' = (nodes S)(i := (s', d))
    \<and> m_currentTerm s' = m_currentTerm s + 1 \<and> m_logs s' = m_logs s"
proof -
  let ?vs = "lost_calls (vote_request s) (m_peers s)"
  obtain S1 where S1: "vote_calls N put {i} ?vs S S1" "nodes S1 = nodes S" using lost_calls_made by blast
  obtain s' where s': "startElection called_vote tick s (Some (?vs, [])) = Some (s', Some ([], []))"
    "m_currentTerm s' = m_currentTerm s + 1" "m_logs s' = m_logs s"
    using startElection_result [OF assms(5) lost_calls_loop] by blast
  from elects [OF assms(1) _ assms(2-4) S1(1) s'(1)] S1(2) s'(2,3) show ?thesis
    by (fastforce simp: act_def)
qed

text \<open>Some of them bring a candidate to any greater term, or make it leader before.\<close>

definition leads :: "'d system \<Rightarrow> string \<Rightarrow> bool" where
  "leads S i \<longleftrightarrow> m_state (fst (nodes S i)) = Leader"

lemma term_raised:
  assumes "i \<in> N" and "m_logs (fst (nodes S i)) \<noteq> []" and "m_currentTerm (fst (nodes S i)) \<le> T"
  shows "\<exists>S'. (system_step N put {})\<^sup>*\<^sup>* S S' \<and> (leads S' i \<or> m_currentTerm (fst (nodes S' i)) = T
      \<and> m_logs (fst (nodes S' i)) = m_logs (fst (nodes S i)) \<and> (\<forall>j. j \<noteq> i \<longrightarrow> nodes S' j = nodes S j))"
  using assms(2,3)
proof (induction "unat T - unat (m_currentTerm (fst (nodes S i)))" arbitrary: S)
  case 0
  then have "m_currentTerm (fst (nodes S i)) = T" by (simp add: word_le_nat_alt word_unat_eq_iff)
  then show ?case by (intro exI [of _ S]) simp
next
  case (Suc k)
  obtain s d where s: "nodes S i = (s, d)" by fastforce
  show ?case
  proof (cases "m_state s = Leader")
    case True
    then show ?thesis using s by (intro exI [of _ S]) (simp add: leads_def)
  next
    case False
    have lt: "m_currentTerm s < T" using Suc.hyps(2) s by (simp add: word_less_nat_alt)
    then have up: "unat (m_currentTerm s + 1) = unat (m_currentTerm s) + 1" by (rule unat_plus_one)
    then have "m_currentTerm s + 1 \<noteq> 0" by (metis add_is_0 one_neq_zero unat_0)
    from lost_election [OF assms(1) s False this, of put] Suc.prems(1) s obtain S1 s1 where
      S1: "system_step N put {} S S1" "nodes S1 = (nodes S)(i := (s1, d))" "m_currentTerm s1 = m_currentTerm s + 1"
        "m_logs s1 = m_logs s" by (auto simp del: fun_upd_apply)
    have "k = unat T - unat (m_currentTerm (fst (nodes S1 i)))" "m_currentTerm (fst (nodes S1 i)) \<le> T"
      using Suc.hyps(2) S1(2,3) s up lt by (simp_all add: word_le_nat_alt word_less_nat_alt)
    from Suc.hyps(1) [OF this(1) _ this(2)] S1 Suc.prems(1) s obtain S' where
      "(system_step N put {})\<^sup>*\<^sup>* S1 S'" "leads S' i \<or> m_currentTerm (fst (nodes S' i)) = T
        \<and> m_logs (fst (nodes S' i)) = m_logs s \<and> (\<forall>j. j \<noteq> i \<longrightarrow> nodes S' j = nodes S1 j)" by auto
    then show ?thesis using S1(1,2) s by (intro exI [of _ S']) (auto intro: converse_rtranclp_into_rtranclp)
  qed
qed

section \<open>An election whose calls are all answered\<close>

text \<open>A voter of an earlier term whose log is not newer grants its vote.\<close>

definition would_grant :: "RequestVoteArgs \<Rightarrow> RaftNode \<Rightarrow> bool" where
  "would_grant a s \<longleftrightarrow> m_currentTerm s < rv_term a \<and> m_logs s \<noteq> []
     \<and> (rv_lastLogTerm a > log_term (last (m_logs s))
        \<or> rv_lastLogTerm a = log_term (last (m_logs s)) \<and> rv_lastLogIndex a \<ge> log_index (last (m_logs s)))"

lemma would_grant_grants:
  "would_grant a s \<Longrightarrow> \<exists>r s'. handleRequestVote t a s = Some (r, s') \<and> rvr_voteGranted r"
  by (auto simp: would_grant_def handleRequestVote_def vec_back_def Let_def)

definition granted_calls :: "RequestVoteArgs \<Rightarrow> string list \<Rightarrow> vote_call list \<Rightarrow> bool" where
  "granted_calls a ps vs \<longleftrightarrow> list_all2 (\<lambda>p (p', a', r). p' = p \<and> a' = a \<and> (\<exists>x. r = Some x \<and> rvr_voteGranted x)) ps vs"

lemma granted_calls_loop:
  "granted_calls a ps vs \<Longrightarrow>
   election_loop called_vote a ps votes s (Some (vs, [])) = ((False, votes + int (length ps), s), Some ([], []))"
proof (induction ps arbitrary: vs votes)
  case (Cons p ps)
  then obtain x vs' where vs: "vs = (p, a, Some x) # vs'" "rvr_voteGranted x" "granted_calls a ps vs'"
    by (auto simp: granted_calls_def list_all2_Cons1)
  show ?case using Cons.IH [OF vs(3)] vs(1,2) by simp
qed (simp add: granted_calls_def)

lemma granted_calls_made:
  assumes "distinct ps" and "set ps \<subseteq> N" and "set ps \<inter> B = {}" and "\<forall>p \<in> set ps. would_grant a (fst (nodes S p))"
  shows "\<exists>S' vs. vote_calls N put B vs S S' \<and> granted_calls a ps vs"
  using assms
proof (induction ps arbitrary: S)
  case Nil
  then show ?case using votes_done by (fastforce simp: granted_calls_def)
next
  case (Cons p ps)
  obtain s d where s: "nodes S p = (s, d)" by fastforce
  obtain r s' where r: "handleRequestVote tick a s = Some (r, s')" "rvr_voteGranted r"
    using would_grant_grants [of a s tick] Cons.prems(4) s by auto
  let ?S = "act p (s', d) (EvVote a r) (post_vote p a S)"
  have "\<forall>q \<in> set ps. would_grant a (fst (nodes ?S q))" using Cons.prems(1,4) by (auto simp: act_def)
  from Cons.IH [OF _ _ _ this] Cons.prems(1-3) obtain S' vs where
    "vote_calls N put B vs ?S S'" "granted_calls a ps vs" by auto
  then show ?case
    using vote_answered [OF _ _ s r(1), of N B put vs S'] Cons.prems(2,3) r(2)
    by (intro exI [of _ S'] exI [of _ "(p, a, Some r) # vs"]) (auto simp: granted_calls_def)
qed

lemma election_won:
  assumes "i \<in> N" and "nodes S i = (s, d)" and "m_state s \<noteq> Leader" and "m_currentTerm s + 1 \<noteq> 0" and "m_logs s \<noteq> []"
    and "distinct (m_peers s)" and "set (m_peers s) \<subseteq> N - {i}"
    and "\<forall>p \<in> set (m_peers s). would_grant (vote_request s) (fst (nodes S p))"
  shows "\<exists>S'. system_step N put {} S S' \<and> leads S' i"
proof -
  obtain S1 vs where vs: "vote_calls N put {i} vs S S1" "granted_calls (vote_request s) (m_peers s) vs"
    using granted_calls_made [OF assms(6), of N "{i}" "vote_request s" S put] assms(7,8) by auto
  have "majority (m_peers s) \<le> 1 + int (length (m_peers s))" by (simp add: majority_def)
  then obtain s' where "startElection called_vote tick s (Some (vs, [])) = Some (s', Some ([], []))" "m_state s' = Leader"
    using startElection_result [OF assms(5) granted_calls_loop [OF vs(2)], of tick] by auto
  with elects [OF assms(1) _ assms(2-4) vs(1)] show ?thesis by (fastforce simp: act_def leads_def)
qed

section \<open>Property\<close>

lemma reached_peers:
  assumes "cluster ps N" and "system_reach N put tm ps d0 S" and "i \<in> N"
  shows "m_peers (fst (nodes S i)) = ps i" "m_logs (fst (nodes S i)) \<noteq> []"
proof -
  note inv = system_reach_inv [OF assms(1,2)]
  have "member_ok put i (ps i) (history S i) (nodes S i)" using inv assms(3) by (simp add: system_inv_def)
  moreover have "i \<noteq> []" using assms(1,3) by (auto simp: cluster_def)
  ultimately show "m_peers (fst (nodes S i)) = ps i" using member_facts(2) by (metis prod.collapse)
  show "m_logs (fst (nodes S i)) \<noteq> []" using system_inv_run(3) [OF inv assms(3)] by (simp add: raft_wf_def log_ok_def)
qed

lemma greatest_term_wins:
  assumes "cluster ps N" and "system_reach N put tm ps d0 S" and "b \<in> N" and "\<not> leads S b"
    and "\<forall>j \<in> N. newer (last_of S b) (last_of S j)"
    and "\<forall>j \<in> N. m_currentTerm (fst (nodes S j)) \<le> m_currentTerm (fst (nodes S b))"
    and "m_currentTerm (fst (nodes S b)) + 1 \<noteq> 0"
  shows "\<exists>S'. system_step N put {} S S' \<and> leads S' b"
proof -
  obtain s d where s: "nodes S b = (s, d)" by fastforce
  have peers: "distinct (m_peers s)" "set (m_peers s) = N - {b}" and logs: "m_logs s \<noteq> []"
    using reached_peers [OF assms(1-3)] assms(1,3) s by (auto simp: cluster_def)
  have "m_currentTerm s < m_currentTerm s + 1" using word_plus_one_greater assms(7) s by simp
  then have "would_grant (vote_request s) (fst (nodes S p))" if "p \<in> N" for p
    using assms(5,6) that s reached_peers(2) [OF assms(1,2) that]
    by (fastforce simp: would_grant_def vote_request_def newer_def last_of_def)
  with peers show ?thesis
    using election_won [OF assms(3) s _ _ logs, of put] assms(4,7) s by (auto simp: leads_def)
qed

text \<open>
  C6. A leader can always be elected: from every state that a cluster can reach, whatever elections,
  lost calls, old votes and submitted entries led there, some continuation makes a node leader, as long
  as no term has reached the greatest 64-bit number.
\<close>

theorem leader_can_be_elected:
  assumes "cluster ps N" and "N \<noteq> {}" and "system_reach N put tm ps d0 S"
    and "\<forall>j \<in> N. m_currentTerm (fst (nodes S j)) + 1 \<noteq> 0"
  shows "\<exists>S' i. (system_step N put {})\<^sup>*\<^sup>* S S' \<and> i \<in> N \<and> m_state (fst (nodes S' i)) = Leader"
proof -
  let ?tm = "\<lambda>S j. m_currentTerm (fst (nodes S j))"
  have fin: "finite N" using assms(1,2) unfolding cluster_def by (metis List.finite_set all_not_in_conv)
  obtain b where b: "b \<in> N" "\<forall>j \<in> N. newer (last_of S b) (last_of S j)" using newest_exists [OF fin assms(2)] by blast
  define T where "T = Max (?tm S ` N)"
  have T: "\<forall>j \<in> N. ?tm S j \<le> T" "T \<in> ?tm S ` N" unfolding T_def using fin assms(2) by simp_all
  have "?tm S b \<le> T" using T(1) b(1) by blast
  from term_raised [OF b(1) reached_peers(2) [OF assms(1,3) b(1)] this, of put] obtain S1 where
    S1: "(system_step N put {})\<^sup>*\<^sup>* S S1" "leads S1 b \<or> ?tm S1 b = T
      \<and> m_logs (fst (nodes S1 b)) = m_logs (fst (nodes S b)) \<and> (\<forall>j. j \<noteq> b \<longrightarrow> nodes S1 j = nodes S j)" by blast
  show ?thesis
  proof (cases "leads S1 b")
    case False
    have same: "last_of S1 j = last_of S j" "?tm S1 j \<le> T" if "j \<in> N" for j
      using S1(2) False T(1) that by (cases "j = b"; simp add: last_of_def)+
    have "system_reach N put tm ps d0 S1" using assms(3) S1(1) unfolding system_reach_def by (rule rtranclp_trans)
    moreover have "?tm S1 b = T" "T + 1 \<noteq> 0" using S1(2) False T(2) assms(4) by auto
    ultimately obtain S' where "system_step N put {} S1 S'" "leads S' b"
      using greatest_term_wins [OF assms(1) _ b(1) False, of put tm d0] b same by auto
    then show ?thesis using S1(1) b(1) by (intro exI [of _ S'] exI [of _ b]) (auto simp: leads_def)
  qed (use S1(1) b(1) in \<open>auto simp: leads_def\<close>)
qed

theorem leader_can_be_elected_witness:
  "\<exists>(S :: (string \<times> string) list system) i. system_reach {''a'', ''b'', ''c''} list_put (\<lambda>_. tick) three_peers (\<lambda>_. []) S
     \<and> i \<in> {''a'', ''b'', ''c''} \<and> m_state (fst (nodes S i)) = Leader"
proof -
  have "system_reach {''a'', ''b'', ''c''} list_put (\<lambda>_. tick) three_peers (\<lambda>_. []) three_init"
    by (simp add: system_reach_def three_init_def)
  moreover have "\<forall>j \<in> {''a'', ''b'', ''c''}. m_currentTerm (fst (nodes three_init j)) + 1 \<noteq> 0"
    by (simp add: three_init_def system_init_def RaftNode_init_def resetElectionTimer_def)
  ultimately show ?thesis
    using leader_can_be_elected [OF three_cluster, of list_put "\<lambda>_. tick" "\<lambda>_. []" three_init]
    by (fastforce simp: system_reach_def three_init_def)
qed

end
