(* ===== verification/Raft_Stale.thy ===== *)
theory Raft_Stale
  imports Raft_System
begin

text \<open>
  A run of a cluster of three in which a vote that arrives late elects a second leader: \<open>a\<close> asks for
  votes in term 1 and reads no reply; \<open>b\<close> and \<open>c\<close> handle the requests afterwards and grant them; \<open>b\<close>
  wins term 2 with the vote of \<open>c\<close>; then \<open>a\<close> stands in term 2 and reads the reply that \<open>c\<close> gave in
  term 1.
\<close>

section \<open>The calls and the nodes\<close>

abbreviation "abc \<equiv> {''a'', ''b'', ''c''}"

definition fresh_node :: "string \<Rightarrow> RaftNode" where
  "fresh_node i = RaftNode_init tick i (three_peers i)"

definition voted :: "string \<Rightarrow> u64 \<Rightarrow> string \<Rightarrow> RaftNode" where
  "voted i t c = (fresh_node i)\<lparr>m_currentTerm := t, m_votedFor := c\<rparr>"

definition stood :: "string \<Rightarrow> u64 \<Rightarrow> RaftNode" where
  "stood i t = (voted i t i)\<lparr>m_state := Candidate\<rparr>"

definition won :: "string \<Rightarrow> u64 \<Rightarrow> RaftNode" where
  "won i t = init_indices (three_peers i) 1 ((stood i t)\<lparr>m_state := Leader\<rparr>)"

definition lost_a :: "vote_call list" where
  "lost_a = [(''b'', vote_from ''a'' 1, None), (''c'', vote_from ''a'' 1, None)]"

definition won_b :: "vote_call list" where
  "won_b = [(''a'', vote_from ''b'' 2, None), (''c'', vote_from ''b'' 2, Some (grant 2))]"

definition stale_a :: "vote_call list" where
  "stale_a = [(''b'', vote_from ''a'' 2, None), (''c'', vote_from ''a'' 2, Some (grant 1))]"

lemmas stale_eval = fresh_node_def voted_def stood_def won_def lost_a_def won_b_def stale_a_def raft_eval

text \<open>What the two operations do on these nodes.\<close>

lemma grants:
  "handleRequestVote tick (vote_from ''a'' 1) (fresh_node i) = Some (grant 1, voted i 1 ''a'')"
  "handleRequestVote tick (vote_from ''b'' 2) (voted i 1 ''a'') = Some (grant 2, voted i 2 ''b'')"
  by (simp_all add: handleRequestVote_def Let_def stale_eval)

lemma elections:
  "startElection called_vote tick (fresh_node ''a'') (Some (lost_a, [])) = Some (stood ''a'' 1, Some ([], []))"
  "startElection called_vote tick (voted ''b'' 1 ''a'') (Some (won_b, [])) = Some (won ''b'' 2, Some ([], []))"
  "startElection called_vote tick (stood ''a'' 1) (Some (stale_a, [])) = Some (won ''a'' 2, Some ([], []))"
  by (simp_all add: startElection_def Let_def stale_eval majority_def vec_size_def)

section \<open>The states\<close>

definition st1 :: "(string \<times> string) list system" where
  "st1 = act ''a'' (stood ''a'' 1, []) (EvElection 1 [] False) (count_votes ''a'' 1 lost_a
     (post_vote ''c'' (vote_from ''a'' 1) (post_vote ''b'' (vote_from ''a'' 1) three_init)))"

definition st2 :: "(string \<times> string) list system" where
  "st2 = act ''c'' (voted ''c'' 1 ''a'', []) (EvVote (vote_from ''a'' 1) (grant 1)) st1"

definition st3 :: "(string \<times> string) list system" where
  "st3 = act ''b'' (voted ''b'' 1 ''a'', []) (EvVote (vote_from ''a'' 1) (grant 1)) st2"

definition st4 :: "(string \<times> string) list system" where
  "st4 = act ''b'' (won ''b'' 2, []) (EvElection 2 [''c''] True) (count_votes ''b'' 2 won_b
     (act ''c'' (voted ''c'' 2 ''b'', []) (EvVote (vote_from ''b'' 2) (grant 2))
       (post_vote ''c'' (vote_from ''b'' 2) (post_vote ''a'' (vote_from ''b'' 2) st3))))"

definition st5 :: "(string \<times> string) list system" where
  "st5 = act ''a'' (won ''a'' 2, []) (EvElection 2 [''c''] True) (count_votes ''a'' 2 stale_a
     (post_vote ''c'' (vote_from ''a'' 2) (post_vote ''b'' (vote_from ''a'' 2) st4)))"

lemma nodes_init: "i \<in> abc \<Longrightarrow> nodes three_init i = (fresh_node i, [])"
  by (auto simp: three_init_def system_init_def fresh_node_def)

lemma nodes_act [simp]: "nodes (act i x ev S) = (nodes S)(i := x)"
  and history_act [simp]: "history (act i x ev S) = (history S)(i := history S i @ [ev])"
  and wire_act [simp]: "vote_wire (act i x ev S) = vote_wire S"
  and wire_post [simp]: "vote_wire (post_vote p a S) = insert (p, a) (vote_wire S)"
  and wire_count [simp]: "vote_wire (count_votes i t vs S) = vote_wire S"
  by (simp_all add: act_def post_vote_def count_votes_def)

section \<open>The steps\<close>

lemma step1: "system_step abc list_put {} three_init st1"
proof -
  have "vote_calls abc list_put {''a''} lost_a three_init
      (post_vote ''c'' (vote_from ''a'' 1) (post_vote ''b'' (vote_from ''a'' 1) three_init))"
    unfolding lost_a_def by (intro vote_fails votes_done)
  from elects [OF _ _ nodes_init _ _ this elections(1)] show ?thesis
    by (simp add: st1_def stale_eval)
qed

lemma step2: "system_step abc list_put {} st1 st2"
  unfolding st2_def
  by (rule late_vote [where a = "vote_from ''a'' 1" and s = "fresh_node ''c''" and t = tick])
    (simp_all add: st1_def nodes_init grants)

lemma step3: "system_step abc list_put {} st2 st3"
  unfolding st3_def
  by (rule late_vote [where a = "vote_from ''a'' 1" and s = "fresh_node ''b''" and t = tick])
    (simp_all add: st2_def st1_def nodes_init grants)

lemma step4: "system_step abc list_put {} st3 st4"
proof -
  let ?S = "post_vote ''a'' (vote_from ''b'' 2) st3"
  have b: "nodes st3 ''b'' = (voted ''b'' 1 ''a'', [])" by (simp add: st3_def)
  have c: "nodes ?S ''c'' = (voted ''c'' 1 ''a'', [])" by (simp add: st3_def st2_def)
  have "vote_calls abc list_put {''b''} won_b st3 (act ''c'' (voted ''c'' 2 ''b'', []) (EvVote (vote_from ''b'' 2) (grant 2))
      (post_vote ''c'' (vote_from ''b'' 2) ?S))"
    unfolding won_b_def by (rule vote_fails, rule vote_answered [OF _ _ c grants(2)]) (simp_all add: votes_done)
  from elects [OF _ _ b _ _ this elections(2)] show ?thesis
    by (simp add: st4_def stale_eval)
qed

lemma step5: "system_step abc list_put {} st4 st5"
proof -
  let ?S = "post_vote ''b'' (vote_from ''a'' 2) st4"
  have a: "nodes st4 ''a'' = (stood ''a'' 1, [])" by (simp add: st4_def st3_def st2_def st1_def)
  have old: "EvVote (vote_from ''a'' 1) (grant 1) \<in> set (history ?S ''c'')" by (simp add: st4_def st3_def st2_def)
  have "vote_calls abc list_put {''a''} stale_a st4 (post_vote ''c'' (vote_from ''a'' 2) ?S)"
    unfolding stale_a_def by (rule vote_fails, rule vote_stale [OF old]) (simp_all add: votes_done vote_from_def)
  from elects [OF _ _ a _ _ this elections(3)] show ?thesis
    by (simp add: st5_def stale_eval)
qed

lemma reach_st5: "(system_step abc list_put {})\<^sup>*\<^sup>* three_init st5"
proof -
  let ?R = "system_step abc list_put {}"
  have "?R\<^sup>*\<^sup>* three_init st2" using step1 step2 by (auto intro: rtranclp.rtrancl_into_rtrancl)
  moreover have "?R\<^sup>*\<^sup>* st2 st4" using step3 step4 by (auto intro: rtranclp.rtrancl_into_rtrancl)
  ultimately have "?R\<^sup>*\<^sup>* three_init st4" by (rule rtranclp_trans)
  then show ?thesis using step5 by (rule rtranclp.rtrancl_into_rtrancl)
qed

section \<open>Property\<close>

text \<open>
  C3. A stale vote elects a second leader: a cluster of three nodes reaches a state with two leaders
  in the same term, without any restart, because a candidate counts a granted vote without
  comparing the term of the reply with its own. The test is all that is missing: the only counted vote
  of another term is the one of \<open>c\<close> from term 1.
\<close>

theorem stale_vote_elects_two_leaders:
  "\<exists>S :: (string \<times> string) list system.
     system_reach {''a'', ''b'', ''c''} list_put (\<lambda>_. tick) three_peers (\<lambda>_. []) S
   \<and> m_state (fst (nodes S ''a'')) = Leader \<and> m_currentTerm (fst (nodes S ''a'')) = 2
   \<and> m_state (fst (nodes S ''b'')) = Leader \<and> m_currentTerm (fst (nodes S ''b'')) = 2
   \<and> {x \<in> counted S. rvr_term (snd (snd (snd x))) \<noteq> fst (snd x)} = {(''a'', 2, ''c'', grant 1)}"
proof (intro exI [of _ st5] conjI)
  show "system_reach {''a'', ''b'', ''c''} list_put (\<lambda>_. tick) three_peers (\<lambda>_. []) st5"
    unfolding system_reach_def three_init_def [symmetric] by (rule reach_st5)
  show "{x \<in> counted st5. rvr_term (snd (snd (snd x))) \<noteq> fst (snd x)} = {(''a'', 2, ''c'', grant 1)}"
    by (auto simp: st5_def st4_def st3_def st2_def st1_def act_def post_vote_def count_votes_def three_init_def
        system_init_def lost_a_def won_b_def stale_a_def grant_def)
qed (simp_all add: st5_def st4_def stale_eval)

end
