(* ===== verification/Dispatcher.thy ===== *)
theory Dispatcher
  imports Json
begin

text \<open>
  \<open>server/Dispatcher.cpp\<close>: a dispatcher of JSON requests and the text scanner beside it. No other
  file calls them.
\<close>

section \<open>Scanning\<close>

text \<open>
  \<open>s.find(pat, pos)\<close> for a non-empty pattern; \<open>None\<close> is \<open>npos\<close>. A search from \<open>npos\<close> finds nothing,
  but \<open>npos + 1\<close> is 0.
\<close>

definition find_from :: "string \<Rightarrow> string \<Rightarrow> nat option \<Rightarrow> nat option" where
  "find_from pat s pos = (case pos of
     None \<Rightarrow> None
   | Some i \<Rightarrow> find (\<lambda>k. take (length pat) (drop k s) = pat) [i..<Suc (length s)])"

definition after_pos :: "nat option \<Rightarrow> nat" where
  "after_pos pos = (case pos of None \<Rightarrow> 0 | Some i \<Rightarrow> i + 1)"

definition getCmd :: "string \<Rightarrow> string" where
  "getCmd req =
     (let pos = find_from ''\"cmd\"'' req (Some 0) in
      if pos = None then []
      else
        (let pos1 = find_from '':'' req pos;
             pos2 = find_from ''\"'' req pos1;
             end_pos = find_from ''\"'' req (Some (after_pos pos2)) in
         (case (pos2, end_pos) of
            (Some i, Some j) \<Rightarrow> take (j - i - 1) (drop (i + 1) req)
          | _ \<Rightarrow> [])))"

section \<open>Dispatching\<close>

definition status_json :: "string \<Rightarrow> string \<Rightarrow> string \<Rightarrow> 'f json" where
  "status_json status key v = JObj [(''status'', JStr status), (key, JStr v)]"

text \<open>\<open>req.value("data", "")\<close>: the default only when the member is missing.\<close>

definition value_str :: "string \<Rightarrow> string \<Rightarrow> 'f json \<Rightarrow> string outcome" where
  "value_str key d req = (case req of
     JObj kvs \<Rightarrow> (case map_of kvs key of None \<Rightarrow> Ret d | Some v \<Rightarrow> to_str v)
   | _ \<Rightarrow> Throws)"

definition missing_cmd :: string where
  "missing_cmd = ''{\"status\":\"error\",\"msg\":\"missing cmd\"}''"

definition dispatch_try :: "'f json_lib \<Rightarrow> string \<Rightarrow> string outcome" where
  "dispatch_try js request =
     obind (opt_throw (js_parse js request)) (\<lambda>req.
       if \<not> json_contains ''cmd'' req then Ret missing_cmd
       else
         obind (obind (json_index ''cmd'' req) to_str) (\<lambda>cmd.
           if cmd = ''ping'' then opt_throw (js_dump js (status_json ''ok'' ''data'' ''pong''))
           else if cmd = ''echo'' then
             obind (value_str ''data'' [] req) (\<lambda>d. opt_throw (js_dump js (status_json ''ok'' ''data'' d)))
           else opt_throw (js_dump js (status_json ''error'' ''msg'' ''unknown command''))))"

text \<open>\<open>what\<close> is the text of the exception. The \<open>dump\<close> of the handler is not protected.\<close>

definition dispatch :: "'f json_lib \<Rightarrow> string \<Rightarrow> string \<Rightarrow> string outcome" where
  "dispatch js what request =
     catching (dispatch_try js request)
       (opt_throw (js_dump js (status_json ''error'' ''msg'' (''invalid json: '' @ what))))"

section \<open>Lemmas\<close>

text \<open>The request that \<open>dispatch\<close> answers with success, and what it answers.\<close>

definition ok_data :: "'f json_lib \<Rightarrow> string \<Rightarrow> string option" where
  "ok_data js request = (case js_parse js request of
     Some (JObj kvs) \<Rightarrow>
       (if map_of kvs ''cmd'' = Some (JStr ''ping'') then Some ''pong''
        else if map_of kvs ''cmd'' = Some (JStr ''echo'') then
          (case map_of kvs ''data'' of None \<Rightarrow> Some [] | Some (JStr d) \<Rightarrow> Some d | _ \<Rightarrow> None)
        else None)
   | _ \<Rightarrow> None)"

lemma to_str_iff: "to_str j = Ret s \<longleftrightarrow> j = JStr s"
  by (cases j) auto

lemma dispatch_try_ok:
  "ok_data js request = Some d \<Longrightarrow> dispatch_try js request = opt_throw (js_dump js (status_json ''ok'' ''data'' d))"
  by (auto simp: ok_data_def dispatch_try_def value_str_def split: option.splits json.splits if_splits)

lemma dispatch_try_not_ok:
  assumes "ok_data js request = None"
  shows "dispatch_try js request \<in> {Throws, Ret missing_cmd, opt_throw (js_dump js (status_json ''error'' ''msg'' ''unknown command''))}"
proof (cases "js_parse js request")
  case (Some req)
  show ?thesis
  proof (cases req)
    case (JObj kvs)
    show ?thesis
    proof (cases "map_of kvs ''cmd''")
      case None
      then show ?thesis using Some JObj by (simp add: dispatch_try_def)
    next
      case c: (Some v)
      show ?thesis
      proof (cases v)
        case (JStr cmd)
        with Some JObj c assms show ?thesis
          by (cases "map_of kvs ''data''")
            (auto simp: dispatch_try_def ok_data_def value_str_def split: json.splits if_splits)
      qed (use Some JObj c in \<open>simp_all add: dispatch_try_def\<close>)
    qed
  qed (use Some in \<open>simp_all add: dispatch_try_def\<close>)
qed (simp add: dispatch_try_def)

text \<open>Finding the first occurrence of a character.\<close>

lemma find_upt:
  assumes "i \<le> k" and "k < n" and "P k" and "\<And>j. i \<le> j \<Longrightarrow> j < k \<Longrightarrow> \<not> P j"
  shows "find P [i..<n] = Some k"
  unfolding find_Some_iff
  by (rule exI [of _ "k - i"]) (use assms in \<open>auto simp: less_diff_conv\<close>)

lemma take_one_drop: "take (Suc 0) (drop k s) = [c] \<longleftrightarrow> k < length s \<and> s ! k = c"
  by (cases "k < length s") (auto simp: take_Suc hd_drop_conv_nth)

lemma find_char:
  assumes "i \<le> length a" and "c \<notin> set (drop i a)"
  shows "find_from [c] (a @ c # b) (Some i) = Some (length a)"
proof -
  have "\<not> take (Suc 0) (drop j (a @ c # b)) = [c]" if "i \<le> j" "j < length a" for j
  proof -
    have "a ! j = drop i a ! (j - i)" using that assms(1) by simp
    moreover have "drop i a ! (j - i) \<in> set (drop i a)" using that by (intro nth_mem) simp
    ultimately have "a ! j \<noteq> c" using assms(2) by metis
    then show ?thesis using that by (simp add: take_one_drop nth_append)
  qed
  then show ?thesis
    unfolding find_from_def using assms(1) by (auto simp: take_one_drop simp del: upt_Suc intro!: find_upt)
qed

lemma find_char_after: "c \<notin> set y \<Longrightarrow> find_from [c] (x @ y @ c # b) (Some (length x)) = Some (length x + length y)"
  using find_char [of "length x" "x @ y" c b] by simp

section \<open>Properties\<close>

text \<open>
  What \<open>dispatch\<close> answers: a reply to a \<open>ping\<close> or to an \<open>echo\<close> with a string (or without data)
  parses as the object with status \<open>ok\<close> and the data; the reply to every other request, including one
  that is not JSON, is the fixed text for a missing command or parses as an object with status
  \<open>error\<close>.
\<close>

theorem dispatch_answers:
  assumes "json_lib_ok js" and "dispatch js what request = Ret reply"
  shows "case ok_data js request of
      Some d \<Rightarrow> js_parse js reply = Some (canon (if js_dump js (status_json ''ok'' ''data'' d) = None
        then status_json ''error'' ''msg'' (''invalid json: '' @ what) else status_json ''ok'' ''data'' d))
    | None \<Rightarrow> reply = missing_cmd \<or> (\<exists>msg. js_parse js reply = Some (canon (status_json ''error'' ''msg'' msg)))"
proof -
  have parsed: "js_parse js reply = Some (canon (status_json st k v))" if "opt_throw (js_dump js (status_json st k v)) = Ret reply"
    for st k v
    by (rule json_roundtrip [OF assms(1)])
      (use that in \<open>auto simp: status_json_def opt_throw_def split: option.splits\<close>)
  show ?thesis
  proof (cases "ok_data js request")
    case (Some d)
    from assms(2) dispatch_try_ok [OF Some] parsed [of "''ok''" "''data''" d]
      parsed [of "''error''" "''msg''" "''invalid json: '' @ what"] Some
    show ?thesis by (cases "js_dump js (status_json ''ok'' ''data'' d)") (auto simp: dispatch_def)
  next
    case None
    from assms(2) dispatch_try_not_ok [OF None] parsed [of "''error''" "''msg''"] None show ?thesis
      by (cases "dispatch_try js request") (auto simp: dispatch_def)
  qed
qed

definition ping_js :: "int json_lib" where
  "ping_js = table_js [(JObj [(''cmd'', JStr ''ping'')], ''P''), (status_json ''ok'' ''data'' ''pong'', ''R'')]"

theorem dispatch_answers_witness:
  "dispatch ping_js [] ''P'' = Ret ''R'' \<and> js_parse ping_js ''R'' = Some (canon (status_json ''ok'' ''data'' ''pong''))"
proof -
  have ok: "ok_data ping_js ''P'' = Some ''pong''"
    by (simp add: ok_data_def ping_js_def table_js_def canon.simps)
  have dump: "js_dump ping_js (status_json ''ok'' ''data'' ''pong'') = Some ''R''"
    by (simp add: ping_js_def table_js_def status_json_def)
  have run: "dispatch ping_js [] ''P'' = Ret ''R''" by (simp add: dispatch_def dispatch_try_ok [OF ok] dump)
  have "json_lib_ok ping_js" unfolding ping_js_def by (rule table_js_ok) simp
  from dispatch_answers [OF this run] run show ?thesis by (simp add: ok dump)
qed

text \<open>
  The scanner reads the string after the first \<open>"cmd"\<close> and the colon that follows it.
\<close>

theorem getCmd_scans:
  assumes "req = pre @ ''\"cmd\"'' @ gap @ '':'' @ blank @ ''\"'' @ cmd @ ''\"'' @ post"
    and "\<And>k. k < length pre \<Longrightarrow> take 5 (drop k req) \<noteq> ''\"cmd\"''"
    and "CHR '':'' \<notin> set gap" and "CHR 0x22 \<notin> set blank" and "CHR 0x22 \<notin> set cmd"
  shows "getCmd req = cmd"
proof -
  define a where "a = pre @ ''\"cmd\"'' @ gap"
  define b where "b = a @ '':'' @ blank"
  have req: "req = pre @ (''\"cmd\"'' @ gap) @ CHR '':'' # (blank @ ''\"'' @ cmd @ ''\"'' @ post)"
    "req = a @ ('':'' @ blank) @ CHR 0x22 # (cmd @ ''\"'' @ post)" "req = (b @ ''\"'') @ cmd @ CHR 0x22 # post"
    using assms(1) by (simp_all add: a_def b_def)
  have p: "find_from ''\"cmd\"'' req (Some 0) = Some (length pre)"
    unfolding find_from_def option.case
    by (rule find_upt) (use assms(1,2) in \<open>auto simp: eval_nat_numeral\<close>)
  have c: "find_from '':'' req (Some (length pre)) = Some (length a)"
    using find_char_after [of "CHR '':''" "''\"cmd\"'' @ gap" pre] assms(3) unfolding req(1) by (simp add: a_def)
  have q: "find_from ''\"'' req (Some (length a)) = Some (length b)"
    using find_char_after [of "CHR 0x22" "'':'' @ blank" a] assms(4) unfolding req(2) by (simp add: b_def)
  have e: "find_from ''\"'' req (Some (length b + 1)) = Some (length b + 1 + length cmd)"
    using find_char_after [of "CHR 0x22" cmd "b @ ''\"''"] assms(5) unfolding req(3) by simp
  have "take (length cmd) (drop (length b + 1) req) = cmd" unfolding req(3) by simp
  then show ?thesis using p c q e by (simp add: getCmd_def after_pos_def Let_def)
qed


end
