(* ===== verification/Logger.thy ===== *)
theory Logger
  imports Prelude
begin

text \<open>
  \<open>common/logger/Logger.h\<close>, \<open>common/logger/Logger.cpp\<close>: the levels, the call behind the four logging
  macros, and the set-up of the default logger. The library \<open>spdlog\<close> is not part of the sources: where
  it writes a message and whether a file can be opened are arguments.
\<close>

section \<open>Levels\<close>

datatype LogLevel = DEBUG | INFO | WARN | ERROR

primrec level_value :: "LogLevel \<Rightarrow> nat" where
  "level_value DEBUG = 0"
| "level_value INFO = 1"
| "level_value WARN = 2"
| "level_value ERROR = 3"

text \<open>The levels of \<open>spdlog\<close> that the sources use, in the order of the library.\<close>

datatype spd_level = spd_debug | spd_info | spd_warn | spd_err

primrec spd_value :: "spd_level \<Rightarrow> nat" where
  "spd_value spd_debug = 1"
| "spd_value spd_info = 2"
| "spd_value spd_warn = 3"
| "spd_value spd_err = 4"

lemma level_value_inject: "level_value a = level_value b \<longleftrightarrow> a = b"
  by (cases a; cases b) simp_all

lemma spd_value_inject: "spd_value a = spd_value b \<longleftrightarrow> a = b"
  by (cases a; cases b) simp_all

instantiation LogLevel :: linorder
begin

definition less_eq_LogLevel :: "LogLevel \<Rightarrow> LogLevel \<Rightarrow> bool" where
  "less_eq_LogLevel a b \<longleftrightarrow> level_value a \<le> level_value b"

definition less_LogLevel :: "LogLevel \<Rightarrow> LogLevel \<Rightarrow> bool" where
  "less_LogLevel a b \<longleftrightarrow> level_value a < level_value b"

instance
  by standard (auto simp: less_eq_LogLevel_def less_LogLevel_def level_value_inject)

end

instantiation spd_level :: linorder
begin

definition less_eq_spd_level :: "spd_level \<Rightarrow> spd_level \<Rightarrow> bool" where
  "less_eq_spd_level a b \<longleftrightarrow> spd_value a \<le> spd_value b"

definition less_spd_level :: "spd_level \<Rightarrow> spd_level \<Rightarrow> bool" where
  "less_spd_level a b \<longleftrightarrow> spd_value a < spd_value b"

instance
  by standard (auto simp: less_eq_spd_level_def less_spd_level_def spd_value_inject)

end

section \<open>Logging\<close>

record source_loc =
  loc_file :: string
  loc_line :: int
  loc_func :: string

text \<open>The call behind \<open>LOG_DEBUG\<close>, \<open>LOG_INFO\<close>, \<open>LOG_WARN\<close> and \<open>LOG_ERROR\<close>.\<close>

definition logger_log ::
  "(source_loc \<Rightarrow> spd_level \<Rightarrow> string \<Rightarrow> 'w \<Rightarrow> 'w) \<Rightarrow> LogLevel \<Rightarrow> string \<Rightarrow> int \<Rightarrow> string \<Rightarrow> string \<Rightarrow> 'w \<Rightarrow> 'w" where
  "logger_log spd_log level file_name line func text w =
     (let loc = \<lparr>loc_file = file_name, loc_line = line, loc_func = func\<rparr> in
      case level of
        DEBUG \<Rightarrow> spd_log loc spd_debug text w
      | INFO \<Rightarrow> spd_log loc spd_info text w
      | WARN \<Rightarrow> spd_log loc spd_warn text w
      | ERROR \<Rightarrow> spd_log loc spd_err text w)"

text \<open>The macros; the location is the place of the call.\<close>

type_synonym 'w spd_log = "source_loc \<Rightarrow> spd_level \<Rightarrow> string \<Rightarrow> 'w \<Rightarrow> 'w"

definition LOG_DEBUG :: "'w spd_log \<Rightarrow> string \<Rightarrow> int \<Rightarrow> string \<Rightarrow> string \<Rightarrow> 'w \<Rightarrow> 'w" where
  "LOG_DEBUG spd_log = logger_log spd_log DEBUG"

definition LOG_INFO :: "'w spd_log \<Rightarrow> string \<Rightarrow> int \<Rightarrow> string \<Rightarrow> string \<Rightarrow> 'w \<Rightarrow> 'w" where
  "LOG_INFO spd_log = logger_log spd_log INFO"

definition LOG_WARN :: "'w spd_log \<Rightarrow> string \<Rightarrow> int \<Rightarrow> string \<Rightarrow> string \<Rightarrow> 'w \<Rightarrow> 'w" where
  "LOG_WARN spd_log = logger_log spd_log WARN"

definition LOG_ERROR :: "'w spd_log \<Rightarrow> string \<Rightarrow> int \<Rightarrow> string \<Rightarrow> string \<Rightarrow> 'w \<Rightarrow> 'w" where
  "LOG_ERROR spd_log = logger_log spd_log ERROR"

section \<open>Initialisation\<close>

datatype spd_sink = ConsoleSink spd_level | RotatingFileSink string nat nat spd_level

record spd_logger =
  lg_name :: string
  lg_sinks :: "spd_sink list"
  lg_level :: spd_level
  lg_flush_on :: spd_level
  lg_pattern :: string

text \<open>
  \<open>init\<close>: the result is the new default logger, what was written to the standard error output and what was
  logged. The
  constructor of the file sink throws \<open>spdlog_ex\<close> with a text (\<open>Inl\<close>) when the file cannot be opened.
\<close>

definition logger_init ::
  "(string \<Rightarrow> nat \<Rightarrow> nat \<Rightarrow> string + unit) \<Rightarrow> string \<Rightarrow> LogLevel \<Rightarrow> nat \<Rightarrow> nat \<Rightarrow> spd_logger
   \<Rightarrow> spd_logger \<times> string \<times> (spd_level \<times> string) list" where
  "logger_init open_sink log_file level max_file_size max_files current =
     (case open_sink log_file max_file_size max_files of
        Inl what \<Rightarrow> (current, ''Logger init failed: '' @ what @ [CHR 0x0A], [])
      | Inr _ \<Rightarrow>
          (let spd_level = (case level of DEBUG \<Rightarrow> spd_debug | INFO \<Rightarrow> spd_info | WARN \<Rightarrow> spd_warn | ERROR \<Rightarrow> spd_err) in
           (\<lparr>lg_name = ''default'',
             lg_sinks = [ConsoleSink spd_debug, RotatingFileSink log_file max_file_size max_files spd_debug],
             lg_level = spd_level, lg_flush_on = spd_level,
             lg_pattern = ''[%Y-%m-%d %H:%M:%S.%e] [%^%l%$] [%s:%# %!] %v''\<rparr>, [], [(spd_info, ''Logger initialized, file='' @ log_file)])))"

section \<open>Lemmas\<close>

text \<open>
  A message is written at the level its macro names, and the threshold that \<open>init\<close> sets separates the
  levels as the enumeration orders them: \<open>spdlog\<close> writes a message when the threshold is not above its
  level.
\<close>

theorem logger_threshold:
  assumes "open_sink log_file bytes files = Inr ()"
  shows "lg_level (fst (logger_init open_sink log_file threshold bytes files current))
      \<le> logger_log (\<lambda>loc lvl text w. lvl) level file_name line func text w
    \<longleftrightarrow> threshold \<le> level"
  using assms
  by (cases threshold; cases level)
    (simp_all add: logger_init_def logger_log_def less_eq_LogLevel_def less_eq_spd_level_def)

text \<open>With the default threshold of \<open>init\<close> only \<open>LOG_DEBUG\<close> is silent.\<close>

definition level_of :: "source_loc \<Rightarrow> spd_level \<Rightarrow> string \<Rightarrow> spd_level \<Rightarrow> spd_level" where
  "level_of loc lvl msg w = lvl"

theorem default_threshold_macros:
  assumes "open_sink log_file bytes files = Inr ()"
    and "threshold = lg_level (fst (logger_init open_sink log_file INFO bytes files current))"
  shows "\<not> threshold \<le> LOG_DEBUG level_of file_name line func msg w \<and> threshold \<le> LOG_INFO level_of file_name line func msg w
    \<and> threshold \<le> LOG_WARN level_of file_name line func msg w \<and> threshold \<le> LOG_ERROR level_of file_name line func msg w"
  using assms
  by (simp add: logger_init_def LOG_DEBUG_def LOG_INFO_def LOG_WARN_def LOG_ERROR_def logger_log_def level_of_def
      less_eq_spd_level_def)

theorem logger_init_failure:
  "open_sink log_file bytes files = Inl what \<Longrightarrow>
   fst (logger_init open_sink log_file level bytes files current) = current"
  by (simp add: logger_init_def)

end
