(* ===== verification/Benchmark.thy ===== *)
theory Benchmark
  imports Prelude
begin

text \<open>
  The load generator \<open>benchmark/singleNode.cpp\<close>: eight threads send requests for ten seconds and count
  the answers in two shared atomic counters. The file calls \<open>makeStoreMsg\<close> and \<open>sendAndRecv\<close>, which no
  file of the sources defines; they are arguments, on a world \<open>'w\<close>. The turns of the threads come in
  any order, and the steady clock is read at the start of each turn.
\<close>

section \<open>State\<close>

record Stat =
  stat_ok :: u64
  stat_fail :: u64

definition Stat_init :: Stat where
  "Stat_init = \<lparr>stat_ok = 0, stat_fail = 0\<rparr>"

text \<open>The deadline of each thread (in nanoseconds) while its function runs; \<open>None\<close>: it has returned.\<close>

record 'w bench =
  b_stat :: Stat
  b_world :: 'w
  b_workers :: "int option list"

type_synonym 'w make_msg = "nat \<Rightarrow> 'w \<Rightarrow> string \<times> 'w"
type_synonym 'w send_recv = "string \<Rightarrow> 'w \<Rightarrow> bool \<times> 'w"

section \<open>The workers\<close>

text \<open>The first line of \<open>worker\<close>, for threads that start at the given times, and one turn of its loop.\<close>

definition worker_start :: "int \<Rightarrow> int \<Rightarrow> int option" where
  "worker_start now seconds = Some (now + seconds * 1000000000)"

definition worker_turn :: "'w make_msg \<Rightarrow> 'w send_recv \<Rightarrow> nat \<Rightarrow> int \<Rightarrow> 'w bench \<Rightarrow> 'w bench" where
  "worker_turn makeStoreMsg sendAndRecv tid now b =
     (if tid < length (b_workers b) then
        (case b_workers b ! tid of
           None \<Rightarrow> b
         | Some end_time \<Rightarrow>
             if now < end_time then
               (let (msg, w1) = makeStoreMsg tid (b_world b);
                    (answered, w2) = sendAndRecv msg w1;
                    stat = b_stat b in
                b\<lparr>b_world := w2,
                  b_stat := (if answered then stat\<lparr>stat_ok := stat_ok stat + 1\<rparr> else stat\<lparr>stat_fail := stat_fail stat + 1\<rparr>)\<rparr>)
             else b\<lparr>b_workers := (b_workers b)[tid := None]\<rparr>)
      else b)"

fun turns :: "'w make_msg \<Rightarrow> 'w send_recv \<Rightarrow> (nat \<times> int) list \<Rightarrow> 'w bench \<Rightarrow> 'w bench" where
  "turns mk sr [] b = b"
| "turns mk sr ((tid, now) # ts) b = turns mk sr ts (worker_turn mk sr tid now b)"

section \<open>The main function\<close>

text \<open>
  Thread \<open>i\<close> starts at the time \<open>starts i\<close>; \<open>join\<close> returns when every thread has. \<open>None\<close>: some thread is
  still running after the given turns. The printed throughput is a quotient of integers, because the
  conversion to \<open>double\<close> comes after the division.
\<close>

definition bench_threads :: nat where
  "bench_threads = 8"

definition bench_duration :: int where
  "bench_duration = 10"

definition bench_start :: "(nat \<Rightarrow> int) \<Rightarrow> 'w \<Rightarrow> 'w bench" where
  "bench_start starts w =
     \<lparr>b_stat = Stat_init, b_world = w,
      b_workers = map (\<lambda>i. worker_start (starts i) bench_duration) [0..<bench_threads]\<rparr>"

definition bench_kps :: "Stat \<Rightarrow> u64" where
  "bench_kps stat = stat_ok stat div of_int bench_duration"

definition bench_main :: "'w make_msg \<Rightarrow> 'w send_recv \<Rightarrow> (nat \<Rightarrow> int) \<Rightarrow> (nat \<times> int) list \<Rightarrow> 'w
    \<Rightarrow> (u64 \<times> u64 \<times> u64) option" where
  "bench_main mk sr starts ts w =
     (let b = turns mk sr ts (bench_start starts w) in
      if list_all (\<lambda>x. x = None) (b_workers b)
      then Some (stat_ok (b_stat b), stat_fail (b_stat b), bench_kps (b_stat b))
      else None)"

section \<open>Lemmas\<close>

text \<open>How many of the turns send a request: those of a thread that has not yet seen its deadline.\<close>

fun sends :: "(nat \<times> int) list \<Rightarrow> int option list \<Rightarrow> nat" where
  "sends [] ws = 0"
| "sends ((tid, now) # ts) ws =
     (if tid < length ws then
        (case ws ! tid of
           None \<Rightarrow> sends ts ws
         | Some e \<Rightarrow> if now < e then 1 + sends ts ws else sends ts (ws[tid := None]))
      else sends ts ws)"

lemma turns_count:
  "stat_ok (b_stat (turns mk sr ts b)) + stat_fail (b_stat (turns mk sr ts b))
   = stat_ok (b_stat b) + stat_fail (b_stat b) + of_nat (sends ts (b_workers b))"
  by (induction mk sr ts b rule: turns.induct)
    (auto simp: worker_turn_def Let_def split: option.split prod.split)

text \<open>
  Every request is counted once, whatever the order of the threads: the two printed counters add up to
  the number of requests (as 64-bit numbers), and the printed throughput is the number of positive
  answers per second, rounded down to a whole number.
\<close>

theorem benchmark_counts:
  assumes "bench_main mk sr starts ts w = Some (ok_count, fail_count, kps)"
  shows "ok_count + fail_count = of_nat (sends ts (b_workers (bench_start starts w)))
    \<and> unat kps = unat ok_count div 10"
proof -
  let ?b = "turns mk sr ts (bench_start starts w)"
  have "ok_count = stat_ok (b_stat ?b)" "fail_count = stat_fail (b_stat ?b)" "kps = bench_kps (b_stat ?b)"
    using assms by (auto simp: bench_main_def Let_def split: if_splits)
  moreover have "unat (bench_kps s) = unat (stat_ok s) div 10" for s
    by (simp add: bench_kps_def bench_duration_def unat_div)
  ultimately show ?thesis
    using turns_count [of mk sr ts "bench_start starts w"]
    by (simp add: bench_start_def Stat_init_def)
qed

text \<open>A thread that reads a time at or after its deadline has returned and sends nothing more.\<close>

lemma worker_returns:
  "tid < length (b_workers b) \<Longrightarrow> b_workers b ! tid = Some e \<Longrightarrow> e \<le> now \<Longrightarrow>
   b_workers (worker_turn mk sr tid now b) ! tid = None"
  by (simp add: worker_turn_def)

lemma worker_gone:
  "tid < length (b_workers b) \<Longrightarrow> b_workers b ! tid = None \<Longrightarrow> worker_turn mk sr tid now b = b"
  by (simp add: worker_turn_def)

end
