(* ===== verification/Spec2Isabelle.thy ===== *)
theory Spec2Isabelle
  imports Workers Sharding Raft_Liveness Raft_Stale Dispatcher Logger Benchmark
begin

text \<open>
  Verification of the YOLO storage server (\<open>src/src\<close>): a server that keeps detection frames in RocksDB,
  routes each key to one node of a cluster by rendezvous hashing, and runs a Raft node beside it.

  \<^bold>\<open>The program.\<close> \<open>main\<close> reads a configuration file and starts a \<open>Server\<close>. The server probes the other
  configured nodes, puts those that answer in a \<open>ShardRouter\<close>, opens the database, starts a \<open>RaftNode\<close>
  with the routed nodes as peers, and accepts connections. Each accepted descriptor becomes a task of the
  \<open>ThreadPool\<close>, which runs a \<open>Connection\<close>: it receives length-prefixed messages (\<open>Protocol\<close>) and handles
  \<open>PING\<close>, \<open>STORE\<close>, \<open>GET\<close> and the two Raft messages. A \<open>STORE\<close> or \<open>GET\<close> whose key belongs to another node
  is forwarded on a new socket. The Raft node calls its peers through a \<open>RaftConnectionPool\<close> and applies
  committed entries to the same database.

  \<^bold>\<open>Theories and sources.\<close>
  \<^item> \<open>Prelude\<close>: words, bytes, bounds-checked vectors, maps as association lists, the collections of rewrite rules.
    \<open>Transition\<close>: invariants and simulations of step relations, the locales \<open>step_invariant\<close> and \<open>step_simulation\<close>.
  \<^item> \<open>Protocol\<close> (\<open>server/Protocol\<close>): sockets, \<open>recvAll\<close>, \<open>recvMessage\<close>, \<open>sendMessage\<close>.
  \<^item> \<open>ShardRouter\<close> (\<open>cluster/ShardRouter\<close>, \<open>cluster/NodeInfo.h\<close>): \<open>pickNode\<close>, \<open>insertNode\<close>, \<open>checkNodeHealth\<close>;
    the locale \<open>shard_picker\<close>, interpreted on \<open>pickNode\<close> as \<open>hrw\<close>.
  \<^item> \<open>Raft_Types\<close>, \<open>Raft_Node\<close> (\<open>raft/RaftTypes.h\<close>, \<open>raft/RaftNode\<close>): state, handlers, elections, heartbeats,
    commit and apply. \<open>Raft_Log\<close>, \<open>Raft_Invariants\<close>, \<open>Raft_Properties\<close>: the log, well-formedness over all runs
    of a node, the refinement of \<open>handleAppendEntries\<close>, log matching, application. \<open>Raft_Cluster\<close>: a cluster as a
    step relation on all nodes, votes as a quorum system (locale \<open>quorums\<close>, interpreted as \<open>vote\<close>), election safety.
    \<open>Raft_System\<close>: the whole cluster with the calls between its nodes, each node's mutex and the messages that
    have been sent (\<open>system_step\<close>), its invariant \<open>system_inv\<close> (\<open>step_invariant\<close> as \<open>cluster_run\<close>) and what follows for every
    reachable state. \<open>Raft_Liveness\<close>: that a leader can be elected from each of them. \<open>Raft_Stale\<close>: a run in which
    late replies make two leaders.
  \<^item> \<open>Net_OS\<close>: descriptors and system calls. \<open>RaftConnectionPool\<close>, \<open>RaftConnectionPool_Inv\<close>,
    \<open>Raft_Pool_Properties\<close> (\<open>raft/RaftConnectionPool\<close>): the pool, its books, and the contract
    \<open>connection_source\<close>, interpreted on it as \<open>pool\<close>.
  \<^item> \<open>Json\<close>: JSON values and the accessors of the library; exceptions and undefined behaviour as outcomes.
    \<open>YoloCodec\<close> (\<open>storage/YoloTypes.h\<close>, \<open>common/codec\<close>): frames and their text.
  \<^item> \<open>Raft_Wire\<close>: the four Raft messages, instances of the locale \<open>wire_codec\<close> (\<open>rv\<close>, \<open>rvr\<close>, \<open>ae\<close>, \<open>aer\<close>).
    \<open>Raft_Rpc\<close>: \<open>sendRequestVote\<close>, \<open>sendAppendEntries\<close>, \<open>start\<close> and \<open>stop\<close> of \<open>raft/RaftNode.cpp\<close>.
  \<^item> \<open>Storage\<close> (\<open>storage/RocksDBStorage\<close>, \<open>datebase/RocksDBEngine\<close>): both as instances of the locale \<open>kv_store\<close>
    (\<open>storage\<close>, \<open>engine\<close>).
  \<^item> \<open>Command\<close>, \<open>Forward\<close>, \<open>Connection\<close>, \<open>Connection_Properties\<close> (\<open>server/Command\<close>, \<open>common/error\<close>,
    \<open>server/Connection\<close>): commands, forwarding, every handler, one round and the whole loop of a connection.
    \<open>Session\<close>: an abstract frame store (\<open>respond\<close>), and the rounds of many connections as a
    refinement of that store. \<open>Sharding\<close>: two servers, of which one forwards a request to the other.
  \<^item> \<open>ThreadPool\<close> (\<open>common/thread\<close>): workers, submitters and the destructor as a step relation.
  \<^item> \<open>Config\<close> (\<open>common/config\<close>), \<open>Server\<close> (\<open>server/Server\<close>), \<open>Program\<close> (\<open>main.cpp\<close>),
    \<open>Dispatcher\<close> (\<open>server/Dispatcher\<close>), \<open>Logger\<close> (\<open>common/logger\<close>), \<open>Benchmark\<close> (\<open>benchmark/singleNode.cpp\<close>).
  \<^item> \<open>Service\<close>: a started server with its accept loop, connections, Raft calls, pool cleanup and stop as one step
    relation (\<open>service_step\<close>), and the ownership of descriptors as its invariant (\<open>service_ok\<close>, interpreted as \<open>service\<close>).
    \<open>Workers\<close>: the same server with its thread pool and the life of \<open>main\<close> up to the destructors (\<open>pooled_step\<close>),
    which simulates both \<open>Service\<close> and \<open>ThreadPool\<close> (\<open>with_service\<close>, \<open>with_pool\<close>).
  A C++ class is a record with its members (\<open>m_\<close> or a prefix per class), a member function a definition of the
  same name; code under one lock is one step. A read out of range, a null pointer or an assertion of a library is
  \<open>None\<close> or \<open>Undef\<close>, an exception is \<open>Throws\<close> or \<open>Inl\<close>, a result false is a value.

  \<^bold>\<open>What is shown.\<close> The whole server: any number of clients whose connections run in any order are answered as by
  one frame store that serves one request after the other, from the bytes received to the bytes sent, for
  requests with keys of this server that arrive in time and while no write to the database fails
  (\<open>clients_see_one_store\<close>); every descriptor has exactly one owner in every state of a running server, and all
  are closed after \<open>stop\<close> (\<open>descriptors_have_one_owner\<close>); with the thread pool, accepted connections are
  served once and in order by one worker each (\<open>accepted_served_once\<close>), and when the workers are joined all have
  ended and nothing is open (\<open>exit_closes_everything\<close>). Two servers: a forwarding server dials the owner, sends
  the request unchanged and relays what the owner answers to it (\<open>forwarded_request_served_by_owner\<close>). The whole cluster:
  one leader per term in every reachable state in which no leader was made by a late vote
  (\<open>one_leader_per_term\<close>), a leader that can be elected from every reachable state
  (\<open>leader_can_be_elected\<close>), and logs that hold just the node's own submissions
  (\<open>log_is_own_submissions\<close>), since the leader sends no entries. A Raft node: one vote per term among
  candidates with a name, log matching for requests cut out of a leader's log, what an AppendEntries request
  changes and its refinement, entries applied once and in order over all runs (\<open>applied_once_in_order\<close>), no
  read of the log out of range for numbered entries. Messages: the framing round trip and its bounds, the codec
  round trip, and that a Raft call over sockets, pool and JSON writes the request to the peer's address and,
  when the answer arrives in time, is a call of the other node's handler. Connections: the loop equals the reference that
  handles the messages one by one, as long as they arrive in time; a stored frame is read back; which
  messages can change a server (\<open>messages_that_change_a_server\<close>); forwarding closes its socket in all
  outcomes. Resources: descriptors of the pool, of the server and of its connections are closed exactly once.
  Thread pool: first in first out, exactly once, drained at the join, no lost task. Routing: the choice of
  \<open>pickNode\<close>, agreement of servers when no scores tie, and minimal disruption. Configuration: the last assignment
  counts, numbers are read back. Program: exit codes.
  Where the code does not do what it means to do, the theorem states what it does: servers of this program never
  find each other (\<open>server_serves_alone\<close>), late votes can make two leaders (\<open>stale_vote_elects_two_leaders\<close>) and pooled
  connections produce such late replies (\<open>late_reply_answers_next_call\<close>), a candidate without a name leaves the
  vote free for another one (\<open>empty_candidate_second_vote\<close>), an applied entry can be replaced by one that is never
  applied (\<open>applied_entry_replaced\<close>), a client that waits for its answer before it sends the next request is
  disconnected (\<open>waiting_client_disconnected\<close>), leaders commit entries they never sent
  (\<open>unreplicated_commit\<close>), the destructor of the thread pool can hang (\<open>pool_destructor_can_hang\<close>), a node that
  restarts votes twice (\<open>restart_two_leaders\<close>), and a queued connection can be built from a destroyed member when the server is
  destroyed (\<open>queued_task_reads_destroyed_member\<close>).

  \<^bold>\<open>Arguments and bounds.\<close> Not part of the sources and therefore arguments: RocksDB (\<open>rocksdb_ok\<close> states its
  documented behaviour), the JSON library's \<open>dump\<close>, \<open>parse\<close> and number conversions (\<open>json_lib_ok\<close>), \<open>std::hash\<close>,
  \<open>spdlog\<close>, the clock, the random timeout, and the operating system. What the network delivers is a script per
  socket (what arrives before each read, how much each write takes), and a message arrives in time when its bytes are
  there at the reads that ask for them (\<open>take_frame\<close>); the descriptor table remembers the connections it has closed
  (\<open>os_gone\<close>), so that theorems can say what was written to a connection and where it led. The results of \<open>connect\<close>, \<open>accept\<close> and
  \<open>epoll_wait\<close> are scripts of their calls; the theorems hold for all scripts, so their lengths bound nothing but
  the observed run: \<open>handle_loop\<close> runs a connection to the end of a finite script, and \<open>Session\<close> and \<open>Service\<close>, whose
  steps are single rounds of \<open>Connection::handle\<close>, also cover connections that never end. No fuel is used: every loop is a total function with its measure (the bytes not yet read for
  the connection loop, the distance of two indices for the loops over the log), except the accept loop and \<open>wait\<close>,
  which run over their scripts and yield \<open>None\<close> when a script ends first. Terms and indices are 64-bit words, lengths
  32-bit words, ports 16-bit words; a run of a Raft node is bounded to fewer than \<open>2 ^ 64\<close> entries, and a step of the
  cluster does not wrap a term. The load generator calls \<open>makeStoreMsg\<close> and \<open>sendAndRecv\<close>, which no file defines; they
  are arguments too.

  \<^bold>\<open>Interleaving.\<close> The thread pool, the cluster and the running server are step relations with all interleavings of
  their steps. A handler of a connection is one step: it touches the node under one lock. An election and a
  heartbeat round keep the node's mutex during their calls; in \<open>Raft_System\<close> the other nodes take steps between
  and during these calls, while the nodes in \<open>B\<close> are locked, a request can be lost, answered, or handled after its
  caller has given up, and a call can return the answer to its own request or any reply that the peer has sent
  to this caller before, as pooled connections allow (\<open>late_reply_answers_next_call\<close>). Nodes do not restart in
  \<open>Raft_System\<close> (\<open>restart_two_leaders\<close> shows why). In \<open>Service\<close> a Raft call, a round of a connection and a round of
  the cleanup thread are atomic steps, although the code holds no lock across a whole Raft call; \<open>connection_run_steps\<close> shows that the sequential run of a connection is a sequence
  of them. In \<open>Workers\<close> the accept loop runs in \<open>main\<close>, as \<open>Server::start\<close> has it, so that there is one submitter.

  \<^bold>\<open>Not modelled.\<close> Pauses and timeouts of the operating system; the output of the log calls; \<open>YoloStorage\<close> and
  \<open>StorageEngine\<close>, interfaces without code; the parser and printer of the vendored JSON library. Signals are delivered
  while the program waits (\<open>Program\<close>) or between two steps (\<open>Service\<close>, \<open>Workers\<close>), not between two arbitrary
  instructions. \<open>Server::init\<close>, which logs and returns true, and the accessors of the singletons have no state.
\<close>

section \<open>Properties that span components\<close>

text \<open>
  The other end of a health probe is a server of this program: it sends nothing, or messages with
  their length in front.
\<close>

definition framed_peer :: "health_os \<Rightarrow> bool" where
  "framed_peer os \<longleftrightarrow> tx_room (hs_conn os) = [] \<and> rx_next (hs_conn os) = []
     \<and> (rx_buf (hs_conn os) = [] \<or> (\<exists>m rest. length m < 2 ^ 24 \<and> rx_buf (hs_conn os) = frame_bytes m @ rest))"

lemma framed_peer_fails: "framed_peer os \<Longrightarrow> fst (checkNodeHealth os n) = Some False"
  unfolding framed_peer_def by (blast intro: checkNodeHealth_framed)

text \<open>Does the configuration list the server itself?\<close>

definition lists_itself :: "Config \<Rightarrow> bool" where
  "lists_itself cfg \<longleftrightarrow> (\<exists>i < config_count cfg. ni_id (config_node cfg i) = getString ''server.id'' [] cfg)"

lemma alone_ids:
  assumes "\<And>i. framed_peer (probe i)" and "Server_init hw cfg probe = Some s"
  shows "ni_id ` set (m_nodes (srv_router s)) = (if lists_itself cfg then {ni_id (srv_self s)} else {})"
  using Server_init_ids [OF assms(2)] Server_init_router(2) [OF assms(2)] framed_peer_fails [OF assms(1)]
  by (auto simp: probe_passes_def lists_itself_def)

lemma alone_init:
  assumes "\<And>i. framed_peer (probe i)"
  obtains s where "Server_init hw cfg probe = Some s"
  using load_nodes_defined [of "[0..<config_count cfg]" probe cfg "getString ''server.id'' [] cfg" "ShardRouter_init []"]
    framed_peer_fails [OF assms]
  by (fastforce simp: Server_init_def config_count_def Let_def)

text \<open>
  C17. A server never finds another one. When the other nodes run this program, every health probe
  of the constructor fails, so the routing table holds at most the server itself: each key is
  served locally if the configuration lists the server (and every request dereferences a null
  pointer if it does not), the Raft node gets no peers, and its first election makes it the leader
  without sending a message.
\<close>

theorem server_serves_alone:
  assumes "\<forall>i. framed_peer (probe i)"
  shows "\<exists>s. Server_init hw cfg probe = Some s \<and> length (m_nodes (srv_router s)) = (if lists_itself cfg then 1 else 0)
    \<and> map_option ni_id (pickNode h (srv_router s) key) = (if lists_itself cfg then Some (ni_id (srv_self s)) else None)
    \<and> m_peers (make_raft t s) = []
    \<and> (\<exists>raft. startElection send t' (make_raft t s) w = Some (raft, w) \<and> m_state raft = Leader)"
proof -
  obtain s where s: "Server_init hw cfg probe = Some s" using alone_init assms by blast
  let ?ns = "m_nodes (srv_router s)"
  have ids: "ni_id ` set ?ns = (if lists_itself cfg then {ni_id (srv_self s)} else {})"
    using alone_ids assms s by blast
  have inv: "distinct (map ni_id ?ns)" "\<forall>n \<in> set ?ns. ni_healthy n" using Server_init_inv [OF s] by auto
  have "length ?ns = card (ni_id ` set ?ns)" using distinct_card [OF inv(1)] by simp
  then have len: "length ?ns = (if lists_itself cfg then 1 else 0)" by (simp add: ids)
  have pick: "map_option ni_id (pickNode h (srv_router s) key) = (if lists_itself cfg then Some (ni_id (srv_self s)) else None)"
  proof (cases ?ns)
    case Nil
    with len show ?thesis by (auto simp: pickNode_def split: if_splits)
  next
    case (Cons n ns)
    with len ids inv(2) have "?ns = [n]" "ni_healthy n" "ni_id n = ni_id (srv_self s)" "lists_itself cfg"
      by (auto split: if_splits)
    then show ?thesis by (simp add: pickNode_def isNodeHealthy_def)
  qed
  have peers: "m_peers (make_raft t s) = []"
    using ids by (auto simp: make_raft_fields peer_ids_def filter_empty_conv split: if_splits)
  have logs: "m_logs (make_raft t s) = [dummy_entry]"
    by (simp add: make_raft_def set_addresses_logs RaftNode_init_def resetElectionTimer_def Let_def)
  have "\<exists>raft. startElection send t' (make_raft t s) w = Some (raft, w) \<and> m_state raft = Leader"
    using peers logs by (simp add: startElection_def resetElectionTimer_def majority_def Let_def)
  with s len pick peers show ?thesis by blast
qed

theorem server_serves_alone_witness:
  "\<exists>s. Server_init 4 shipped_config nobody = Some s \<and> length (m_nodes (srv_router s)) = 1
     \<and> map_option ni_id (pickNode length_hash (srv_router s) ''img'') = Some (ni_id (srv_self s))"
proof -
  have "\<forall>i. framed_peer (nobody i)" by (simp add: framed_peer_def nobody_def mk_socket_def)
  moreover have "lists_itself shipped_config"
    unfolding lists_itself_def by (rule exI [of _ 0]) (simp add: shipped_nodes)
  ultimately show ?thesis
    using server_serves_alone [of nobody 4 shipped_config length_hash "''img''" tick script_send tick "[]"] by auto
qed

text \<open>The tasks of some accepted connections, in the order in which the workers run them.\<close>

fun run_tasks :: "('f, 'd) Connection \<Rightarrow> int list \<Rightarrow> 'd world \<Rightarrow> 'd world option" where
  "run_tasks c [] w = Some w"
| "run_tasks c (fd # fds) w = (case client_task c fd w of None \<Rightarrow> None | Some w' \<Rightarrow> run_tasks c fds w')"

lemma run_tasks_close:
  "run_tasks c fds w = Some w' \<Longrightarrow> distinct fds \<Longrightarrow> set fds \<subseteq> open_fds (w_os w) \<Longrightarrow> \<forall>fd \<in> set fds. 0 \<le> fd \<Longrightarrow>
   open_fds (w_os w') = open_fds (w_os w) - set fds \<and> os_ebadf (w_os w') = os_ebadf (w_os w)"
proof (induction fds arbitrary: w)
  case (Cons fd fds)
  then obtain w1 where t: "connection_run (c\<lparr>c_fd := fd\<rparr>) w = Some w1" "run_tasks c fds w1 = Some w'"
    by (auto simp: client_task_def split: option.splits)
  have one: "open_fds (w_os w1) = open_fds (w_os w) - {fd}" "os_ebadf (w_os w1) = os_ebadf (w_os w)"
    using connection_run_release [OF t(1)] Cons.prems by simp_all
  have "open_fds (w_os w') = open_fds (w_os w1) - set fds \<and> os_ebadf (w_os w') = os_ebadf (w_os w1)"
    using Cons.IH [OF t(2)] Cons.prems one by auto
  with one show ?case by auto
qed simp

text \<open>
  C21. Accepting and serving leak nothing: when a round of the accept loop has handed its connections
  to the thread pool and the workers have run the tasks, in any order and whatever the clients sent,
  the open descriptors are exactly those from before the round and nothing was closed twice.
\<close>

theorem accepted_connections_closed:
  assumes "acceptLoop_round listen_fd evs waiting (w_os w) = (fds, rest, os')" and "mset tasks = mset fds"
    and "run_tasks c tasks (w\<lparr>w_os := os'\<rparr>) = Some w'"
  shows "open_fds (w_os w') = open_fds (w_os w) \<and> os_ebadf (w_os w') = os_ebadf (w_os w)"
proof -
  note fresh = acceptLoop_round_fresh [OF assms(1)] and nonneg = acceptLoop_round_nonneg [OF assms(1)]
  have same: "set tasks = set fds" "distinct tasks"
    using assms(2) fresh by (metis mset_eq_setD, metis distinct_count_atmost_1 mset_eq_setD)
  from run_tasks_close [OF assms(3) same(2)] same(1) fresh nonneg show ?thesis by auto
qed

theorem accepted_connections_closed_witness:
  "\<exists>fds rest os' w'. acceptLoop_round 9 [9] [Some (mk_socket [] []), Some (mk_socket [] [])] (w_os (client_world [])) = (fds, rest, os')
     \<and> run_tasks (client_conn sample_js) (rev fds) ((client_world [])\<lparr>w_os := os'\<rparr>) = Some w'
     \<and> open_fds (w_os w') = {3}"
proof -
  let ?ws = "[Some (mk_socket [] []), Some (mk_socket [] [])]"
  let ?d = "\<lparr>d_addr = None, d_sock = mk_socket [] []\<rparr>"
  let ?os = "(client_os [])\<lparr>os_desc := [(5, ?d), (4, ?d), (3, ?d)]\<rparr>"
  have a: "acceptLoop_round 9 [9] ?ws (w_os (client_world [])) = ([4, 5], [], ?os)"
    by (simp add: client_world_def client_os_def sys_socket_def lowest_free_def)
  have "\<exists>w'. run_tasks (client_conn sample_js) (rev [4, 5]) ((client_world [])\<lparr>w_os := ?os\<rparr>) = Some w'"
    by (simp add: client_task_def connection_run_def handle_loop.simps client_eval recv_on_def on_sock_def recvMessage_def
        recv_sys_def sys_close_def open_fds_def)
  then obtain w' where r: "run_tasks (client_conn sample_js) (rev [4, 5]) ((client_world [])\<lparr>w_os := ?os\<rparr>) = Some w'" by blast
  from accepted_connections_closed [OF a _ r] a r show ?thesis by (auto simp: client_eval open_fds_def)
qed

end
